(* ===== verification/Prelude.thy ===== *)
theory Prelude
  imports Main "HOL-Library.Word" "HOL-Library.AList" "HOL-Library.Sublist"
begin

text \<open>
  What every component shares: the machine integers of the Rust code as words, bytes in
  network order, Rust strings as UTF-8 byte strings, the pieces of \<open>str\<close> and \<open>Path\<close> the
  sources call, and association lists for \<open>HashMap\<close>.

  Instants and durations are natural numbers of nanoseconds: \<open>Instant\<close> plus \<open>Duration\<close>
  overflows only after centuries of uptime, so the wrap-around is not written out. A handler
  that reads the clock several times (\<open>Instant::now()\<close>) gets one reading as its argument.
  A \<open>HashMap\<close> is an association list with distinct keys; its list order stands for the
  iteration order, which Rust leaves open, and the theorems hold for every order.
\<close>

unbundle bit_operations_syntax

named_theorems qs_simps

type_synonym u8 = "8 word"
type_synonym u16 = "16 word"
type_synonym u32 = "32 word"
type_synonym u64 = "64 word"
type_synonym bytes = "u8 list"
type_synonym instant = nat
type_synonym duration = nat

section \<open>Durations\<close>

definition from_nanos :: "nat \<Rightarrow> duration" where
  "from_nanos n = n"

definition from_millis :: "nat \<Rightarrow> duration" where
  "from_millis n = n * 1000000"

definition from_secs :: "nat \<Rightarrow> duration" where
  "from_secs n = n * 1000000000"

text \<open>\<open>Instant::duration_since\<close> saturates at zero when the argument is later.\<close>

definition duration_since :: "instant \<Rightarrow> instant \<Rightarrow> duration" where
  "duration_since now t = now - t"

definition as_millis :: "duration \<Rightarrow> nat" where
  "as_millis d = d div 1000000"

lemmas duration_defs [qs_simps] =
  from_nanos_def from_millis_def from_secs_def duration_since_def as_millis_def

section \<open>Integers in network byte order\<close>

text \<open>
  \<open>to_be n w\<close> is \<open>to_be_bytes\<close> of an \<open>n\<close>-byte integer, \<open>from_be\<close> is \<open>from_be_bytes\<close>.
\<close>

primrec to_be :: "nat \<Rightarrow> 'a::len word \<Rightarrow> bytes" where
  "to_be 0 w = []"
| "to_be (Suc n) w = ucast (drop_bit (8 * n) w) # to_be n w"

definition be_step :: "'a::len word \<Rightarrow> u8 \<Rightarrow> 'a word" where
  "be_step acc b = push_bit 8 acc OR ucast b"

definition from_be :: "bytes \<Rightarrow> 'a::len word" where
  "from_be bs = foldl be_step 0 bs"

lemma length_to_be [simp]: "length (to_be n w) = n"
  by (induction n) auto

lemma be_step_bit:
  "push_bit (8 * n) (be_step acc (ucast (drop_bit (8 * n) w))) OR take_bit (8 * n) w
   = push_bit (8 * Suc n) acc OR take_bit (8 * Suc n) (w :: 'a::len word)"
  by (rule bit_word_eqI) (auto simp: be_step_def bit_simps algebra_simps)

lemma foldl_be_step_to_be:
  "foldl be_step acc (to_be n w) = push_bit (8 * n) acc OR take_bit (8 * n) (w :: 'a::len word)"
proof (induction n arbitrary: acc)
  case 0
  then show ?case by simp
next
  case (Suc n)
  then show ?case by (simp only: to_be.simps foldl_Cons be_step_bit)
qed

lemma from_be_to_be: "from_be (to_be n w) = take_bit (8 * n) (w :: 'a::len word)"
  by (simp add: from_be_def foldl_be_step_to_be)

lemma from_be_to_be_16 [simp]: "from_be (to_be 2 w) = w" for w :: u16
  by (simp add: from_be_to_be take_bit_word_eq_self)

lemma from_be_to_be_32 [simp]: "from_be (to_be 4 w) = w" for w :: u32
  by (simp add: from_be_to_be take_bit_word_eq_self)

lemma from_be_to_be_64 [simp]: "from_be (to_be 8 w) = w" for w :: u64
  by (simp add: from_be_to_be take_bit_word_eq_self)

lemma to_be_2: "to_be 2 w = [ucast (drop_bit 8 w), ucast w]"
  by (simp add: numeral_eq_Suc)

lemma to_be_4: "to_be 4 w = [ucast (drop_bit 24 w), ucast (drop_bit 16 w), ucast (drop_bit 8 w), ucast w]"
  by (simp add: numeral_eq_Suc)

lemma from_be_2 [simp]: "from_be [ucast (drop_bit 8 w), ucast w] = w" for w :: u16
  using from_be_to_be_16 [of w] by (simp only: to_be_2)

lemma from_be_4 [simp]:
  "from_be [ucast (drop_bit 24 w), ucast (drop_bit 16 w), ucast (drop_bit 8 w), ucast w] = w"
  for w :: u32
  using from_be_to_be_32 [of w] by (simp only: to_be_4)

lemma to_be_from_be_2 [simp]: "to_be 2 (from_be [x, y] :: u16) = [x, y]"
proof -
  have "ucast (drop_bit 8 (from_be [x, y] :: u16)) = x"
    by (rule bit_word_eqI) (auto simp: from_be_def be_step_def bit_simps dest: bit_imp_le_length)
  moreover have "ucast (from_be [x, y] :: u16) = y"
    by (rule bit_word_eqI) (auto simp: from_be_def be_step_def bit_simps)
  ultimately show ?thesis by (simp only: to_be_2)
qed

lemma take_3: "3 \<le> length d \<Longrightarrow> take 3 d = [d ! 0, d ! 1, d ! 2]"
  by (rule nth_equalityI) (auto simp: less_Suc_eq numeral_eq_Suc)

section \<open>Narrow integers in wider ones\<close>

lemma unat_ucast_16_32 [simp]: "unat (ucast w :: u32) = unat w" for w :: u16
  by (simp add: unsigned_ucast_eq take_bit_nat_eq_self unsigned_less [THEN order_less_le_trans])

lemma unat_u16_le: "unat w \<le> 65535" for w :: u16
  using unsigned_less [of w, where ?'a = nat] by simp

lemma unat_of_nat_u16: "n \<le> 65535 \<Longrightarrow> unat (of_nat n :: u16) = n"
  by (simp add: unat_of_nat take_bit_nat_eq_self)

lemma unat_of_nat_u32: "n \<le> 65536 \<Longrightarrow> unat (of_nat n :: u32) = n"
  by (simp add: unat_of_nat take_bit_nat_eq_self)

lemma unat_add_small:
  "unat a + unat b < 2 ^ LENGTH('a) \<Longrightarrow> unat (a + b) = unat a + unat b" for a b :: "'a::len word"
  by (simp add: unat_word_ariths(1))

lemma unat_sub_le: "unat b \<le> unat a \<Longrightarrow> unat (a - b) = unat a - unat b" for a b :: "'a::len word"
  by (simp add: unat_sub word_le_nat_alt)

lemma unat_min: "unat (min a b) = min (unat a) (unat b)" for a b :: "'a::len word"
  by (simp add: min_def word_le_nat_alt)

lemma unat_max: "unat (max a b) = max (unat a) (unat b)" for a b :: "'a::len word"
  by (simp add: max_def word_le_nat_alt)

lemma ucast_ucast_16_32 [simp]: "ucast (ucast w :: u32) = w" for w :: u16
  by (rule bit_word_eqI) (simp add: bit_simps)

lemma ucast_add_16_32 [simp]: "ucast (ucast a + ucast b :: u32) = a + b" for a b :: u16
proof -
  have "unat (ucast (ucast a + ucast b :: u32) :: u16) = (unat a + unat b) mod 2 ^ 16"
    using unat_u16_le [of a] unat_u16_le [of b]
    by (simp add: unsigned_ucast_eq unat_add_small take_bit_eq_mod)
  then show ?thesis by (simp add: word_unat_eq_iff unat_word_ariths(1))
qed

lemma unat_ucast_32_16: "unat w \<le> 65535 \<Longrightarrow> unat (ucast w :: u16) = unat w" for w :: u32
  by (simp add: unsigned_ucast_eq take_bit_nat_eq_self)

section \<open>Tables\<close>

text \<open>
  A \<open>HashMap\<close> with an invariant on its entries: distinct keys, and \<open>P\<close> of every key and
  value.
\<close>

definition table_ok :: "('k \<Rightarrow> 'v \<Rightarrow> bool) \<Rightarrow> ('k \<times> 'v) list \<Rightarrow> bool" where
  "table_ok P xs \<longleftrightarrow> distinct (map fst xs) \<and> (\<forall>(k, v) \<in> set xs. P k v)"

lemma table_ok_Nil [simp]: "table_ok P []"
  by (simp add: table_ok_def)

lemma set_update_sub: "set (AList.update k v xs) \<subseteq> insert (k, v) (set xs)"
  by (induction xs) auto

lemma table_ok_update [intro]: "table_ok P xs \<Longrightarrow> P k v \<Longrightarrow> table_ok P (AList.update k v xs)"
  using set_update_sub [of k v xs] by (fastforce simp: table_ok_def AList.distinct_update)

lemma set_delete_sub: "set (AList.delete k xs) \<subseteq> set xs"
  by (auto simp: AList.delete_eq)

lemma table_ok_delete [intro]: "table_ok P xs \<Longrightarrow> table_ok P (AList.delete k xs)"
  using set_delete_sub [of k xs] by (fastforce simp: table_ok_def AList.distinct_delete)

lemma table_ok_deletes [intro]: "table_ok P xs \<Longrightarrow> table_ok P (fold AList.delete ks xs)"
  by (induction ks arbitrary: xs) auto

lemma table_ok_lookup: "table_ok P xs \<Longrightarrow> map_of xs k = Some v \<Longrightarrow> P k v"
  by (auto simp: table_ok_def dest: map_of_SomeD)

lemma length_update:
  "length (AList.update k v xs) = (if map_of xs k = None then Suc (length xs) else length xs)"
  by (induction xs) auto

lemma length_deletes: "length (fold AList.delete ks xs) \<le> length xs"
proof (induction ks arbitrary: xs)
  case (Cons k ks)
  then have "length (fold AList.delete ks (AList.delete k xs)) \<le> length (AList.delete k xs)" .
  then show ?case using AList.length_delete_le [of k xs] by simp
qed simp

section \<open>Strings\<close>

text \<open>
  A Rust \<open>String\<close> or \<open>str\<close> is a sequence of bytes that is valid UTF-8. The model's \<open>string\<close>
  is that sequence (an Isabelle \<open>char\<close> is a byte); \<open>str_ok\<close> is the type's validity invariant,
  and \<open>from_utf8\<close> is \<open>String::from_utf8\<close>, which accepts the well-formed sequences of the
  Unicode standard (no overlong forms, no surrogates, nothing above U+10FFFF).
\<close>

definition as_bytes :: "string \<Rightarrow> bytes" where
  "as_bytes s = map of_char s"

definition of_bytes :: "bytes \<Rightarrow> string" where
  "of_bytes bs = map (\<lambda>b. char_of (unat b)) bs"

definition utf8_cont :: "u8 \<Rightarrow> bool" where
  "utf8_cont b \<longleftrightarrow> 0x80 \<le> b \<and> b \<le> 0xBF"

fun utf8_valid :: "bytes \<Rightarrow> bool" where
  "utf8_valid [] = True"
| "utf8_valid (a # bs) =
     (if a < 0x80 then utf8_valid bs
      else if 0xC2 \<le> a \<and> a \<le> 0xDF then
        (case bs of b # r \<Rightarrow> utf8_cont b \<and> utf8_valid r | _ \<Rightarrow> False)
      else if 0xE0 \<le> a \<and> a \<le> 0xEF then
        (case bs of b # c # r \<Rightarrow>
           (if a = 0xE0 then 0xA0 \<le> b \<and> b \<le> 0xBF
            else if a = 0xED then 0x80 \<le> b \<and> b \<le> 0x9F
            else utf8_cont b) \<and> utf8_cont c \<and> utf8_valid r
         | _ \<Rightarrow> False)
      else if 0xF0 \<le> a \<and> a \<le> 0xF4 then
        (case bs of b # c # d # r \<Rightarrow>
           (if a = 0xF0 then 0x90 \<le> b \<and> b \<le> 0xBF
            else if a = 0xF4 then 0x80 \<le> b \<and> b \<le> 0x8F
            else utf8_cont b) \<and> utf8_cont c \<and> utf8_cont d \<and> utf8_valid r
         | _ \<Rightarrow> False)
      else False)"

definition str_ok :: "string \<Rightarrow> bool" where
  "str_ok s \<longleftrightarrow> utf8_valid (as_bytes s)"

definition from_utf8 :: "bytes \<Rightarrow> string option" where
  "from_utf8 bs = (if utf8_valid bs then Some (of_bytes bs) else None)"

lemma of_char_char_of_byte [simp]: "of_char (char_of (unat b)) = b" for b :: u8
proof -
  have "unat b < 256" using unsigned_less [of b, where ?'a = nat] by simp
  then have "of_char (char_of (unat b)) = unat b" by simp
  then have "of_nat (of_char (char_of (unat b))) = b" by simp
  then show ?thesis by (simp only: of_nat_of_char)
qed

lemma char_of_of_char_byte [simp]: "char_of (unat (of_char c :: u8)) = c"
proof -
  have "unat (of_nat (of_char c) :: u8) = of_char c"
    using nat_of_char_less_256 [of c] by (simp add: unat_of_nat del: of_nat_of_char)
  then show ?thesis by (simp add: of_nat_of_char)
qed

lemma as_bytes_of_bytes [simp]: "as_bytes (of_bytes bs) = bs"
  by (simp add: as_bytes_def of_bytes_def comp_def map_idI)

lemma of_bytes_as_bytes [simp]: "of_bytes (as_bytes s) = s"
  by (simp add: as_bytes_def of_bytes_def comp_def)

lemma as_bytes_inj [simp]: "as_bytes s = as_bytes t \<longleftrightarrow> s = t"
  by (metis of_bytes_as_bytes)

lemma length_as_bytes [simp]: "length (as_bytes s) = length s"
  by (simp add: as_bytes_def)

lemma from_utf8_as_bytes [simp]: "str_ok s \<Longrightarrow> from_utf8 (as_bytes s) = Some s"
  by (simp add: from_utf8_def str_ok_def)

lemma from_utf8_Some:
  "from_utf8 bs = Some s \<longleftrightarrow> as_bytes s = bs \<and> str_ok s"
  by (auto simp: from_utf8_def str_ok_def)

end
