(* ===== verification/Text.thy ===== *)
theory Text
  imports Prelude
begin

text \<open>
  The operations of Rust's \<open>str\<close> and \<open>Path\<close> that the sources call, on strings as UTF-8 byte
  sequences: \<open>strip_prefix\<close>, \<open>strip_suffix\<close>, \<open>lines\<close>, \<open>trim\<close>, \<open>parse\<close> for unsigned
  integers, the decimal printer of \<open>format!\<close>, and \<open>Path::join\<close>.
\<close>

section \<open>Prefixes and suffixes\<close>

definition starts_with :: "string \<Rightarrow> string \<Rightarrow> bool" where
  "starts_with s p \<longleftrightarrow> prefix p s"

definition ends_with :: "string \<Rightarrow> string \<Rightarrow> bool" where
  "ends_with s p \<longleftrightarrow> suffix p s"

definition strip_prefix :: "string \<Rightarrow> string \<Rightarrow> string option" where
  "strip_prefix p s = (if starts_with s p then Some (drop (length p) s) else None)"

definition strip_suffix :: "string \<Rightarrow> string \<Rightarrow> string option" where
  "strip_suffix p s = (if ends_with s p then Some (take (length s - length p) s) else None)"

lemma strip_prefix_Some: "strip_prefix p s = Some r \<longleftrightarrow> s = p @ r"
  by (auto simp: strip_prefix_def starts_with_def prefix_def)

lemma strip_suffix_Some: "strip_suffix p s = Some r \<longleftrightarrow> s = r @ p"
  by (auto simp: strip_suffix_def ends_with_def suffix_def)

section \<open>Unsigned integers in decimal\<close>

text \<open>
  \<open>u64::from_str\<close>: an optional plus sign, then at least one digit; \<open>None\<close> where the value
  passes the type's maximum.
\<close>

definition digit_of :: "char \<Rightarrow> nat option" where
  "digit_of c = (let n = of_char c in if 48 \<le> n \<and> n \<le> 57 then Some (n - 48) else None)"

fun parse_digits :: "nat \<Rightarrow> nat \<Rightarrow> string \<Rightarrow> nat option" where
  "parse_digits bound acc [] = Some acc"
| "parse_digits bound acc (c # cs) =
     (case digit_of c of
        None \<Rightarrow> None
      | Some d \<Rightarrow>
          let acc' = 10 * acc + d in
          if acc' < bound then parse_digits bound acc' cs else None)"

definition parse_uint :: "nat \<Rightarrow> string \<Rightarrow> nat option" where
  "parse_uint bound s =
     (let ds = (case s of c # cs \<Rightarrow> if c = CHR ''+'' then cs else s | [] \<Rightarrow> []) in
      if ds = [] then None else parse_digits bound 0 ds)"

definition parse_u64 :: "string \<Rightarrow> u64 option" where
  "parse_u64 s = map_option of_nat (parse_uint (2 ^ 64) s)"

fun show_nat :: "nat \<Rightarrow> string" where
  "show_nat n =
     (if n < 10 then [char_of (48 + n)] else show_nat (n div 10) @ [char_of (48 + n mod 10)])"

declare show_nat.simps [simp del]

lemma digit_of_char [simp]: "d < 10 \<Longrightarrow> digit_of (char_of (48 + d)) = Some d"
  by (simp add: digit_of_def)

lemma parse_digits_append:
  "parse_digits b acc (xs @ ys) =
     (case parse_digits b acc xs of None \<Rightarrow> None | Some a \<Rightarrow> parse_digits b a ys)"
  by (induction xs arbitrary: acc) (auto simp: Let_def split: option.splits)

lemma parse_digits_show: "n < b \<Longrightarrow> parse_digits b 0 (show_nat n) = Some n"
proof (induction n rule: show_nat.induct)
  case (1 n)
  show ?case
  proof (cases "n < 10")
    case True
    with "1.prems" show ?thesis by (simp add: show_nat.simps [of n])
  next
    case False
    with 1 show ?thesis by (simp add: show_nat.simps [of n] parse_digits_append)
  qed
qed

lemma show_nat_head: "\<exists>d cs. d < 10 \<and> show_nat n = char_of (48 + d :: nat) # cs"
proof (induction n rule: show_nat.induct)
  case (1 n)
  then show ?case by (cases "n < 10") (auto simp: show_nat.simps [of n])
qed

lemma parse_uint_show: "n < b \<Longrightarrow> parse_uint b (show_nat n) = Some n"
proof -
  assume n: "n < b"
  obtain d cs where d: "d < 10" and s: "show_nat n = char_of (48 + d :: nat) # cs"
    using show_nat_head by blast
  have "char_of (48 + d :: nat) \<noteq> CHR ''+''"
  proof
    assume "char_of (48 + d) = CHR ''+''"
    then have "(of_char (char_of (48 + d :: nat)) :: nat) = of_char CHR ''+''" by simp
    with d show False by simp
  qed
  then have "parse_uint b (show_nat n) = parse_digits b 0 (show_nat n)"
    by (simp add: parse_uint_def s)
  with n show ?thesis by (simp add: parse_digits_show)
qed

lemma parse_u64_show: "parse_u64 (show_nat (unat w)) = Some w"
proof -
  have "unat w < 2 ^ 64" using unsigned_less [of w, where ?'a = nat] by simp
  then show ?thesis by (simp add: parse_u64_def parse_uint_show)
qed

lemma parse_digits_less: "acc < b \<Longrightarrow> parse_digits b acc s = Some n \<Longrightarrow> n < b"
  by (induction s arbitrary: acc) (auto simp: Let_def split: option.splits if_splits)

section \<open>Lines and white space\<close>

text \<open>
  \<open>str::lines\<close> splits after each newline and removes the newline with a carriage return
  before it; a last line without a newline keeps its carriage return, and an empty rest is
  no line.
\<close>

definition strip_cr :: "string \<Rightarrow> string" where
  "strip_cr l = (if l \<noteq> [] \<and> last l = CHR 0x0D then butlast l else l)"

fun lines_acc :: "string \<Rightarrow> string \<Rightarrow> string list" where
  "lines_acc cur [] = (if cur = [] then [] else [rev cur])"
| "lines_acc cur (c # cs) =
     (if c = CHR 0x0A then strip_cr (rev cur) # lines_acc [] cs else lines_acc (c # cur) cs)"

definition str_lines :: "string \<Rightarrow> string list" where
  "str_lines s = lines_acc [] s"

text \<open>The white space of Unicode, each character as its UTF-8 bytes.\<close>

definition white_space :: "string list" where
  "white_space =
     map of_bytes
       ([[0x09], [0x0A], [0x0B], [0x0C], [0x0D], [0x20], [0xC2, 0x85], [0xC2, 0xA0],
         [0xE1, 0x9A, 0x80]]
        @ map (\<lambda>b. [0xE2, 0x80, b])
            [0x80, 0x81, 0x82, 0x83, 0x84, 0x85, 0x86, 0x87, 0x88, 0x89, 0x8A, 0xA8, 0xA9, 0xAF]
        @ [[0xE2, 0x81, 0x9F], [0xE3, 0x80, 0x80]])"

fun trim_start_fuel :: "nat \<Rightarrow> string \<Rightarrow> string" where
  "trim_start_fuel 0 s = s"
| "trim_start_fuel (Suc n) s =
     (case find (\<lambda>w. starts_with s w) white_space of
        None \<Rightarrow> s
      | Some w \<Rightarrow> trim_start_fuel n (drop (length w) s))"

fun trim_end_fuel :: "nat \<Rightarrow> string \<Rightarrow> string" where
  "trim_end_fuel 0 s = s"
| "trim_end_fuel (Suc n) s =
     (case find (\<lambda>w. ends_with s w) white_space of
        None \<Rightarrow> s
      | Some w \<Rightarrow> trim_end_fuel n (take (length s - length w) s))"

text \<open>Every step removes at least a byte, so the length is fuel enough.\<close>

definition str_trim :: "string \<Rightarrow> string" where
  "str_trim s = (let t = trim_start_fuel (length s) s in trim_end_fuel (length t) t)"

lemma white_space_nonempty: "w \<in> set white_space \<Longrightarrow> 0 < length w"
  by (auto simp: white_space_def of_bytes_def)

lemma find_in_set: "find P xs = Some x \<Longrightarrow> x \<in> set xs \<and> P x"
  by (induction xs) (auto split: if_splits)

lemma trim_start_done:
  "length s \<le> n \<Longrightarrow> find (\<lambda>w. starts_with (trim_start_fuel n s) w) white_space = None"
proof (induction n arbitrary: s)
  case 0
  then show ?case
    using white_space_nonempty
    by (auto simp: find_None_iff starts_with_def)
next
  case (Suc n)
  show ?case
  proof (cases "find (\<lambda>w. starts_with s w) white_space")
    case None
    then show ?thesis by simp
  next
    case (Some w)
    with find_in_set [OF Some] white_space_nonempty have "0 < length w" by blast
    with Suc.prems have "length (drop (length w) s) \<le> n" by (cases w) auto
    with Some show ?thesis using Suc.IH by simp
  qed
qed

section \<open>Paths\<close>

text \<open>
  \<open>Path::join\<close> on Unix: an absolute name replaces the base; otherwise a separator is put
  between them unless the base is empty or ends with one.
\<close>

definition path_join :: "string \<Rightarrow> string \<Rightarrow> string" where
  "path_join base name =
     (if starts_with name ''/'' then name
      else if base = [] \<or> ends_with base ''/'' then base @ name
      else base @ ''/'' @ name)"

lemma path_join_inj:
  "\<not> starts_with a ''/'' \<Longrightarrow> \<not> starts_with b ''/'' \<Longrightarrow> path_join d a = path_join d b \<longleftrightarrow> a = b"
  by (auto simp: path_join_def)

end
