(* ===== verification/Address.thy ===== *)
theory Address
  imports Prelude
begin

text \<open>
  IP and socket addresses of \<open>std::net\<close> as far as the sources use them, with the order
  \<open>SocketAddr\<close> derives (the peer list is sorted by it), and the two address tests of
  \<open>src/src/node.rs\<close>. An IPv4 address is its 32-bit value; its octets are \<open>to_be 4\<close>.
\<close>

type_synonym ipv4 = u32
type_synonym ipv6 = "128 word"

datatype socket_addr = V4 ipv4 u16 | V6 ipv6 u16 u32 u32

fun addr_port :: "socket_addr \<Rightarrow> u16" where
  "addr_port (V4 _ p) = p"
| "addr_port (V6 _ p _ _) = p"

instantiation socket_addr :: linorder
begin

fun less_eq_socket_addr :: "socket_addr \<Rightarrow> socket_addr \<Rightarrow> bool" where
  "V4 a p \<le> V4 b q \<longleftrightarrow> a < b \<or> a = b \<and> p \<le> q"
| "V4 a p \<le> V6 b q g t \<longleftrightarrow> True"
| "V6 a p f s \<le> V4 b q \<longleftrightarrow> False"
| "V6 a p f s \<le> V6 b q g t \<longleftrightarrow>
     a < b \<or> a = b \<and> (p < q \<or> p = q \<and> (f < g \<or> f = g \<and> s \<le> t))"

definition less_socket_addr :: "socket_addr \<Rightarrow> socket_addr \<Rightarrow> bool" where
  "less_socket_addr a b \<longleftrightarrow> a \<le> b \<and> \<not> b \<le> a"

instance
proof
  fix x y z :: socket_addr
  show "x < y \<longleftrightarrow> x \<le> y \<and> \<not> y \<le> x" by (rule less_socket_addr_def)
  show "x \<le> x" by (cases x) auto
  show "x \<le> y \<Longrightarrow> y \<le> z \<Longrightarrow> x \<le> z" by (cases x; cases y; cases z) auto
  show "x \<le> y \<Longrightarrow> y \<le> x \<Longrightarrow> x = y" by (cases x; cases y) auto
  show "x \<le> y \<or> y \<le> x" by (cases x; cases y) auto
qed

end

section \<open>Address classes\<close>

definition v4_octets :: "ipv4 \<Rightarrow> bytes" where
  "v4_octets a = to_be 4 a"

definition v4_is_loopback :: "ipv4 \<Rightarrow> bool" where
  "v4_is_loopback a \<longleftrightarrow> v4_octets a ! 0 = 127"

definition v4_is_private :: "ipv4 \<Rightarrow> bool" where
  "v4_is_private a \<longleftrightarrow>
     (let o0 = v4_octets a ! 0; o1 = v4_octets a ! 1 in
      o0 = 10 \<or> (o0 = 172 \<and> 16 \<le> o1 \<and> o1 \<le> 31) \<or> (o0 = 192 \<and> o1 = 168))"

definition v6_is_loopback :: "ipv6 \<Rightarrow> bool" where
  "v6_is_loopback a \<longleftrightarrow> a = 1"

definition v6_is_unicast_link_local :: "ipv6 \<Rightarrow> bool" where
  "v6_is_unicast_link_local a \<longleftrightarrow> drop_bit 112 a AND 0xFFC0 = 0xFE80"

fun same_ip4 :: "socket_addr \<Rightarrow> socket_addr \<Rightarrow> bool" where
  "same_ip4 (V4 x _) (V4 y _) = (x = y)"
| "same_ip4 _ _ = False"

fun remote_public :: "socket_addr \<Rightarrow> bool" where
  "remote_public (V4 v4 _) = (\<not> v4_is_loopback v4 \<and> \<not> v4_is_private v4)"
| "remote_public (V6 v6 _ _ _) = (\<not> v6_is_loopback v6 \<and> \<not> v6_is_unicast_link_local v6)"

text \<open>The octets as arithmetic on the address value, so that ranges of addresses compare.\<close>

lemma v4_octet_0: "v4_octets a ! 0 = ucast (drop_bit 24 a)"
  by (simp add: v4_octets_def numeral_eq_Suc)

lemma v4_octet_1: "v4_octets a ! 1 = ucast (drop_bit 16 a)"
  by (simp add: v4_octets_def numeral_eq_Suc)

end
