(* ===== verification/Link.thy ===== *)
theory Link
  imports Address
begin

text \<open>
  The operating system's UDP socket, and the interface between the components that send
  datagrams and whatever carries them. The socket is code the sources only call: its
  \<open>accepts\<close> says whether \<open>send_to\<close> returns \<open>Ok\<close> for a datagram, \<open>wire\<close> logs the datagrams it
  took, in order.
\<close>

type_synonym datagram = "bytes \<times> socket_addr"

record udp_socket =
  accepts :: "datagram \<Rightarrow> bool"
  wire :: "datagram list"

definition send_to :: "udp_socket \<Rightarrow> bytes \<Rightarrow> socket_addr \<Rightarrow> bool \<times> udp_socket" where
  "send_to sock bs dst =
     (if accepts sock (bs, dst) then (True, sock\<lparr>wire := wire sock @ [(bs, dst)]\<rparr>)
      else (False, sock))"

text \<open>
  What a sender relies on: a datagram handed to the carrier may be lost, delayed, doubled or
  reordered, but nothing else ever reaches the wire (\<open>known\<close> are the datagrams on the wire
  or still inside the carrier), and the wire only grows.
\<close>

locale datagram_carrier =
  fixes send :: "bytes \<Rightarrow> socket_addr \<Rightarrow> instant \<Rightarrow> 'n \<Rightarrow> 'n"
    and flush :: "instant \<Rightarrow> 'n \<Rightarrow> 'n"
    and on_wire :: "'n \<Rightarrow> datagram set"
    and known :: "'n \<Rightarrow> datagram set"
  assumes wire_known: "on_wire n \<subseteq> known n"
    and send_known: "known (send bs dst now n) \<subseteq> insert (bs, dst) (known n)"
    and send_wire: "on_wire n \<subseteq> on_wire (send bs dst now n)"
    and flush_known: "known (flush now n) \<subseteq> known n"
    and flush_wire: "on_wire n \<subseteq> on_wire (flush now n)"
begin

definition send_all :: "datagram list \<Rightarrow> instant \<Rightarrow> 'n \<Rightarrow> 'n" where
  "send_all ds now n = fold (\<lambda>(bs, dst). send bs dst now) ds n"

lemma send_all_known: "known (send_all ds now n) \<subseteq> set ds \<union> known n"
proof (induction ds arbitrary: n)
  case Nil
  then show ?case by (simp add: send_all_def)
next
  case (Cons d ds)
  obtain bs dst where d: "d = (bs, dst)" by (cases d)
  have "known (send_all (d # ds) now n) = known (send_all ds now (send bs dst now n))"
    by (simp add: send_all_def d)
  with Cons.IH [of "send bs dst now n"] send_known [of bs dst now n] show ?case
    by (auto simp: d)
qed

lemma send_all_invariant:
  assumes "\<And>d. d \<in> known n \<Longrightarrow> P d" and "\<And>d. d \<in> set ds \<Longrightarrow> P d"
    and "d \<in> known (send_all ds now n)"
  shows "P d"
  using assms send_all_known by blast

lemma send_invariant:
  assumes "\<And>d. d \<in> known n \<Longrightarrow> P d" and "P (bs, dst)" and "d \<in> known (send bs dst now n)"
  shows "P d"
  using assms send_known by blast

lemma flush_invariant:
  assumes "\<And>d. d \<in> known n \<Longrightarrow> P d" and "d \<in> known (flush now n)"
  shows "P d"
  using assms flush_known by blast

lemma wire_invariant:
  assumes "\<And>d. d \<in> known n \<Longrightarrow> P d" and "d \<in> on_wire n"
  shows "P d"
  using assms wire_known by blast

end

end
