(* ===== verification/Fault.thy ===== *)
theory Fault
  imports Text Link
begin

text \<open>
  The fault injector of the outgoing path, \<open>src/src/fault.rs\<close>: the SplitMix64 generator, the
  drop, duplicate, delay, reorder and burst stages, and the release of delayed datagrams.
  The functions take the injector and the socket and return both.
\<close>

section \<open>The generator\<close>

type_synonym rng = u64

text \<open>
  \<open>since_epoch\<close> is the wall clock in nanoseconds, \<open>None\<close> where it reads before the epoch.
\<close>

definition rng_new :: "u64 \<Rightarrow> nat option \<Rightarrow> rng" where
  "rng_new seed since_epoch =
     (if seed = 0 then (case since_epoch of Some n \<Rightarrow> of_nat n | None \<Rightarrow> 1) else seed)"

definition rng_mix :: "u64 \<Rightarrow> u64" where
  "rng_mix s =
     (let z = (s XOR drop_bit 30 s) * 0xBF58476D1CE4E5B9;
          z = (z XOR drop_bit 27 z) * 0x94D049BB133111EB in
      z XOR drop_bit 31 z)"

definition rng_next :: "rng \<Rightarrow> u64 \<times> rng" where
  "rng_next r = (let s = r + 0x9E3779B97F4A7C15 in (rng_mix s, s))"

definition rng_roll :: "u32 \<Rightarrow> rng \<Rightarrow> bool \<times> rng" where
  "rng_roll pct r =
     (if pct \<ge> 100 then (True, r)
      else if pct = 0 then (False, r)
      else case rng_next r of (x, r') \<Rightarrow> (x mod 100 < ucast pct, r'))"

section \<open>The injector\<close>

text \<open>The two counters are numbers without a bound; no run makes the \<open>u64\<close> ones wrap.\<close>

record fault_injector =
  rng :: rng
  started :: instant
  drop_pct :: u32
  dup_pct :: u32
  reorder_pct :: u32
  delay_ms :: u64
  burst_every_ms :: u64
  burst_dur_ms :: u64
  held :: "(instant \<times> bytes \<times> socket_addr) option"
  delayed :: "(instant \<times> bytes \<times> socket_addr) list"
  dropped :: nat
  emitted :: nat

definition HOLD_MAX :: duration where
  "HOLD_MAX = from_millis 50"

definition env_u64 :: "(string \<Rightarrow> string option) \<Rightarrow> string \<Rightarrow> u64 \<Rightarrow> u64" where
  "env_u64 env name dflt =
     (case env name of
        None \<Rightarrow> dflt
      | Some v \<Rightarrow> (case parse_u64 v of None \<Rightarrow> dflt | Some n \<Rightarrow> n))"

definition fault_from_env ::
    "(string \<Rightarrow> string option) \<Rightarrow> nat option \<Rightarrow> instant \<Rightarrow> fault_injector" where
  "fault_from_env env since_epoch now =
     (let seed = env_u64 env ''QSTREAM_FAULT_SEED'' 0 in
      \<lparr>rng = rng_new seed since_epoch,
       started = now,
       drop_pct = ucast (env_u64 env ''QSTREAM_FAULT_DROP_PCT'' 0),
       dup_pct = ucast (env_u64 env ''QSTREAM_FAULT_DUP_PCT'' 0),
       reorder_pct = ucast (env_u64 env ''QSTREAM_FAULT_REORDER_PCT'' 0),
       delay_ms = env_u64 env ''QSTREAM_FAULT_DELAY_MS'' 0,
       burst_every_ms = env_u64 env ''QSTREAM_FAULT_BURST_EVERY_MS'' 0,
       burst_dur_ms = env_u64 env ''QSTREAM_FAULT_BURST_DUR_MS'' 0,
       held = None,
       delayed = [],
       dropped = 0,
       emitted = 0\<rparr>)"

definition fault_enabled :: "fault_injector \<Rightarrow> bool" where
  "fault_enabled f \<longleftrightarrow>
     drop_pct f > 0 \<or> dup_pct f > 0 \<or> reorder_pct f > 0 \<or> delay_ms f > 0 \<or> burst_every_ms f > 0"

definition in_burst :: "fault_injector \<Rightarrow> instant \<Rightarrow> bool" where
  "in_burst f now =
     (if burst_every_ms f = 0 then False
      else let el = of_nat (as_millis (duration_since now (started f))) :: u64 in
        el mod burst_every_ms f < burst_dur_ms f)"

type_synonym net = "fault_injector \<times> udp_socket"

text \<open>\<open>if socket.send_to(\<dots>).is_ok() { self.stats.emitted += 1 }\<close>\<close>

definition emit :: "bytes \<Rightarrow> socket_addr \<Rightarrow> net \<Rightarrow> net" where
  "emit bs dst n =
     (case n of (f, sock) \<Rightarrow>
        (case send_to sock bs dst of
           (True, sock') \<Rightarrow> (f\<lparr>emitted := emitted f + 1\<rparr>, sock')
         | (False, sock') \<Rightarrow> (f, sock')))"

text \<open>\<open>c && self.rng.roll(pct)\<close> where \<open>c\<close> is \<open>pct > 0\<close>: no draw when the stage is off.\<close>

definition stage_roll :: "u32 \<Rightarrow> fault_injector \<Rightarrow> bool \<times> fault_injector" where
  "stage_roll pct f =
     (if pct > 0 then (case rng_roll pct (rng f) of (b, r) \<Rightarrow> (b, f\<lparr>rng := r\<rparr>)) else (False, f))"

definition pipeline_copy :: "bytes \<Rightarrow> socket_addr \<Rightarrow> instant \<Rightarrow> net \<Rightarrow> net" where
  "pipeline_copy bs dst now n =
     (case n of (f, sock) \<Rightarrow>
        (case stage_roll (drop_pct f) f of
           (True, f) \<Rightarrow> (f\<lparr>dropped := dropped f + 1\<rparr>, sock)
         | (False, f) \<Rightarrow>
             if delay_ms f > 0
             then (f\<lparr>delayed := delayed f @ [(now + from_millis (unat (delay_ms f)), bs, dst)]\<rparr>, sock)
             else emit bs dst (f, sock)))"

definition pipeline :: "bytes \<Rightarrow> socket_addr \<Rightarrow> instant \<Rightarrow> net \<Rightarrow> net" where
  "pipeline bs dst now n =
     (case n of (f, sock) \<Rightarrow>
        (case stage_roll (dup_pct f) f of
           (dup, f) \<Rightarrow> (pipeline_copy bs dst now ^^ (if dup then 2 else 1)) (f, sock)))"

definition fault_send :: "bytes \<Rightarrow> socket_addr \<Rightarrow> instant \<Rightarrow> net \<Rightarrow> net" where
  "fault_send bs dst now n =
     (case n of (f, sock) \<Rightarrow>
        if in_burst f now then (f\<lparr>dropped := dropped f + 1\<rparr>, sock)
        else if reorder_pct f > 0 then
          (case held f of
             Some (_, held_bytes, held_dst) \<Rightarrow>
               pipeline held_bytes held_dst now (pipeline bs dst now (f\<lparr>held := None\<rparr>, sock))
           | None \<Rightarrow>
               (case rng_roll (reorder_pct f) (rng f) of
                  (True, r) \<Rightarrow> (f\<lparr>rng := r, held := Some (now, bs, dst)\<rparr>, sock)
                | (False, r) \<Rightarrow> pipeline bs dst now (f\<lparr>rng := r\<rparr>, sock)))
        else pipeline bs dst now (f, sock))"

fun drain_queue ::
    "instant \<Rightarrow> (instant \<times> bytes \<times> socket_addr) list \<Rightarrow> net
      \<Rightarrow> (instant \<times> bytes \<times> socket_addr) list \<times> net" where
  "drain_queue now [] n = ([], n)"
| "drain_queue now ((t, bs, dst) # q) n =
     (if t > now then ((t, bs, dst) # q, n) else drain_queue now q (emit bs dst n))"

definition fault_drain :: "instant \<Rightarrow> net \<Rightarrow> net" where
  "fault_drain now n =
     (case n of (f, sock) \<Rightarrow>
        (case drain_queue now (delayed f) (f, sock) of (q, f, sock) \<Rightarrow>
           let f = f\<lparr>delayed := q\<rparr> in
           (case held f of
              None \<Rightarrow> (f, sock)
            | Some (held_at, bs, dst) \<Rightarrow>
                if duration_since now held_at \<ge> HOLD_MAX
                then emit bs dst (f\<lparr>held := None\<rparr>, sock)
                else (f, sock))))"

definition fault_next_deadline :: "fault_injector \<Rightarrow> instant \<Rightarrow> instant option" where
  "fault_next_deadline f now =
     (let d = (case delayed f of
                 (t, _, _) # _ \<Rightarrow> Some t
               | [] \<Rightarrow> map_option (\<lambda>(t, _, _). t + HOLD_MAX) (held f)) in
      map_option (\<lambda>t. if t > now then t else now + from_nanos 1) d)"

section \<open>The generator never repeats within its period\<close>

text \<open>
  Each stage of the output function is a bijection: a right shift by at least 21 bits xored
  into the word is undone by repeating it, and the multipliers are odd, so they have
  inverses modulo \<open>2 ^ 64\<close>.
\<close>

lemma xorshift_inj:
  assumes "22 \<le> k"
    and "x XOR drop_bit k x = y XOR drop_bit k y"
  shows "x = (y :: u64)"
proof -
  have undo: "(z XOR drop_bit k z) XOR drop_bit k (z XOR drop_bit k z)
                XOR drop_bit (2 * k) (z XOR drop_bit k z) = z" for z :: u64
  proof (rule bit_word_eqI)
    fix n assume "n < LENGTH(64)"
    have "\<not> bit z (3 * k + n)"
      using assms(1) bit_imp_le_length [of z "3 * k + n"] by auto
    then have off: "bit z (3 * k + n) = False" by simp
    have e: "k + (k + n) = 2 * k + n" "k + (2 * k + n) = 3 * k + n" "2 * k + (k + n) = 3 * k + n"
      by simp_all
    show "bit ((z XOR drop_bit k z) XOR drop_bit k (z XOR drop_bit k z)
                XOR drop_bit (2 * k) (z XOR drop_bit k z)) n \<longleftrightarrow> bit z n"
      unfolding bit_xor_iff bit_drop_bit_eq comp_def e off
      by (cases "bit z n"; cases "bit z (k + n)"; cases "bit z (2 * k + n)") simp_all
  qed
  show ?thesis using undo [of x] undo [of y] assms(2) by simp
qed

lemma mult_inj:
  assumes "c * c' = (1 :: u64)" and "x * c = y * c"
  shows "x = y"
proof -
  have "x * c * c' = y * c * c'" using assms(2) by simp
  then show ?thesis by (simp add: assms(1) mult.assoc)
qed

lemma rng_mix_inj: "rng_mix x = rng_mix y \<longleftrightarrow> x = y"
proof
  define a where "a z = z XOR drop_bit 30 z" for z :: u64
  define b where "b z = a z * 0xBF58476D1CE4E5B9 XOR drop_bit 27 (a z * 0xBF58476D1CE4E5B9)"
    for z :: u64
  assume "rng_mix x = rng_mix y"
  then have "b x * 0x94D049BB133111EB XOR drop_bit 31 (b x * 0x94D049BB133111EB)
           = b y * 0x94D049BB133111EB XOR drop_bit 31 (b y * 0x94D049BB133111EB)"
    by (simp only: rng_mix_def Let_def a_def b_def)
  then have "b x * 0x94D049BB133111EB = b y * 0x94D049BB133111EB"
    by (rule xorshift_inj [rotated]) simp
  then have "b x = b y"
    by (rule mult_inj [of _ "0x319642B2D24D8EC3", rotated]) simp
  then have "a x * 0xBF58476D1CE4E5B9 = a y * 0xBF58476D1CE4E5B9"
    unfolding b_def by (rule xorshift_inj [rotated]) simp
  then have "a x = a y"
    by (rule mult_inj [of _ "0x96DE1B173F119089", rotated]) simp
  then show "x = y"
    unfolding a_def by (rule xorshift_inj [rotated]) simp
qed simp

text \<open>The \<open>n\<close>-th draw from a state.\<close>

fun rng_draw :: "nat \<Rightarrow> rng \<Rightarrow> u64" where
  "rng_draw 0 r = fst (rng_next r)"
| "rng_draw (Suc n) r = rng_draw n (snd (rng_next r))"

lemma rng_draw_mix: "rng_draw n r = rng_mix (r + of_nat (Suc n) * 0x9E3779B97F4A7C15)"
  by (induction n arbitrary: r) (simp_all add: rng_next_def Let_def algebra_simps)

section \<open>The injector as a carrier of datagrams\<close>

definition net_wire :: "net \<Rightarrow> datagram set" where
  "net_wire n = set (wire (snd n))"

definition net_known :: "net \<Rightarrow> datagram set" where
  "net_known n = set (wire (snd n)) \<union> snd ` set (delayed (fst n)) \<union> snd ` set_option (held (fst n))"

text \<open>
  \<open>carries D n n'\<close>: going from \<open>n\<close> to \<open>n'\<close> puts nothing but the datagrams \<open>D\<close> into the
  carrier and takes nothing off the wire.
\<close>

definition carries :: "datagram set \<Rightarrow> net \<Rightarrow> net \<Rightarrow> bool" where
  "carries D n n' \<longleftrightarrow> net_known n' \<subseteq> D \<union> net_known n \<and> net_wire n \<subseteq> net_wire n'"

lemma carries_refl [intro]: "carries D n n"
  by (auto simp: carries_def)

lemma carries_trans: "carries D n n' \<Longrightarrow> carries D n' n'' \<Longrightarrow> carries D n n''"
  by (auto simp: carries_def)

lemma carries_mono: "carries D n n' \<Longrightarrow> D \<subseteq> D' \<union> net_known n \<Longrightarrow> carries D' n n'"
  by (auto simp: carries_def)

lemma carries_rng: "carries D (f\<lparr>rng := r\<rparr>, sock) n' \<longleftrightarrow> carries D (f, sock) n'"
  by (simp add: carries_def net_known_def net_wire_def)

lemma stage_roll_cases:
  obtains b r where "stage_roll p f = (b, f\<lparr>rng := r\<rparr>)" and "p = 0 \<Longrightarrow> \<not> b \<and> r = rng f"
proof (cases "rng_roll p (rng f)")
  case (Pair b r)
  then have "stage_roll p f = (if 0 < p then b else False, f\<lparr>rng := if 0 < p then r else rng f\<rparr>)"
    by (simp add: stage_roll_def)
  then show thesis by (rule that) simp
qed

lemma stage_roll_0 [simp]: "stage_roll 0 f = (False, f)"
  by (simp add: stage_roll_def)

lemma emit_carries: "carries {(bs, dst)} n (emit bs dst n)"
  by (auto simp: carries_def emit_def send_to_def net_known_def net_wire_def split: prod.splits)

lemma pipeline_copy_carries: "carries {(bs, dst)} n (pipeline_copy bs dst now n)"
proof -
  obtain f sock where n: "n = (f, sock)" by (cases n)
  obtain b r where s: "stage_roll (drop_pct f) f = (b, f\<lparr>rng := r\<rparr>)"
    by (rule stage_roll_cases)
  have "carries {(bs, dst)} (f\<lparr>rng := r\<rparr>, sock) (pipeline_copy bs dst now n)"
    using emit_carries [of bs dst "(f\<lparr>rng := r\<rparr>, sock)"]
    by (cases b) (auto simp: pipeline_copy_def n s carries_def net_known_def net_wire_def)
  then show ?thesis by (simp add: carries_rng n)
qed

lemma pipeline_carries: "carries {(bs, dst)} n (pipeline bs dst now n)"
proof -
  obtain f sock where n: "n = (f, sock)" by (cases n)
  obtain b r where s: "stage_roll (dup_pct f) f = (b, f\<lparr>rng := r\<rparr>)"
    by (rule stage_roll_cases)
  let ?copy = "pipeline_copy bs dst now"
  have "carries {(bs, dst)} (f\<lparr>rng := r\<rparr>, sock) (?copy (?copy (f\<lparr>rng := r\<rparr>, sock)))"
    by (rule carries_trans; rule pipeline_copy_carries)
  then have "carries {(bs, dst)} (f\<lparr>rng := r\<rparr>, sock) (pipeline bs dst now n)"
    using pipeline_copy_carries [of bs dst "(f\<lparr>rng := r\<rparr>, sock)" now]
    by (cases b) (auto simp: pipeline_def n s numeral_2_eq_2)
  then show ?thesis by (simp add: carries_rng n)
qed

lemma fault_send_carries: "carries {(bs, dst)} n (fault_send bs dst now n)"
proof -
  obtain f sock where n: "n = (f, sock)" by (cases n)
  show ?thesis
  proof (cases "held f")
    case None
    obtain b r where r: "rng_roll (reorder_pct f) (rng f) = (b, r)"
      by (cases "rng_roll (reorder_pct f) (rng f)")
    have "carries {(bs, dst)} (f, sock) (pipeline bs dst now (f\<lparr>rng := r\<rparr>, sock))"
      using pipeline_carries [of bs dst "(f\<lparr>rng := r\<rparr>, sock)"] by (simp add: carries_rng)
    moreover have "carries {(bs, dst)} (f, sock) (f\<lparr>rng := r, held := Some (now, bs, dst)\<rparr>, sock)"
      "carries {(bs, dst)} (f, sock) (f\<lparr>dropped := dropped f + 1\<rparr>, sock)"
      by (auto simp: carries_def net_known_def net_wire_def)
    ultimately show ?thesis
      using pipeline_carries [of bs dst "(f, sock)"]
      by (cases b) (simp_all add: fault_send_def n None r)
  next
    case (Some h)
    obtain t hb hd where h: "h = (t, hb, hd)" by (cases h)
    let ?n = "(f\<lparr>held := None\<rparr>, sock)"
    have "carries {(bs, dst), (hb, hd)} ?n (pipeline hb hd now (pipeline bs dst now ?n))"
      by (rule carries_trans; rule carries_mono, rule pipeline_carries) auto
    then have "carries {(bs, dst), (hb, hd)} n (pipeline hb hd now (pipeline bs dst now ?n))"
      by (auto simp: carries_def n net_known_def net_wire_def)
    then have "carries {(bs, dst)} n (pipeline hb hd now (pipeline bs dst now ?n))"
      by (rule carries_mono) (simp add: n net_known_def Some h)
    moreover have "carries {(bs, dst)} n (f\<lparr>dropped := dropped f + 1\<rparr>, sock)"
      by (auto simp: carries_def n net_known_def net_wire_def)
    ultimately show ?thesis
      using pipeline_carries [of bs dst n now] by (simp add: fault_send_def n Some h)
  qed
qed

lemma drain_queue_carries:
  "carries (snd ` set q) n (snd (drain_queue now q n)) \<and> set (fst (drain_queue now q n)) \<subseteq> set q"
proof (induction now q n rule: drain_queue.induct)
  case (2 now t bs dst q n)
  have "carries (snd ` set ((t, bs, dst) # q)) n (emit bs dst n)"
    by (rule carries_mono [OF emit_carries]) auto
  moreover have "\<not> t > now \<Longrightarrow>
      carries (snd ` set ((t, bs, dst) # q)) (emit bs dst n) (snd (drain_queue now q (emit bs dst n)))"
    using 2 by (auto intro: carries_mono)
  ultimately show ?case
    using 2 by (auto intro: carries_trans)
qed auto

lemma drain_queue_frame:
  "drain_queue now q (f, sock) = (q', f', sock') \<Longrightarrow>
   f' = f\<lparr>emitted := emitted f'\<rparr> \<and> accepts sock' = accepts sock"
proof (induction now q "(f, sock)" arbitrary: f sock rule: drain_queue.induct)
  case (2 now t bs dst q f sock)
  then show ?case
    by (cases "accepts sock (bs, dst)") (force simp: emit_def send_to_def split: if_splits)+
qed simp

lemma fault_drain_carries: "carries {} n (fault_drain now n)"
proof -
  obtain f sock where n: "n = (f, sock)" by (cases n)
  obtain q f' sock' where d: "drain_queue now (delayed f) (f, sock) = (q, f', sock')"
    by (cases "drain_queue now (delayed f) (f, sock)") auto
  from drain_queue_frame [OF d] have h': "held f' = held f" and d': "delayed f' = delayed f"
    by (metis fault_injector.select_convs(9) fault_injector.surjective fault_injector.update_convs(12)
        , metis fault_injector.select_convs(10) fault_injector.surjective fault_injector.update_convs(12))
  let ?n = "(f'\<lparr>delayed := q\<rparr>, sock')"
  have step: "carries {} n ?n"
    using drain_queue_carries [of "delayed f" "(f, sock)" now] h' d'
    by (auto simp: d n carries_def net_known_def net_wire_def)
  show ?thesis
  proof (cases "held f")
    case None
    with step show ?thesis by (simp add: fault_drain_def n d h')
  next
    case (Some h)
    obtain t hb hd where h: "h = (t, hb, hd)" by (cases h)
    let ?m = "(f'\<lparr>delayed := q, held := None\<rparr>, sock')"
    have "carries {} ?n (emit hb hd ?m)"
      using emit_carries [of hb hd ?m]
      by (auto simp: carries_def net_known_def net_wire_def h' Some h)
    with step have "carries {} n (emit hb hd ?m)" by (rule carries_trans)
    with step show ?thesis by (simp add: fault_drain_def n d h' Some h Let_def)
  qed
qed

interpretation injector: datagram_carrier fault_send fault_drain net_wire net_known
  using fault_send_carries fault_drain_carries
  by unfold_locales (auto simp: carries_def net_wire_def net_known_def)

section \<open>A socket that takes everything\<close>

definition accepting :: "udp_socket \<Rightarrow> bool" where
  "accepting sock \<longleftrightarrow> accepts sock = (\<lambda>_. True)"

lemma emit_accepting:
  "accepting sock \<Longrightarrow>
   emit bs dst (f, sock) = (f\<lparr>emitted := emitted f + 1\<rparr>, sock\<lparr>wire := wire sock @ [(bs, dst)]\<rparr>)"
  by (simp add: emit_def send_to_def accepting_def)

lemma accepting_wire [simp]: "accepting (sock\<lparr>wire := w\<rparr>) = accepting sock"
  by (simp add: accepting_def)

section \<open>Properties of the generator and of each stage\<close>

text \<open>From any seed the generator draws \<open>2 ^ 64\<close> pairwise different outputs before it
  repeats one.\<close>

theorem rng_period: "inj_on (\<lambda>n. rng_draw n r) {..<2 ^ 64}"
proof (rule inj_onI)
  fix i j :: nat
  assume ij: "i \<in> {..<2 ^ 64}" "j \<in> {..<2 ^ 64}" and eq: "rng_draw i r = rng_draw j r"
  then have "of_nat (Suc i) * 0x9E3779B97F4A7C15 = (of_nat (Suc j) * 0x9E3779B97F4A7C15 :: u64)"
    by (simp only: rng_draw_mix rng_mix_inj add_left_cancel)
  then have "of_nat (Suc i) = (of_nat (Suc j) :: u64)"
    by (rule mult_inj [of _ "0xF1DE83E19937733D", rotated]) simp
  then have "of_nat i = (of_nat j :: u64)" by simp
  then have "unat (of_nat i :: u64) = unat (of_nat j :: u64)" by simp
  with ij show "i = j" by (simp add: unat_of_nat take_bit_eq_mod)
qed

text \<open>A link on which nothing happens to a datagram: no stage is on and nothing waits.\<close>

definition clean :: "net \<Rightarrow> bool" where
  "clean n \<longleftrightarrow> \<not> fault_enabled (fst n) \<and> held (fst n) = None \<and> delayed (fst n) = []
     \<and> accepting (snd n)"

lemma clean_send:
  "clean (f, sock) \<Longrightarrow> fault_send bs dst now (f, sock)
     = (f\<lparr>emitted := emitted f + 1\<rparr>, sock\<lparr>wire := wire sock @ [(bs, dst)]\<rparr>)"
  by (simp add: clean_def fault_enabled_def word_gt_0 fault_send_def in_burst_def pipeline_def
      stage_roll_def pipeline_copy_def emit_accepting)

lemma clean_emitted [simp]:
  "clean (f\<lparr>emitted := e\<rparr>, sock\<lparr>wire := w\<rparr>) = clean (f, sock)"
  by (simp add: clean_def fault_enabled_def)

lemma clean_send_all:
  "clean n \<Longrightarrow> clean (injector.send_all ds now n)
     \<and> wire (snd (injector.send_all ds now n)) = wire (snd n) @ ds"
proof (induction ds arbitrary: n)
  case Nil
  then show ?case by (simp add: injector.send_all_def)
next
  case (Cons d ds)
  obtain f sock where n: "n = (f, sock)" by (cases n)
  obtain bs dst where d: "d = (bs, dst)" by (cases d)
  have step: "injector.send_all (d # ds) now n
      = injector.send_all ds now (f\<lparr>emitted := emitted f + 1\<rparr>, sock\<lparr>wire := wire sock @ [(bs, dst)]\<rparr>)"
    using Cons.prems by (simp add: injector.send_all_def n d clean_send)
  show ?case
    using Cons.IH [of "(f\<lparr>emitted := emitted f + 1\<rparr>, sock\<lparr>wire := wire sock @ [(bs, dst)]\<rparr>)"] Cons.prems
    by (simp add: step) (simp add: n d)
qed

text \<open>With no fault configured the injector is invisible: a datagram goes straight to the
  socket, in order, nothing is kept back, and draining does nothing.\<close>

theorem fault_disabled_transparent:
  assumes "\<not> fault_enabled f" and "held f = None" and "delayed f = []" and "accepting sock"
  shows "fault_send bs dst now (f, sock)
           = (f\<lparr>emitted := emitted f + 1\<rparr>, sock\<lparr>wire := wire sock @ [(bs, dst)]\<rparr>)
         \<and> fault_drain now (f, sock) = (f, sock) \<and> fault_next_deadline f now = None"
proof -
  have "clean (f, sock)" using assms by (simp add: clean_def)
  from clean_send [OF this] show ?thesis
    using assms(2,3) by (simp add: fault_drain_def fault_next_deadline_def Let_def)
qed

text \<open>A fresh node with no fault configured and a socket that takes everything.\<close>

definition demo_net :: net where
  "demo_net = (fault_from_env (\<lambda>_. None) None 0, \<lparr>accepts = \<lambda>_. True, wire = []\<rparr>)"

lemma env_u64_none [simp]: "env name = None \<Longrightarrow> env_u64 env name d = d"
  by (simp add: env_u64_def)

theorem fault_disabled_transparent_witness:
  "fault_send [1] (V4 1 2) 7
     (fault_from_env (\<lambda>_. None) None 5, \<lparr>accepts = \<lambda>_. True, wire = []\<rparr>)
   = ((fault_from_env (\<lambda>_. None) None 5)\<lparr>emitted := 1\<rparr>,
      \<lparr>accepts = \<lambda>_. True, wire = [([1], V4 1 2)]\<rparr>)"
  using fault_disabled_transparent
    [of "fault_from_env (\<lambda>_. None) None 5" "\<lparr>accepts = \<lambda>_. True, wire = []\<rparr>" "[1]" "V4 1 2" 7]
  by (simp add: fault_from_env_def fault_enabled_def accepting_def)

text \<open>
  A link with a fixed delay only, and its specification: each datagram is due a fixed time
  after it was sent.
\<close>

definition delay_only :: "fault_injector \<Rightarrow> bool" where
  "delay_only f \<longleftrightarrow> drop_pct f = 0 \<and> dup_pct f = 0 \<and> reorder_pct f = 0 \<and> burst_every_ms f = 0
     \<and> 0 < delay_ms f \<and> held f = None"

definition send_timed :: "(instant \<times> datagram) list \<Rightarrow> net \<Rightarrow> net" where
  "send_timed ds n = fold (\<lambda>(t, bs, dst). fault_send bs dst t) ds n"

definition shifted :: "fault_injector \<Rightarrow> (instant \<times> datagram) list \<Rightarrow> (instant \<times> datagram) list" where
  "shifted f ds = map (\<lambda>(t, d). (t + from_millis (unat (delay_ms f)), d)) ds"

lemma send_delayed:
  "delay_only f \<Longrightarrow>
   fault_send bs dst t (f, sock)
   = (f\<lparr>delayed := delayed f @ [(t + from_millis (unat (delay_ms f)), bs, dst)]\<rparr>, sock)"
  by (simp add: delay_only_def fault_send_def in_burst_def pipeline_def pipeline_copy_def)

lemma send_timed_delayed:
  "delay_only f \<Longrightarrow>
   send_timed ds (f, sock) = (f\<lparr>delayed := delayed f @ shifted f ds\<rparr>, sock)"
proof (induction ds arbitrary: f)
  case Nil
  then show ?case by (simp add: send_timed_def shifted_def)
next
  case (Cons d ds)
  obtain t bs dst where d: "d = (t, bs, dst)" by (cases d)
  let ?f = "f\<lparr>delayed := delayed f @ [(t + from_millis (unat (delay_ms f)), bs, dst)]\<rparr>"
  have "delay_only ?f" using Cons.prems by (simp add: delay_only_def)
  from Cons.IH [OF this] show ?case
    using send_delayed [OF Cons.prems, of bs dst t sock]
    by (simp add: send_timed_def shifted_def d)
qed

lemma drain_queue_sorted:
  assumes "accepting sock" and "sorted (map fst q)"
  shows "drain_queue now q (f, sock) =
    (filter (\<lambda>(t, _). t > now) q,
     f\<lparr>emitted := emitted f + length (filter (\<lambda>(t, _). t \<le> now) q)\<rparr>,
     sock\<lparr>wire := wire sock @ map snd (filter (\<lambda>(t, _). t \<le> now) q)\<rparr>)"
  using assms
proof (induction now q "(f, sock)" arbitrary: f sock rule: drain_queue.induct)
  case (2 now t bs dst q f sock)
  show ?case
  proof (cases "t > now")
    case True
    with 2(3) have "\<forall>x \<in> set q. fst x > now" by auto
    then have "filter (\<lambda>(t, _). now < t) q = q" "filter (\<lambda>(t, _). t \<le> now) q = []"
      by (auto simp: filter_empty_conv filter_id_conv)
    with True show ?thesis by simp
  next
    case False
    with 2 show ?thesis by (simp add: emit_accepting)
  qed
qed simp

text \<open>C37: A delay-only link is a first-in-first-out queue: datagrams sent at non-decreasing
  times leave, when the link is drained at \<open>now\<close>, exactly those due by then, in the order sent,
  and the others stay queued.\<close>

theorem delay_is_fifo:
  assumes "delay_only f" and "delayed f = []" and "accepting sock" and "sorted (map fst ds)"
  shows "fault_drain now (send_timed ds (f, sock)) =
    (let due = (\<lambda>(t, _). t \<le> now) in
     (f\<lparr>delayed := filter (Not \<circ> due) (shifted f ds),
        emitted := emitted f + length (filter due (shifted f ds))\<rparr>,
      sock\<lparr>wire := wire sock @ map snd (filter due (shifted f ds))\<rparr>))"
proof -
  have "sorted (map fst (shifted f ds))"
    using assms(4) by (induction ds) (auto simp: shifted_def)
  moreover have "filter (Not \<circ> (\<lambda>(t, _). t \<le> now)) q = filter (\<lambda>(t, _). now < t) q"
    for q :: "(instant \<times> datagram) list"
    by (rule filter_cong) auto
  ultimately show ?thesis
    using assms(1-3)
    by (simp add: send_timed_delayed fault_drain_def drain_queue_sorted delay_only_def Let_def)
qed

theorem delay_is_fifo_witness:
  "snd (fault_drain 2000000 (send_timed [(0, [1], V4 1 1), (1000000, [2], V4 1 1), (3000000, [3], V4 1 1)]
     ((fault_from_env (\<lambda>_. None) None 0)\<lparr>delay_ms := 1\<rparr>, \<lparr>accepts = \<lambda>_. True, wire = []\<rparr>)))
   = \<lparr>accepts = \<lambda>_. True, wire = [([1], V4 1 1), ([2], V4 1 1)]\<rparr>"
  using delay_is_fifo [of "(fault_from_env (\<lambda>_. None) None 0)\<lparr>delay_ms := 1\<rparr>"
      "\<lparr>accepts = \<lambda>_. True, wire = []\<rparr>"
      "[(0, [1], V4 1 1), (1000000, [2], V4 1 1), (3000000, [3], V4 1 1)]" 2000000]
  by (simp add: fault_from_env_def delay_only_def accepting_def shifted_def from_millis_def Let_def)

text \<open>A datagram held back for reordering leaves after the next one sent: with the reorder
  stage always on, two consecutive sends arrive swapped and nothing stays held.\<close>

theorem reorder_swaps:
  assumes "reorder_pct f \<ge> 100" and "drop_pct f = 0" and "dup_pct f = 0" and "delay_ms f = 0"
    and "\<not> in_burst f s" and "\<not> in_burst f t" and "held f = None" and "accepting sock"
  shows "fault_send b d' t (fault_send a d s (f, sock))
         = (f\<lparr>emitted := emitted f + 2\<rparr>, sock\<lparr>wire := wire sock @ [(b, d'), (a, d)]\<rparr>)"
proof -
  have r: "0 < reorder_pct f" "rng_roll (reorder_pct f) x = (True, x)" for x
    using assms(1) by (auto simp: rng_roll_def word_gt_0)
  let ?h = "f\<lparr>held := Some (s, a, d)\<rparr>"
  have one: "fault_send a d s (f, sock) = (?h, sock)"
    using r assms(5,7) by (simp add: fault_send_def)
  have "in_burst ?h t = in_burst f t" by (simp add: in_burst_def)
  with assms(6) have "\<not> in_burst ?h t" by simp
  then have "fault_send b d' t (?h, sock)
      = pipeline a d t (pipeline b d' t (?h\<lparr>held := None\<rparr>, sock))"
    using r by (simp add: fault_send_def)
  then show ?thesis
    using assms(2,3,4,7,8) by (simp add: one pipeline_def pipeline_copy_def emit_accepting)
qed

theorem reorder_swaps_witness:
  "wire (snd (fault_send [2] (V4 1 1) 9 (fault_send [1] (V4 1 1) 8
     ((fault_from_env (\<lambda>_. None) None 0)\<lparr>reorder_pct := 100\<rparr>, \<lparr>accepts = \<lambda>_. True, wire = []\<rparr>))))
   = [([2], V4 1 1), ([1], V4 1 1)]"
  using reorder_swaps [of "(fault_from_env (\<lambda>_. None) None 0)\<lparr>reorder_pct := 100\<rparr>" 8 9
      "\<lparr>accepts = \<lambda>_. True, wire = []\<rparr>" "[2]" "V4 1 1" "[1]" "V4 1 1"]
  by (simp add: fault_from_env_def in_burst_def accepting_def)

text \<open>A held datagram that times out skips every other stage: however large the drop,
  duplicate and delay settings, draining 50 ms after the hold hands it to the socket once.\<close>

theorem held_release_bypasses_stages:
  assumes "held f = Some (held_at, bs, dst)" and "delayed f = []" and "accepting sock"
    and "held_at + from_millis 50 \<le> now"
  shows "fault_drain now (f, sock)
         = (f\<lparr>held := None, emitted := emitted f + 1\<rparr>, sock\<lparr>wire := wire sock @ [(bs, dst)]\<rparr>)"
proof -
  have "f\<lparr>delayed := []\<rparr> = f" using assms(2) by simp
  then show ?thesis
    using assms
    by (simp add: fault_drain_def HOLD_MAX_def duration_since_def emit_accepting Let_def)
qed

theorem held_release_bypasses_stages_witness:
  "wire (snd (fault_drain 60000000
     ((fault_from_env (\<lambda>_. None) None 0)\<lparr>drop_pct := 100, held := Some (0, [7], V4 1 1)\<rparr>,
      \<lparr>accepts = \<lambda>_. True, wire = []\<rparr>))) = [([7], V4 1 1)]"
  using held_release_bypasses_stages
    [of "(fault_from_env (\<lambda>_. None) None 0)\<lparr>drop_pct := 100, held := Some (0, [7], V4 1 1)\<rparr>"
      0 "[7]" "V4 1 1" "\<lparr>accepts = \<lambda>_. True, wire = []\<rparr>" 60000000]
  by (simp add: fault_from_env_def accepting_def from_millis_def)

text \<open>The wake-up time the injector asks for is always in the future, there is one exactly
  when something is pending, and it is the front of the delay queue alone when that queue is not
  empty, even where the held datagram is due earlier.\<close>

theorem fault_deadline:
  "(fault_next_deadline f now = None \<longleftrightarrow> delayed f = [] \<and> held f = None)
   \<and> (\<forall>t. fault_next_deadline f now = Some t \<longrightarrow> now < t)
   \<and> (\<forall>t d q. delayed f = (t, d) # q \<longrightarrow> now < t \<longrightarrow> fault_next_deadline f now = Some t)"
  by (auto simp: fault_next_deadline_def Let_def from_nanos_def split: list.splits option.splits)

theorem fault_deadline_witness:
  "fault_next_deadline ((fault_from_env (\<lambda>_. None) None 0)
     \<lparr>delayed := [(9000000000, [1], V4 1 1)], held := Some (1, [7], V4 1 1)\<rparr>) 2 = Some 9000000000"
  using fault_deadline [of "(fault_from_env (\<lambda>_. None) None 0)
     \<lparr>delayed := [(9000000000, [1], V4 1 1)], held := Some (1, [7], V4 1 1)\<rparr>" 2]
  by simp

end
