(* ===== verification/Accounting.thy ===== *)
theory Accounting
  imports Fault "HOL-Library.Multiset"
begin

text \<open>
  The books of the fault injector (\<open>src/src/fault.rs\<close>): what is inside the link, as a multiset
  of datagrams, against what was handed in, and against its two counters.
\<close>

section \<open>Every datagram is accounted for\<close>

text \<open>
  The datagrams inside the link, with multiplicity: on the wire, waiting out their delay, or
  held back for reordering.
\<close>

definition waiting :: "fault_injector \<Rightarrow> datagram multiset" where
  "waiting f = (case held f of None \<Rightarrow> {#} | Some (_, d) \<Rightarrow> {#d#})"

definition in_link :: "net \<Rightarrow> datagram multiset" where
  "in_link n = mset (wire (snd n)) + mset (map snd (delayed (fst n))) + waiting (fst n)"

text \<open>
  \<open>puts D n n'\<close>: the datagrams \<open>D\<close> go in, of which those that are lost are counted as dropped;
  every datagram that comes out on the wire is counted as emitted.
\<close>

definition puts :: "datagram multiset \<Rightarrow> net \<Rightarrow> net \<Rightarrow> bool" where
  "puts D n n' \<longleftrightarrow>
     (\<exists>lost. lost \<subseteq># D \<and> in_link n' + lost = in_link n + D \<and> dropped (fst n') = dropped (fst n) + size lost)
     \<and> emitted (fst n') + length (wire (snd n)) = emitted (fst n) + length (wire (snd n'))
     \<and> accepting (snd n') \<and> dup_pct (fst n') = dup_pct (fst n) \<and> held (fst n') = held (fst n)"

lemma puts_trans:
  assumes "puts D n n'" and "puts E n' n''"
  shows "puts (D + E) n n''"
proof -
  obtain l k where l: "l \<subseteq># D" "in_link n' + l = in_link n + D" "dropped (fst n') = dropped (fst n) + size l"
    and k: "k \<subseteq># E" "in_link n'' + k = in_link n' + E" "dropped (fst n'') = dropped (fst n') + size k"
    using assms by (auto simp: puts_def)
  have "in_link n'' + (l + k) = in_link n' + l + E" using k(2) by (simp add: ac_simps)
  also have "\<dots> = in_link n + (D + E)" using l(2) by (simp add: ac_simps)
  finally have "in_link n'' + (l + k) = in_link n + (D + E)" .
  moreover have "l + k \<subseteq># D + E" using l(1) k(1) by (rule subset_mset.add_mono)
  ultimately show ?thesis
    using assms l(3) k(3) unfolding puts_def by (intro conjI exI [of _ "l + k"]) simp_all
qed

lemma puts_rng [simp]: "puts D (f\<lparr>rng := r\<rparr>, sock) n' \<longleftrightarrow> puts D (f, sock) n'"
  by (simp add: puts_def in_link_def waiting_def)

lemma pipeline_copy_puts:
  assumes "accepting sock"
  shows "puts {#(bs, dst)#} (f, sock) (pipeline_copy bs dst now (f, sock))"
proof -
  obtain b r where s: "stage_roll (drop_pct f) f = (b, f\<lparr>rng := r\<rparr>)"
    by (rule stage_roll_cases)
  show ?thesis
  proof (cases b)
    case True
    then show ?thesis
      using assms unfolding puts_def
      by (intro conjI exI [of _ "{#(bs, dst)#}"]) (simp_all add: pipeline_copy_def s in_link_def waiting_def)
  next
    case False
    then show ?thesis
      using assms unfolding puts_def
      by (intro conjI exI [of _ "{#}"])
        (simp_all add: pipeline_copy_def s in_link_def waiting_def emit_accepting)
  qed
qed

lemma pipeline_puts:
  assumes "accepting sock"
  shows "\<exists>extra. extra \<subseteq># {#(bs, dst)#} \<and> (dup_pct f = 0 \<longrightarrow> extra = {#})
    \<and> puts ({#(bs, dst)#} + extra) (f, sock) (pipeline bs dst now (f, sock))"
proof -
  obtain b r where s: "stage_roll (dup_pct f) f = (b, f\<lparr>rng := r\<rparr>)" "dup_pct f = 0 \<Longrightarrow> \<not> b"
    by (rule stage_roll_cases) blast
  obtain f1 s1 where one: "pipeline_copy bs dst now (f\<lparr>rng := r\<rparr>, sock) = (f1, s1)"
    by (cases "pipeline_copy bs dst now (f\<lparr>rng := r\<rparr>, sock)")
  have p: "puts {#(bs, dst)#} (f, sock) (f1, s1)"
    using pipeline_copy_puts [OF assms, of bs dst "f\<lparr>rng := r\<rparr>" now] by (simp add: one)
  show ?thesis
  proof (cases b)
    case True
    have "accepting s1" using p by (simp add: puts_def)
    then have "puts ({#(bs, dst)#} + {#(bs, dst)#}) (f, sock) (pipeline_copy bs dst now (f1, s1))"
      by (intro puts_trans [OF p] pipeline_copy_puts)
    with True s show ?thesis
      by (intro exI [of _ "{#(bs, dst)#}"]) (auto simp: pipeline_def numeral_2_eq_2 one)
  next
    case False
    with p s(1) show ?thesis by (intro exI [of _ "{#}"]) (simp add: pipeline_def one)
  qed
qed

lemma drain_queue_accounted:
  assumes "accepting sock" and "drain_queue now q (f, sock) = (q', f', sock')"
  shows "mset (wire sock') + mset (map snd q') = mset (wire sock) + mset (map snd q)
    \<and> emitted f' + length (wire sock) = emitted f + length (wire sock') \<and> accepting sock'"
  using assms
proof (induction now q "(f, sock)" arbitrary: f sock rule: drain_queue.induct)
  case (2 now t bs dst q f sock)
  show ?case
  proof (cases "t > now")
    case True
    with 2 show ?thesis by auto
  next
    case False
    with 2 show ?thesis by (fastforce simp: emit_accepting)
  qed
qed simp

lemma puts_alone:
  assumes "puts ({#d#} + extra) (f, sock) n'" and "extra \<subseteq># {#d#}" and "dup_pct f = 0 \<longrightarrow> extra = {#}"
  shows "\<exists>extra lost. in_link n' + lost = in_link (f, sock) + {#d#} + extra
        \<and> extra \<subseteq># {#d#} + waiting f \<and> (dup_pct f = 0 \<longrightarrow> extra = {#})
        \<and> lost \<subseteq># {#d#} + waiting f + extra
        \<and> dropped (fst n') = dropped f + size lost
        \<and> emitted (fst n') + length (wire sock) = emitted f + length (wire (snd n'))"
proof -
  obtain lost where l: "lost \<subseteq># {#d#} + extra" "in_link n' + lost = in_link (f, sock) + ({#d#} + extra)"
    "dropped (fst n') = dropped f + size lost" "emitted (fst n') + length (wire sock) = emitted f + length (wire (snd n'))"
    using assms(1) by (auto simp: puts_def)
  have "{#d#} \<subseteq># {#d#} + waiting f" by (rule mset_subset_eq_add_left)
  with assms(2) have "extra \<subseteq># {#d#} + waiting f" by (rule subset_mset.order_trans)
  moreover have "{#d#} + extra \<subseteq># {#d#} + waiting f + extra" by simp
  with l(1) have "lost \<subseteq># {#d#} + waiting f + extra" by (rule subset_mset.order_trans)
  ultimately show ?thesis using l(2,3,4) assms(3) by (intro exI [of _ extra] exI [of _ lost]) (simp add: ac_simps)
qed

lemma fault_send_accounted:
  assumes "accepting sock"
  shows "\<exists>extra lost. in_link (fault_send bs dst now (f, sock)) + lost = in_link (f, sock) + {#(bs, dst)#} + extra
        \<and> extra \<subseteq># {#(bs, dst)#} + waiting f \<and> (dup_pct f = 0 \<longrightarrow> extra = {#})
        \<and> lost \<subseteq># {#(bs, dst)#} + waiting f + extra
        \<and> dropped (fst (fault_send bs dst now (f, sock))) = dropped f + size lost
        \<and> emitted (fst (fault_send bs dst now (f, sock))) + length (wire sock)
            = emitted f + length (wire (snd (fault_send bs dst now (f, sock))))"
proof -
  let ?n = "fault_send bs dst now (f, sock)"
  consider (burst) "in_burst f now" | (plain) "\<not> in_burst f now" "reorder_pct f = 0"
    | (fresh) "\<not> in_burst f now" "0 < reorder_pct f" "held f = None"
    | (swap) h where "\<not> in_burst f now" "0 < reorder_pct f" "held f = Some h"
    by (metis not_None_eq word_gt_0)
  then show ?thesis
  proof cases
    case burst
    then have n: "?n = (f\<lparr>dropped := dropped f + 1\<rparr>, sock)" by (simp add: fault_send_def)
    show ?thesis unfolding n
      by (intro exI [of _ "{#}"] exI [of _ "{#(bs, dst)#}"]) (simp add: in_link_def waiting_def)
  next
    case plain
    then have n: "?n = pipeline bs dst now (f, sock)" by (simp add: fault_send_def)
    show ?thesis unfolding n using pipeline_puts [OF assms, of bs dst f now] puts_alone by blast
  next
    case fresh
    obtain b r where r: "rng_roll (reorder_pct f) (rng f) = (b, r)"
      by (cases "rng_roll (reorder_pct f) (rng f)")
    show ?thesis
    proof (cases b)
      case True
      with fresh r have n: "?n = (f\<lparr>rng := r, held := Some (now, bs, dst)\<rparr>, sock)" by (simp add: fault_send_def)
      show ?thesis unfolding n
        by (intro exI [of _ "{#}"] exI [of _ "{#}"]) (simp add: in_link_def waiting_def fresh)
    next
      case False
      with fresh r have n: "?n = pipeline bs dst now (f\<lparr>rng := r\<rparr>, sock)" by (simp add: fault_send_def)
      have "\<exists>extra. extra \<subseteq># {#(bs, dst)#} \<and> (dup_pct f = 0 \<longrightarrow> extra = {#}) \<and> puts ({#(bs, dst)#} + extra) (f, sock) ?n"
        using pipeline_puts [OF assms, of bs dst "f\<lparr>rng := r\<rparr>" now] unfolding n by simp
      then show ?thesis using puts_alone by blast
    qed
  next
    case swap
    obtain t hb hd where h: "h = (t, hb, hd)" by (cases h)
    let ?f = "f\<lparr>held := None\<rparr>"
    obtain f1 s1 where p1: "pipeline bs dst now (?f, sock) = (f1, s1)"
      by (cases "pipeline bs dst now (?f, sock)")
    with swap h have n: "?n = pipeline hb hd now (f1, s1)" by (simp add: fault_send_def)
    obtain e1 where e1: "e1 \<subseteq># {#(bs, dst)#}" "dup_pct f = 0 \<longrightarrow> e1 = {#}" "puts ({#(bs, dst)#} + e1) (?f, sock) (f1, s1)"
      using pipeline_puts [OF assms, of bs dst ?f now] p1 by auto
    then have "accepting s1" "dup_pct f1 = dup_pct f" by (simp_all add: puts_def)
    then obtain e2 where e2: "e2 \<subseteq># {#(hb, hd)#}" "dup_pct f = 0 \<longrightarrow> e2 = {#}" "puts ({#(hb, hd)#} + e2) (f1, s1) ?n"
      using pipeline_puts [of s1 hb hd f1 now] n by auto
    have w: "waiting f = {#(hb, hd)#}" "in_link (f, sock) = in_link (?f, sock) + {#(hb, hd)#}"
      by (simp_all add: in_link_def waiting_def swap h)
    obtain lost where l: "lost \<subseteq># {#(bs, dst)#} + e1 + ({#(hb, hd)#} + e2)"
      "in_link ?n + lost = in_link (?f, sock) + ({#(bs, dst)#} + e1 + ({#(hb, hd)#} + e2))"
      "dropped (fst ?n) = dropped f + size lost"
      "emitted (fst ?n) + length (wire sock) = emitted f + length (wire (snd ?n))"
      using puts_trans [OF e1(3) e2(3)] by (auto simp: puts_def)
    have "e1 + e2 \<subseteq># {#(bs, dst)#} + waiting f" unfolding w using e1(1) e2(1) by (rule subset_mset.add_mono)
    then show ?thesis
      using l e1(2) e2(2) by (intro exI [of _ "e1 + e2"] exI [of _ lost]) (simp add: w ac_simps)
  qed
qed

lemma fault_drain_accounted:
  assumes "accepting sock"
  shows "in_link (fault_drain now (f, sock)) = in_link (f, sock) \<and> dropped (fst (fault_drain now (f, sock))) = dropped f
    \<and> emitted (fst (fault_drain now (f, sock))) + length (wire sock)
        = emitted f + length (wire (snd (fault_drain now (f, sock))))"
proof -
  obtain q f' sock' where d: "drain_queue now (delayed f) (f, sock) = (q, f', sock')"
    by (cases "drain_queue now (delayed f) (f, sock)") auto
  from drain_queue_frame [OF d] obtain e where f': "f' = f\<lparr>emitted := e\<rparr>" by blast
  from drain_queue_accounted [OF assms d] f' show ?thesis
    by (auto simp: fault_drain_def d in_link_def waiting_def Let_def emit_accepting split: option.splits)
qed

text \<open>C21: With a socket that takes everything, no datagram gets lost unnoticed and none is made
  up, through bursts, drops, duplication, delays and reordering: what is in the link after a
  send, together with what the send lost, is what was in it, the new datagram and its extra
  copies. Only the new datagram and the one held back can be copied, none with duplication
  off, and only they and the copies can be lost; every loss is counted as dropped, and every
  datagram put on the wire as emitted. Draining the link keeps its contents and the losses
  as they are.\<close>

theorem fault_conserves:
  assumes "accepting sock"
  shows "(let n' = fault_send bs dst now (f, sock) in
      \<exists>extra lost. in_link n' + lost = in_link (f, sock) + {#(bs, dst)#} + extra
        \<and> extra \<subseteq># {#(bs, dst)#} + waiting f \<and> (dup_pct f = 0 \<longrightarrow> extra = {#})
        \<and> lost \<subseteq># {#(bs, dst)#} + waiting f + extra
        \<and> dropped (fst n') = dropped f + size lost
        \<and> emitted (fst n') + length (wire sock) = emitted f + length (wire (snd n')))
    \<and> (let n' = fault_drain now (f, sock) in
        in_link n' = in_link (f, sock) \<and> dropped (fst n') = dropped f
        \<and> emitted (fst n') + length (wire sock) = emitted f + length (wire (snd n')))"
  using fault_send_accounted [OF assms] fault_drain_accounted [OF assms] unfolding Let_def by blast

theorem fault_conserves_witness:
  "\<exists>lost. in_link (fault_send [1] (V4 1 1) 3
     ((fault_from_env (\<lambda>_. None) None 0)\<lparr>drop_pct := 30, delay_ms := 5\<rparr>, \<lparr>accepts = \<lambda>_. True, wire = []\<rparr>)) + lost
   = {#([1], V4 1 1)#}"
proof -
  have "accepting \<lparr>accepts = \<lambda>_. True, wire = []\<rparr>" by (simp add: accepting_def)
  from fault_conserves [OF this, of "[1]" "V4 1 1" 3 "(fault_from_env (\<lambda>_. None) None 0)\<lparr>drop_pct := 30, delay_ms := 5\<rparr>"]
  show ?thesis by (auto simp: Let_def fault_from_env_def in_link_def waiting_def)
qed

end
