(* ===== verification/Timers.thy ===== *)
theory Timers
  imports Fault
begin

text \<open>
  The tunables and adaptive timers of \<open>src/src/transfer.rs\<close>: the receiver's quiet period and
  the sender's acknowledgement timeout, both with exponential backoff. Millisecond settings
  are \<open>u64\<close>, as parsed from the environment; durations are nanoseconds, and a saturating
  multiplication is an exact one because the result is capped at eight seconds.
\<close>

record settings =
  pace_ms :: u64
  quiet_ms :: u64
  first_timeout_ms :: u64

definition settings_from_env :: "(string \<Rightarrow> string option) \<Rightarrow> settings" where
  "settings_from_env env =
     \<lparr>pace_ms = env_u64 env ''QSTREAM_PACING_MS'' 1,
      quiet_ms = env_u64 env ''QSTREAM_QUIET_MS'' 150,
      first_timeout_ms = env_u64 env ''QSTREAM_FIRST_TIMEOUT_MS'' 4000\<rparr>"

definition SEGMENT_PACKET_SIZE :: nat where
  "SEGMENT_PACKET_SIZE = 1400"

definition INITIAL_WINDOW :: u16 where
  "INITIAL_WINDOW = 5"

definition MAX_WINDOW :: u16 where
  "MAX_WINDOW = 64"

definition RETRY_LIMIT :: u32 where
  "RETRY_LIMIT = 8"

definition SENDER_RETRY_LIMIT :: u32 where
  "SENDER_RETRY_LIMIT = 30"

definition COMPLETE_GRACE :: duration where
  "COMPLETE_GRACE = from_millis 4000"

definition MAX_CONCURRENT_TRANSFERS :: nat where
  "MAX_CONCURRENT_TRANSFERS = 32"

lemmas transfer_consts =
  SEGMENT_PACKET_SIZE_def INITIAL_WINDOW_def MAX_WINDOW_def RETRY_LIMIT_def
  SENDER_RETRY_LIMIT_def COMPLETE_GRACE_def MAX_CONCURRENT_TRANSFERS_def

definition quiet_period :: "settings \<Rightarrow> duration" where
  "quiet_period st = from_millis (unat (quiet_ms st))"

definition adaptive_quiet :: "settings \<Rightarrow> duration \<Rightarrow> nat \<Rightarrow> duration" where
  "adaptive_quiet st gap_est backoff =
     (let base = max (quiet_period st) (gap_est * 3 + from_millis 50);
          mult = 2 ^ min backoff 4 in
      min (base * mult) (from_secs 8))"

definition ack_timeout :: "settings \<Rightarrow> u16 \<Rightarrow> duration \<Rightarrow> duration" where
  "ack_timeout st count rtt_est =
     (let base = max (ucast count * pace_ms st + quiet_ms st + 100) (300 :: u64) in
      max (from_millis (unat base)) (rtt_est * 2 + from_millis 150))"

definition retry_interval :: "settings \<Rightarrow> u16 \<Rightarrow> duration \<Rightarrow> nat \<Rightarrow> duration" where
  "retry_interval st count rtt_est retries =
     (let base = ack_timeout st count rtt_est;
          mult = 2 ^ min retries 4 in
      min (base * mult) (from_secs 8))"

section \<open>Wake-up times\<close>

text \<open>Times not before \<open>d\<close> and at least \<open>gap\<close> apart.\<close>

fun paced :: "duration \<Rightarrow> instant \<Rightarrow> instant list \<Rightarrow> bool" where
  "paced gap d [] = True"
| "paced gap d (t # ts) \<longleftrightarrow> d \<le> t \<and> paced gap (t + gap) ts"

lemma paced_le: "paced gap d ts \<Longrightarrow> d' \<le> d \<Longrightarrow> paced gap d' ts"
  by (cases ts) auto

section \<open>Bounds\<close>

text \<open>Within either retry limit the counter does not wrap.\<close>

lemma unat_retry_step:
  "unat (w :: u32) \<le> 30 \<Longrightarrow> unat (w + 1) = unat w + 1"
  by (subst unat_add_small) simp_all

lemma capped_backoff_bounds:
  fixes base lo cap :: nat
  assumes "lo \<le> base" and "lo \<le> cap"
  shows "lo \<le> min (base * 2 ^ min k 4) cap \<and> min (base * 2 ^ min k 4) cap \<le> cap"
proof -
  have "base \<le> base * 2 ^ min k 4" by simp
  with assms(1) have "lo \<le> base * 2 ^ min k 4" by (rule le_trans)
  with assms(2) show ?thesis by simp
qed

lemma capped_backoff_mono:
  fixes base :: nat
  shows "k \<le> l \<Longrightarrow> min (base * 2 ^ min k 4) cap \<le> min (base * 2 ^ min l 4) cap"
  by (intro min.mono mult_le_mono2 power_increasing) auto

lemma ack_timeout_ge: "from_millis 300 \<le> ack_timeout st count rtt_est"
proof -
  have "300 \<le> unat (max (ucast count * pace_ms st + quiet_ms st + 100) (300 :: u64))"
    by (simp only: unat_max) simp
  then show ?thesis by (simp add: ack_timeout_def from_millis_def Let_def)
qed

lemma adaptive_quiet_bounds:
  "from_millis 50 \<le> adaptive_quiet st gap k \<and> adaptive_quiet st gap k \<le> from_secs 8"
  unfolding adaptive_quiet_def Let_def
  by (rule capped_backoff_bounds) (simp_all add: from_millis_def from_secs_def)

lemma adaptive_quiet_mono: "k \<le> l \<Longrightarrow> adaptive_quiet st gap k \<le> adaptive_quiet st gap l"
  unfolding adaptive_quiet_def Let_def by (rule capped_backoff_mono)

lemma retry_interval_bounds:
  "from_millis 300 \<le> retry_interval st count rtt k \<and> retry_interval st count rtt k \<le> from_secs 8"
  unfolding retry_interval_def Let_def
  by (rule capped_backoff_bounds [OF ack_timeout_ge]) (simp add: from_millis_def from_secs_def)

lemma retry_interval_mono: "k \<le> l \<Longrightarrow> retry_interval st count rtt k \<le> retry_interval st count rtt l"
  unfolding retry_interval_def Let_def by (rule capped_backoff_mono)

lemma retry_interval_pos: "0 < retry_interval st count rtt k"
  using retry_interval_bounds [of st count rtt k] by (simp add: from_millis_def)

text \<open>Whatever the settings, the measured gap or round trip, and however many retries,
  both timers lie between fixed bounds (50 ms for the receiver, 300 ms for the sender, 8 s
  for both), and neither shrinks as the retry count grows.\<close>

theorem timers_bounded:
  "from_millis 50 \<le> adaptive_quiet st gap k \<and> adaptive_quiet st gap k \<le> from_secs 8
   \<and> from_millis 300 \<le> retry_interval st count rtt k \<and> retry_interval st count rtt k \<le> from_secs 8
   \<and> (k \<le> l \<longrightarrow> adaptive_quiet st gap k \<le> adaptive_quiet st gap l
        \<and> retry_interval st count rtt k \<le> retry_interval st count rtt l)"
  using adaptive_quiet_bounds adaptive_quiet_mono retry_interval_bounds retry_interval_mono by simp

theorem timers_bounded_witness:
  "adaptive_quiet (settings_from_env (\<lambda>_. None)) 0 1 \<le> adaptive_quiet (settings_from_env (\<lambda>_. None)) 0 3"
  using timers_bounded [of "settings_from_env (\<lambda>_. None)" 0 1 0 0 3] by simp

end
