(* ===== verification/Codec.thy ===== *)
theory Codec
  imports Prelude
begin

text \<open>
  The interface between the wire codec and everything that exchanges datagrams: what a
  component that sends \<open>enc m\<close> and reads with \<open>dec\<close> relies on. \<open>norm m\<close> is the part of a
  message that survives the wire, \<open>ok m\<close> the messages the format can carry. Its lemmas are
  proved here once and reach the protocol through the interpretation in \<open>Protocol\<close>.
\<close>

locale datagram_codec =
  fixes enc :: "'m \<Rightarrow> bytes"
    and dec :: "bytes \<Rightarrow> 'e + 'm"
    and ok :: "'m \<Rightarrow> bool"
    and norm :: "'m \<Rightarrow> 'm"
  assumes dec_enc: "ok m \<Longrightarrow> dec (enc m @ extra) = Inr (norm m)"
    and dec_ok: "dec d = Inr m \<Longrightarrow> ok m"
begin

lemma dec_enc_exact: "ok m \<Longrightarrow> dec (enc m) = Inr (norm m)"
  using dec_enc [of m "[]"] by simp

lemma norm_ok: "ok m \<Longrightarrow> ok (norm m)"
  using dec_enc_exact dec_ok by blast

lemma enc_distinguishes: "ok m \<Longrightarrow> ok m' \<Longrightarrow> enc m = enc m' \<Longrightarrow> norm m = norm m'"
  using dec_enc_exact by (metis sum.inject(2))

lemma enc_prefix: "ok m \<Longrightarrow> ok m' \<Longrightarrow> enc m = enc m' @ extra \<Longrightarrow> norm m = norm m'"
  using dec_enc [of m' extra] dec_enc_exact [of m] by simp

lemma reencode: "dec d = Inr m \<Longrightarrow> dec (enc m) = Inr (norm m)"
  by (rule dec_enc_exact) (rule dec_ok)

lemma carried: "ok m \<Longrightarrow> norm m = m' \<Longrightarrow> dec (enc m) = Inr x \<longleftrightarrow> x = m'"
  by (auto simp: dec_enc_exact)

end

end
