(* ===== verification/Protocol.thy ===== *)
theory Protocol
  imports Address Codec
begin

text \<open>
  The wire codec, \<open>src/src/protocol.rs\<close>: message types, the 14-byte header, \<open>encode\<close> and
  \<open>decode\<close>, with every rejection as a value of \<open>protocol_error\<close>. The properties: decoding
  inverts encoding up to what the wire format cannot carry (\<open>canon\<close>), decoding accepts
  exactly the well-formed datagrams, and what the 16-bit length field loses.
\<close>

section \<open>Constants and message types\<close>

definition MAGIC :: bytes where
  "MAGIC = [0x51, 0x53, 0x54]"

definition PROTOCOL_VERSION :: u8 where
  "PROTOCOL_VERSION = 0x03"

definition HEADER_SIZE :: nat where
  "HEADER_SIZE = 14"

definition AVAILABILITY_MASK_BITS :: nat where
  "AVAILABILITY_MASK_BITS = 16"

definition PEER_UPNP_MAPPED :: u8 where
  "PEER_UPNP_MAPPED = 0x01"

definition PEER_SAME_IP :: u8 where
  "PEER_SAME_IP = 0x02"

definition PEER_PARENT :: u8 where
  "PEER_PARENT = 0x04"

definition SEGMENT_NOT_READY :: u8 where
  "SEGMENT_NOT_READY = 0x01"

lemmas protocol_consts =
  MAGIC_def PROTOCOL_VERSION_def HEADER_SIZE_def AVAILABILITY_MASK_BITS_def
  PEER_UPNP_MAPPED_def PEER_SAME_IP_def PEER_PARENT_def SEGMENT_NOT_READY_def

datatype message_type =
    MT_HandshakeRequest
  | MT_HandshakeResponse
  | MT_ManifestRequest
  | MT_ManifestResponse
  | MT_SegmentRequest
  | MT_SegmentContents
  | MT_SegmentNotFound
  | MT_Ack
  | MT_PeerlistRequest
  | MT_PeerlistResponse
  | MT_Ping
  | MT_Pong

fun message_code :: "message_type \<Rightarrow> u8" where
  "message_code MT_HandshakeRequest = 0x01"
| "message_code MT_HandshakeResponse = 0x02"
| "message_code MT_ManifestRequest = 0x20"
| "message_code MT_ManifestResponse = 0x21"
| "message_code MT_SegmentRequest = 0x30"
| "message_code MT_SegmentContents = 0x31"
| "message_code MT_SegmentNotFound = 0x32"
| "message_code MT_Ack = 0x40"
| "message_code MT_PeerlistRequest = 0x50"
| "message_code MT_PeerlistResponse = 0x51"
| "message_code MT_Ping = 0x60"
| "message_code MT_Pong = 0x61"

definition message_type_from_u8 :: "u8 \<Rightarrow> message_type option" where
  "message_type_from_u8 code =
     (if code = 0x01 then Some MT_HandshakeRequest
      else if code = 0x02 then Some MT_HandshakeResponse
      else if code = 0x20 then Some MT_ManifestRequest
      else if code = 0x21 then Some MT_ManifestResponse
      else if code = 0x30 then Some MT_SegmentRequest
      else if code = 0x31 then Some MT_SegmentContents
      else if code = 0x32 then Some MT_SegmentNotFound
      else if code = 0x40 then Some MT_Ack
      else if code = 0x50 then Some MT_PeerlistRequest
      else if code = 0x51 then Some MT_PeerlistResponse
      else if code = 0x60 then Some MT_Ping
      else if code = 0x61 then Some MT_Pong
      else None)"

datatype ack_type = Progress | Complete

fun ack_code :: "ack_type \<Rightarrow> u8" where
  "ack_code Progress = 0x00"
| "ack_code Complete = 0x04"

definition ack_type_from_u8 :: "u8 \<Rightarrow> ack_type option" where
  "ack_type_from_u8 v =
     (if v = 0x00 then Some Progress else if v = 0x04 then Some Complete else None)"

record segment_availability =
  newest :: u64
  mask :: u16

definition avail_contains :: "segment_availability \<Rightarrow> u64 \<Rightarrow> bool option" where
  "avail_contains a segment =
     (if segment > newest a then None
      else let distance = newest a - segment in
        if unat distance \<ge> AVAILABILITY_MASK_BITS then None
        else Some (mask a AND push_bit (unat distance) 1 \<noteq> 0))"

datatype message =
    HandshakeRequest socket_addr string
  | HandshakeResponse socket_addr string
  | ManifestRequest
  | ManifestResponse bytes
  | SegmentRequest u16 string
  | SegmentContents u16 u16 u16 bytes
  | SegmentNotFound u16 "segment_availability option" bool
  | Ack u16 ack_type u16 u16
  | PeerlistRequest
  | PeerlistResponse "(socket_addr \<times> u8) list"
  | Ping u32 string
  | Pong "segment_availability option"

datatype protocol_error =
    TruncatedHeader nat
  | BadMagic bytes
  | BadVersion u8
  | UnknownMessageType u8
  | TruncatedPayload u16 nat
  | InvalidUtf8
  | BadAckFlags u8
  | BadAckPayload nat
  | BadPeerlistPayload nat
  | BadAvailabilityPayload nat

section \<open>Encoding\<close>

fun encode_availability :: "segment_availability option \<Rightarrow> bytes" where
  "encode_availability None = []"
| "encode_availability (Some a) = to_be 8 (newest a) @ to_be 2 (mask a)"

fun endpoint_bytes :: "socket_addr \<Rightarrow> bytes" where
  "endpoint_bytes (V4 ip port) =
     (if port \<noteq> 0 then v4_octets ip @ to_be 2 port else replicate 6 0)"
| "endpoint_bytes (V6 _ _ _ _) = replicate 6 0"

fun encode_peers :: "(socket_addr \<times> u8) list \<Rightarrow> bytes" where
  "encode_peers [] = []"
| "encode_peers ((V4 ip port, flags) # ps) = v4_octets ip @ to_be 2 port @ [flags] @ encode_peers ps"
| "encode_peers ((V6 _ _ _ _, flags) # ps) = encode_peers ps"

fun header_fields :: "message \<Rightarrow> message_type \<times> u8 \<times> u16 \<times> u16 \<times> u16" where
  "header_fields (HandshakeRequest _ _) = (MT_HandshakeRequest, 0, 0, 0, 0)"
| "header_fields (HandshakeResponse _ _) = (MT_HandshakeResponse, 0, 0, 0, 0)"
| "header_fields ManifestRequest = (MT_ManifestRequest, 0, 0, 0, 0)"
| "header_fields (ManifestResponse _) = (MT_ManifestResponse, 0, 0, 0, 0)"
| "header_fields (SegmentRequest tid _) = (MT_SegmentRequest, 0, tid, 0, 0)"
| "header_fields (SegmentContents tid pn tot _) = (MT_SegmentContents, 0, tid, pn, tot)"
| "header_fields (SegmentNotFound tid _ retryable) =
     (MT_SegmentNotFound, if retryable then SEGMENT_NOT_READY else 0, tid, 0, 0)"
| "header_fields (Ack tid at _ _) = (MT_Ack, ack_code at, tid, 0, 0)"
| "header_fields PeerlistRequest = (MT_PeerlistRequest, 0, 0, 0, 0)"
| "header_fields (PeerlistResponse _) = (MT_PeerlistResponse, 0, 0, 0, 0)"
| "header_fields (Ping _ _) = (MT_Ping, 0, 0, 0, 0)"
| "header_fields (Pong _) = (MT_Pong, 0, 0, 0, 0)"

fun payload_of :: "message \<Rightarrow> bytes" where
  "payload_of (HandshakeRequest claimed name) = endpoint_bytes claimed @ as_bytes name"
| "payload_of (HandshakeResponse observed name) = endpoint_bytes observed @ as_bytes name"
| "payload_of ManifestRequest = []"
| "payload_of (ManifestResponse data) = data"
| "payload_of (SegmentRequest _ filename) = as_bytes filename"
| "payload_of (SegmentContents _ _ _ data) = data"
| "payload_of (SegmentNotFound _ availability _) = encode_availability availability"
| "payload_of (Ack _ at next_start next_count) =
     (if at = Progress then to_be 2 next_start @ to_be 2 next_count else [])"
| "payload_of PeerlistRequest = []"
| "payload_of (PeerlistResponse peers) = encode_peers peers"
| "payload_of (Ping nonce name) = to_be 4 nonce @ as_bytes name"
| "payload_of (Pong availability) = encode_availability availability"

definition encode :: "message \<Rightarrow> bytes" where
  "encode m =
     (case header_fields m of (mt, flags, transfer_id, packet_number, total_packets) \<Rightarrow>
        let payload = payload_of m in
        MAGIC @ [PROTOCOL_VERSION] @ [message_code mt] @ [flags]
        @ to_be 2 (of_nat (length payload) :: u16)
        @ to_be 2 transfer_id @ to_be 2 packet_number @ to_be 2 total_packets
        @ payload)"

section \<open>Decoding\<close>

definition decode_availability ::
    "bytes \<Rightarrow> protocol_error + segment_availability option" where
  "decode_availability payload =
     (if length payload = 0 then Inr None
      else if length payload = 10 then
        Inr (Some \<lparr>newest = from_be (take 8 payload), mask = from_be (drop 8 payload)\<rparr>)
      else Inl (BadAvailabilityPayload (length payload)))"

definition utf8_name :: "bytes \<Rightarrow> protocol_error + string" where
  "utf8_name payload =
     (case from_utf8 payload of None \<Rightarrow> Inl InvalidUtf8 | Some s \<Rightarrow> Inr s)"

definition split_endpoint_name :: "bytes \<Rightarrow> protocol_error + socket_addr \<times> string" where
  "split_endpoint_name payload =
     (if length payload < 6 then Inl (TruncatedPayload (of_nat (length payload)) 0)
      else let ip = from_be [payload ! 0, payload ! 1, payload ! 2, payload ! 3];
               port = from_be [payload ! 4, payload ! 5] in
        case utf8_name (drop 6 payload) of
          Inl e \<Rightarrow> Inl e
        | Inr name \<Rightarrow> Inr (V4 ip port, name))"

fun peer_chunks :: "bytes \<Rightarrow> (socket_addr \<times> u8) list" where
  "peer_chunks (a # b # c # d # p0 # p1 # flags # rest) =
     (let ip = from_be [a, b, c, d]; port = from_be [p0, p1] in
      if port \<noteq> 0 then (V4 ip port, flags) # peer_chunks rest else peer_chunks rest)"
| "peer_chunks _ = []"

definition decode_peers :: "bytes \<Rightarrow> protocol_error + (socket_addr \<times> u8) list" where
  "decode_peers payload =
     (if \<not> 7 dvd length payload then Inl (BadPeerlistPayload (length payload))
      else Inr (peer_chunks payload))"

definition decode_ack :: "u8 \<Rightarrow> u16 \<Rightarrow> bytes \<Rightarrow> protocol_error + message" where
  "decode_ack flags transfer_id payload =
     (case ack_type_from_u8 flags of
        None \<Rightarrow> Inl (BadAckFlags flags)
      | Some Complete \<Rightarrow> Inr (Ack transfer_id Complete 0 0)
      | Some Progress \<Rightarrow>
          if length payload \<noteq> 4 then Inl (BadAckPayload (length payload))
          else Inr (Ack transfer_id Progress
                 (from_be [payload ! 0, payload ! 1]) (from_be [payload ! 2, payload ! 3])))"

definition decode_ping :: "bytes \<Rightarrow> protocol_error + message" where
  "decode_ping payload =
     (if length payload < 4 then Inl (TruncatedPayload (of_nat (length payload)) 0)
      else let nonce = from_be [payload ! 0, payload ! 1, payload ! 2, payload ! 3] in
        case utf8_name (drop 4 payload) of
          Inl e \<Rightarrow> Inl e
        | Inr name \<Rightarrow> Inr (Ping nonce name))"

fun decode_payload ::
    "message_type \<Rightarrow> u8 \<Rightarrow> u16 \<Rightarrow> u16 \<Rightarrow> u16 \<Rightarrow> bytes \<Rightarrow> protocol_error + message" where
  "decode_payload MT_HandshakeRequest flags tid pn tot payload =
     (case split_endpoint_name payload of
        Inl e \<Rightarrow> Inl e | Inr (claimed, name) \<Rightarrow> Inr (HandshakeRequest claimed name))"
| "decode_payload MT_HandshakeResponse flags tid pn tot payload =
     (case split_endpoint_name payload of
        Inl e \<Rightarrow> Inl e | Inr (observed, name) \<Rightarrow> Inr (HandshakeResponse observed name))"
| "decode_payload MT_ManifestRequest flags tid pn tot payload = Inr ManifestRequest"
| "decode_payload MT_ManifestResponse flags tid pn tot payload = Inr (ManifestResponse payload)"
| "decode_payload MT_SegmentRequest flags tid pn tot payload =
     (case utf8_name payload of
        Inl e \<Rightarrow> Inl e | Inr filename \<Rightarrow> Inr (SegmentRequest tid filename))"
| "decode_payload MT_SegmentContents flags tid pn tot payload =
     Inr (SegmentContents tid pn tot payload)"
| "decode_payload MT_SegmentNotFound flags tid pn tot payload =
     (case decode_availability payload of
        Inl e \<Rightarrow> Inl e
      | Inr availability \<Rightarrow>
          Inr (SegmentNotFound tid availability (flags AND SEGMENT_NOT_READY \<noteq> 0)))"
| "decode_payload MT_Ack flags tid pn tot payload = decode_ack flags tid payload"
| "decode_payload MT_PeerlistRequest flags tid pn tot payload = Inr PeerlistRequest"
| "decode_payload MT_PeerlistResponse flags tid pn tot payload =
     (case decode_peers payload of
        Inl e \<Rightarrow> Inl e | Inr peers \<Rightarrow> Inr (PeerlistResponse peers))"
| "decode_payload MT_Ping flags tid pn tot payload = decode_ping payload"
| "decode_payload MT_Pong flags tid pn tot payload =
     (case decode_availability payload of
        Inl e \<Rightarrow> Inl e | Inr availability \<Rightarrow> Inr (Pong availability))"

definition decode :: "bytes \<Rightarrow> protocol_error + message" where
  "decode datagram =
     (if length datagram < HEADER_SIZE then Inl (TruncatedHeader (length datagram))
      else
        let magic = [datagram ! 0, datagram ! 1, datagram ! 2] in
        if magic \<noteq> MAGIC then Inl (BadMagic magic)
        else
          let version = datagram ! 3 in
          if version \<noteq> PROTOCOL_VERSION then Inl (BadVersion version)
          else
            case message_type_from_u8 (datagram ! 4) of
              None \<Rightarrow> Inl (UnknownMessageType (datagram ! 4))
            | Some message_type \<Rightarrow>
                let flags = datagram ! 5;
                    data_length = unat (from_be [datagram ! 6, datagram ! 7] :: u16);
                    transfer_id = from_be [datagram ! 8, datagram ! 9];
                    packet_number = from_be [datagram ! 10, datagram ! 11];
                    total_packets = from_be [datagram ! 12, datagram ! 13];
                    payload = drop HEADER_SIZE datagram in
                if length payload < data_length
                then Inl (TruncatedPayload (of_nat data_length) (length payload))
                else decode_payload message_type flags transfer_id packet_number total_packets
                       (take data_length payload))"

section \<open>What the wire format can carry\<close>

text \<open>
  \<open>canon m\<close> is what a receiver sees of \<open>m\<close>: an endpoint that is not IPv4 or has port 0 is
  the null endpoint, such peers are dropped from a peer list, and a COMPLETE acknowledgement
  has no range. \<open>msg_ok\<close> is the range of messages whose header is truthful: strings are
  UTF-8 (always so in Rust) and the payload's length fits the 16-bit field.
\<close>

fun canon_endpoint :: "socket_addr \<Rightarrow> socket_addr" where
  "canon_endpoint (V4 ip port) = (if port \<noteq> 0 then V4 ip port else V4 0 0)"
| "canon_endpoint (V6 _ _ _ _) = V4 0 0"

fun sendable_peer :: "socket_addr \<times> u8 \<Rightarrow> bool" where
  "sendable_peer (V4 _ port, _) \<longleftrightarrow> port \<noteq> 0"
| "sendable_peer (V6 _ _ _ _, _) \<longleftrightarrow> False"

fun canon :: "message \<Rightarrow> message" where
  "canon (HandshakeRequest claimed name) = HandshakeRequest (canon_endpoint claimed) name"
| "canon (HandshakeResponse observed name) = HandshakeResponse (canon_endpoint observed) name"
| "canon (Ack tid Complete _ _) = Ack tid Complete 0 0"
| "canon (PeerlistResponse peers) = PeerlistResponse (filter sendable_peer peers)"
| "canon m = m"

fun strings_ok :: "message \<Rightarrow> bool" where
  "strings_ok (HandshakeRequest _ name) = str_ok name"
| "strings_ok (HandshakeResponse _ name) = str_ok name"
| "strings_ok (SegmentRequest _ filename) = str_ok filename"
| "strings_ok (Ping _ name) = str_ok name"
| "strings_ok _ = True"

definition msg_ok :: "message \<Rightarrow> bool" where
  "msg_ok m \<longleftrightarrow> strings_ok m \<and> length (payload_of m) < 65536"

lemma canon_endpoint_idem [simp]: "canon_endpoint (canon_endpoint a) = canon_endpoint a"
  by (cases a) simp_all

lemma canon_idem [simp]: "canon (canon m) = canon m"
  by (cases m rule: canon.cases) simp_all

lemma message_type_from_code [simp]: "message_type_from_u8 (message_code mt) = Some mt"
  by (cases mt) (simp_all add: message_type_from_u8_def)

lemma message_type_from_u8_Some:
  "message_type_from_u8 c = Some mt \<longleftrightarrow> c = message_code mt"
  by (auto simp: message_type_from_u8_def split: if_splits) (cases mt; simp)+

lemma ack_type_from_code [simp]: "ack_type_from_u8 (ack_code at) = Some at"
  by (cases at) (simp_all add: ack_type_from_u8_def)

lemma utf8_name_as_bytes [simp]: "str_ok s \<Longrightarrow> utf8_name (as_bytes s) = Inr s"
  by (simp add: utf8_name_def)

lemma utf8_name_Inr: "utf8_name bs = Inr s \<longleftrightarrow> as_bytes s = bs \<and> str_ok s"
  by (auto simp: utf8_name_def from_utf8_Some split: option.splits)

lemma utf8_name_accepts: "(\<exists>s. utf8_name bs = Inr s) \<longleftrightarrow> utf8_valid bs"
  by (auto simp: utf8_name_def from_utf8_def split: option.splits)

lemma decode_availability_encode [simp]:
  "decode_availability (encode_availability a) = Inr a"
  by (cases a) (simp_all add: decode_availability_def)

lemma length_v4_octets [simp]: "length (v4_octets ip) = 4"
  by (simp add: v4_octets_def)

lemma length_endpoint_bytes [simp]: "length (endpoint_bytes a) = 6"
  by (cases a) simp_all

lemma v4_octets_list:
  "v4_octets ip = [ucast (drop_bit 24 ip), ucast (drop_bit 16 ip), ucast (drop_bit 8 ip), ucast ip]"
  by (simp only: v4_octets_def to_be_4)

lemma from_be_zeros [simp]: "from_be [0, 0] = (0 :: u16)" "from_be [0, 0, 0, 0] = (0 :: u32)"
  by (simp_all add: from_be_def be_step_def)

lemma split_endpoint_name_encode:
  "str_ok name \<Longrightarrow>
   split_endpoint_name (endpoint_bytes a @ as_bytes name) = Inr (canon_endpoint a, name)"
  by (cases a) (simp_all add: split_endpoint_name_def v4_octets_list to_be_2 nth_append)

lemma length_encode_peers: "7 dvd length (encode_peers ps)"
  by (induction ps rule: encode_peers.induct) auto

lemma peer_chunks_encode: "peer_chunks (encode_peers ps) = filter sendable_peer ps"
  by (induction ps rule: encode_peers.induct)
    (simp_all add: v4_octets_list to_be_2)

lemma decode_peers_encode [simp]: "decode_peers (encode_peers ps) = Inr (filter sendable_peer ps)"
  by (simp add: decode_peers_def length_encode_peers peer_chunks_encode)

lemma decode_ack_encode:
  "decode_ack (ack_code at) tid (payload_of (Ack tid at s c)) = Inr (canon (Ack tid at s c))"
  by (cases at) (simp_all add: decode_ack_def ack_type_from_u8_def to_be_2)

lemma decode_ping_encode:
  "str_ok name \<Longrightarrow> decode_ping (to_be 4 nonce @ as_bytes name) = Inr (Ping nonce name)"
  by (simp add: decode_ping_def to_be_4)

lemma decode_payload_encode:
  assumes "strings_ok m" and "header_fields m = (mt, flags, tid, pn, tot)"
  shows "decode_payload mt flags tid pn tot (payload_of m) = Inr (canon m)"
  using assms
  by (cases m)
    (auto simp: split_endpoint_name_encode decode_ping_encode decode_ack_encode SEGMENT_NOT_READY_def
        split: if_splits simp del: payload_of.simps(8))

section \<open>The header\<close>

definition header_bytes :: "u8 \<Rightarrow> u8 \<Rightarrow> u16 \<Rightarrow> u16 \<Rightarrow> u16 \<Rightarrow> u16 \<Rightarrow> bytes" where
  "header_bytes code flags len tid pn tot =
     MAGIC @ [PROTOCOL_VERSION, code, flags] @ to_be 2 len @ to_be 2 tid @ to_be 2 pn @ to_be 2 tot"

lemma length_header_bytes [simp]: "length (header_bytes code flags len tid pn tot) = HEADER_SIZE"
  by (simp add: header_bytes_def protocol_consts)

lemma decode_header:
  "decode (header_bytes code flags len tid pn tot @ rest) =
     (case message_type_from_u8 code of
        None \<Rightarrow> Inl (UnknownMessageType code)
      | Some mt \<Rightarrow>
          if length rest < unat len then Inl (TruncatedPayload len (length rest))
          else decode_payload mt flags tid pn tot (take (unat len) rest))"
  by (cases "message_type_from_u8 code")
    (simp_all add: decode_def header_bytes_def protocol_consts to_be_2 Let_def)

lemma encode_header:
  "header_fields m = (mt, flags, tid, pn, tot) \<Longrightarrow>
   encode m = header_bytes (message_code mt) flags (of_nat (length (payload_of m))) tid pn tot
              @ payload_of m"
  by (simp add: encode_def header_bytes_def Let_def)

lemma length_encode: "length (encode m) = HEADER_SIZE + length (payload_of m)"
  by (cases "header_fields m") (simp add: encode_header)

text \<open>A datagram long enough for a header is a header, whatever its bytes, and the rest.\<close>

lemma datagram_split:
  assumes "HEADER_SIZE \<le> length d" and "take 3 d = MAGIC" and "d ! 3 = PROTOCOL_VERSION"
  shows "d = header_bytes (d ! 4) (d ! 5) (from_be [d ! 6, d ! 7]) (from_be [d ! 8, d ! 9])
               (from_be [d ! 10, d ! 11]) (from_be [d ! 12, d ! 13]) @ drop HEADER_SIZE d"
proof -
  have "take 14 d = map ((!) d) [0..<14]"
    using assms(1) by (intro nth_equalityI) (simp_all add: HEADER_SIZE_def)
  also have "\<dots> = take 3 d @ [d ! 3] @ map ((!) d) [4..<14]"
    using assms(1) by (simp add: take_3 upt_rec HEADER_SIZE_def) (simp add: eval_nat_numeral)
  also have "\<dots> = header_bytes (d ! 4) (d ! 5) (from_be [d ! 6, d ! 7]) (from_be [d ! 8, d ! 9])
               (from_be [d ! 10, d ! 11]) (from_be [d ! 12, d ! 13])"
    by (simp add: assms(2,3) header_bytes_def upt_rec)
  finally show ?thesis
    by (metis HEADER_SIZE_def append_take_drop_id)
qed

section \<open>Round trip\<close>

lemma decode_encode_take:
  assumes "strings_ok m" and "length (payload_of m) < 65536"
  shows "decode (encode m @ extra) = Inr (canon m)"
proof -
  obtain mt flags tid pn tot where h: "header_fields m = (mt, flags, tid, pn, tot)"
    by (cases "header_fields m")
  have "unat (of_nat (length (payload_of m)) :: u16) = length (payload_of m)"
    using assms(2) by (simp add: unat_of_nat)
  then show ?thesis
    by (simp add: encode_header [OF h] decode_header decode_payload_encode [OF assms(1) h])
qed

section \<open>What decoding accepts\<close>

text \<open>
  The payload grammar of each message type and the shape of a whole datagram, stated
  without reference to the order of the decoder's checks.
\<close>

fun wf_payload :: "message_type \<Rightarrow> u8 \<Rightarrow> bytes \<Rightarrow> bool" where
  "wf_payload MT_HandshakeRequest _ p = (6 \<le> length p \<and> utf8_valid (drop 6 p))"
| "wf_payload MT_HandshakeResponse _ p = (6 \<le> length p \<and> utf8_valid (drop 6 p))"
| "wf_payload MT_SegmentRequest _ p = utf8_valid p"
| "wf_payload MT_SegmentNotFound _ p = (length p \<in> {0, 10})"
| "wf_payload MT_Ack flags p = (flags = 0x04 \<or> flags = 0x00 \<and> length p = 4)"
| "wf_payload MT_PeerlistResponse _ p = (7 dvd length p)"
| "wf_payload MT_Ping _ p = (4 \<le> length p \<and> utf8_valid (drop 4 p))"
| "wf_payload MT_Pong _ p = (length p \<in> {0, 10})"
| "wf_payload _ _ p = True"

definition wf_datagram :: "bytes \<Rightarrow> bool" where
  "wf_datagram d \<longleftrightarrow>
     (\<exists>mt flags len tid pn tot payload extra.
        d = header_bytes (message_code mt) flags len tid pn tot @ payload @ extra
        \<and> length payload = unat len \<and> wf_payload mt flags payload)"

lemma decode_payload_accepts:
  "(\<exists>m. decode_payload mt flags tid pn tot p = Inr m) \<longleftrightarrow> wf_payload mt flags p"
  by (cases mt)
    (auto simp: split_endpoint_name_def decode_availability_def decode_ack_def decode_peers_def
      decode_ping_def ack_type_from_u8_def utf8_name_def from_utf8_def Let_def
      split: sum.splits option.splits if_splits ack_type.splits)

lemma decode_Inr_header:
  assumes "decode d = Inr m"
  shows "\<exists>mt flags len tid pn tot rest.
           d = header_bytes (message_code mt) flags len tid pn tot @ rest \<and> unat len \<le> length rest
           \<and> decode_payload mt flags tid pn tot (take (unat len) rest) = Inr m"
proof -
  have len: "HEADER_SIZE \<le> length d" and ver: "d ! 3 = PROTOCOL_VERSION"
    and "[d ! 0, d ! 1, d ! 2] = MAGIC"
    using assms by (auto simp: decode_def Let_def split: if_splits)
  then have "take 3 d = MAGIC"
    by (simp add: HEADER_SIZE_def take_3)
  from datagram_split [OF len this ver] obtain code flags l tid pn tot rest where
    d: "d = header_bytes code flags l tid pn tot @ rest" by blast
  with assms have "decode (header_bytes code flags l tid pn tot @ rest) = Inr m" by simp
  then show ?thesis
    unfolding decode_header d
    by (fastforce simp: message_type_from_u8_Some not_less split: option.splits if_splits)
qed

lemma peer_chunks_sendable: "p \<in> set (peer_chunks bs) \<Longrightarrow> sendable_peer p"
  by (induction bs rule: peer_chunks.induct) (auto simp: Let_def split: if_splits)

lemma length_peer_chunks: "7 * length (peer_chunks bs) \<le> length bs"
proof (induction bs rule: peer_chunks.induct)
  case (1 a b c d p0 p1 flags rest)
  have "7 * length (peer_chunks rest) \<le> length rest"
    using 1 by (cases "from_be [p0, p1] = (0 :: u16)") auto
  then show ?case by (simp add: Let_def)
qed simp_all

lemma length_encode_peers_le: "length (encode_peers ps) \<le> 7 * length ps"
  by (induction ps rule: encode_peers.induct) simp_all

lemma length_encode_availability: "length (encode_availability a) \<le> 10"
  by (cases a) simp_all

lemma decode_payload_ok:
  assumes "decode_payload mt flags tid pn tot p = Inr m" and "length p < 65536"
  shows "msg_ok m"
proof -
  have "length (encode_peers (peer_chunks p)) < 65536"
    using length_encode_peers_le [of "peer_chunks p"] length_peer_chunks [of p] assms(2) by linarith
  moreover have "length (encode_availability a) < 65536" for a
    using length_encode_availability [of a] by linarith
  ultimately show ?thesis
    using assms
    by (cases mt)
      (auto simp: msg_ok_def split_endpoint_name_def decode_ack_def decode_peers_def
        decode_ping_def utf8_name_Inr Let_def simp flip: length_as_bytes
        split: sum.splits option.splits if_splits ack_type.splits)
qed

lemma decode_ok: "decode d = Inr m \<Longrightarrow> msg_ok m"
proof -
  assume "decode d = Inr m"
  then obtain mt flags len tid pn tot rest where
    dec: "decode_payload mt flags tid pn tot (take (unat (len :: u16)) rest) = Inr m"
    using decode_Inr_header by blast
  have "unat len < 65536" using unsigned_less [of len, where ?'a = nat] by simp
  then show "msg_ok m" using decode_payload_ok [OF dec] by simp
qed

interpretation wire: datagram_codec encode decode msg_ok canon
  by unfold_locales (simp add: msg_ok_def decode_encode_take, rule decode_ok)

section \<open>Properties of the codec\<close>

text \<open>C1: Decoding the datagram of any message whose payload fits the 16-bit length field
  returns the message in canonical form, whatever bytes follow the datagram.\<close>

theorem decode_encode:
  assumes "msg_ok m"
  shows "decode (encode m @ extra) = Inr (canon m)"
  using assms by (rule wire.dec_enc)

theorem decode_encode_witness:
  "decode (encode (HandshakeRequest (V4 0xCB007107 54444) ''peer-1'') @ [1, 2, 3])
   = Inr (HandshakeRequest (V4 0xCB007107 54444) ''peer-1'')"
proof -
  have "msg_ok (HandshakeRequest (V4 0xCB007107 54444) ''peer-1'')"
    by (simp add: msg_ok_def str_ok_def as_bytes_def)
  from decode_encode [OF this] show ?thesis by simp
qed

text \<open>C9: The decoder accepts exactly the datagrams of the wire grammar: a version 3 header
  with a known type, at least as many payload bytes as it declares, and a payload of the
  shape its type demands; every other byte string is an error value.\<close>

theorem decode_accepts_iff: "(\<exists>m. decode d = Inr m) \<longleftrightarrow> wf_datagram d"
proof
  assume "\<exists>m. decode d = Inr m"
  then obtain m where "decode d = Inr m" ..
  from decode_Inr_header [OF this] obtain mt flags len tid pn tot rest where
    d: "d = header_bytes (message_code mt) flags len tid pn tot @ rest"
    and len: "unat len \<le> length rest"
    and p: "decode_payload mt flags tid pn tot (take (unat len) rest) = Inr m" by blast
  have "wf_payload mt flags (take (unat len) rest)"
    using p by (subst decode_payload_accepts [symmetric]) blast
  moreover have "rest = take (unat len) rest @ drop (unat len) rest" by simp
  ultimately show "wf_datagram d"
    unfolding wf_datagram_def d using len by (metis length_take min.absorb2)
next
  assume "wf_datagram d"
  then show "\<exists>m. decode d = Inr m"
    by (auto simp: wf_datagram_def decode_header decode_payload_accepts)
qed

text \<open>C14: Whatever the decoder accepts is a message the encoder can carry, and decoding its
  re-encoding gives its canonical form.\<close>

theorem decode_reencode:
  assumes "decode d = Inr m"
  shows "msg_ok m \<and> decode (encode m) = Inr (canon m) \<and> canon (canon m) = canon m"
proof -
  show ?thesis using wire.dec_ok [OF assms] wire.reencode [OF assms] canon_idem by blast
qed

theorem decode_reencode_witness:
  "decode (encode (PeerlistResponse [(V4 1 80, 4), (V6 1 80 0 0, 0), (V4 1 0, 1)]))
   = Inr (PeerlistResponse [(V4 1 80, 4)])
   \<and> msg_ok (PeerlistResponse [(V4 1 80, 4)])"
proof -
  have "decode (encode (PeerlistResponse [(V4 1 80, 4), (V6 1 80 0 0, 0), (V4 1 0, 1)]))
        = Inr (PeerlistResponse [(V4 1 80, 4)])"
    using decode_encode_take [of "PeerlistResponse [(V4 1 80, 4), (V6 1 80 0 0, 0), (V4 1 0, 1)]" "[]"]
    by simp
  then show ?thesis using decode_reencode by blast
qed

text \<open>A manifest longer than the length field can say is not rejected but silently cut:
  the receiver sees its first \<open>length mod 65536\<close> bytes.\<close>

theorem manifest_length_wraps:
  "decode (encode (ManifestResponse data)) = Inr (ManifestResponse (take (length data mod 65536) data))"
  using message_type_from_code [of MT_ManifestResponse]
  by (simp add: encode_header decode_header unat_of_nat take_bit_eq_mod)

end
