(* ===== verification/Files.thy ===== *)
theory Files
  imports Timers Protocol
begin

text \<open>
  Names and files: the file system the node reads and writes, and the functions of
  \<open>src/src/transfer.rs\<close> that read a playlist, validate names, count packets and summarise
  the segment directory. A file is keyed by its path as the code writes it. What the
  operating system may refuse is a field of the state: whether a write or a rename
  succeeds, and what a failed write leaves behind.
\<close>

section \<open>The file system\<close>

record file_system =
  files :: "(string \<times> bytes) list"
  write_failure :: "string \<Rightarrow> bytes \<Rightarrow> bytes option option"
  rename_ok :: "string \<Rightarrow> string \<Rightarrow> bool"
  dir_readable :: "string \<Rightarrow> bool"

definition fs_read :: "file_system \<Rightarrow> string \<Rightarrow> bytes option" where
  "fs_read fs p = map_of (files fs) p"

definition fs_is_file :: "file_system \<Rightarrow> string \<Rightarrow> bool" where
  "fs_is_file fs p \<longleftrightarrow> fs_read fs p \<noteq> None"

definition fs_write :: "string \<Rightarrow> bytes \<Rightarrow> file_system \<Rightarrow> bool \<times> file_system" where
  "fs_write p data fs =
     (case write_failure fs p data of
        None \<Rightarrow> (True, fs\<lparr>files := AList.update p data (files fs)\<rparr>)
      | Some None \<Rightarrow> (False, fs)
      | Some (Some left) \<Rightarrow> (False, fs\<lparr>files := AList.update p left (files fs)\<rparr>))"

definition fs_rename :: "string \<Rightarrow> string \<Rightarrow> file_system \<Rightarrow> bool \<times> file_system" where
  "fs_rename a b fs =
     (case fs_read fs a of
        Some data \<Rightarrow>
          if rename_ok fs a b
          then (True, fs\<lparr>files := AList.update b data (AList.delete a (files fs))\<rparr>)
          else (False, fs)
      | None \<Rightarrow> (False, fs))"

text \<open>The names of the regular files directly in a directory, in the order they are stored.\<close>

definition entry_name :: "string \<Rightarrow> string \<Rightarrow> string option" where
  "entry_name root p =
     (case strip_prefix (path_join root []) p of
        Some n \<Rightarrow> if n \<noteq> [] \<and> CHR ''/'' \<notin> set n then Some n else None
      | None \<Rightarrow> None)"

definition fs_read_dir :: "file_system \<Rightarrow> string \<Rightarrow> string list option" where
  "fs_read_dir fs root =
     (if dir_readable fs root then Some (List.map_filter (\<lambda>(p, _). entry_name root p) (files fs))
      else None)"

text \<open>The temporary file and the rename: if both succeed the contents are under the final name.\<close>

lemma fs_write_rename:
  "fs_write a data fs = (True, fs1) \<Longrightarrow> fs_rename a b fs1 = (True, fs2) \<Longrightarrow> fs_read fs2 b = Some data"
  by (auto simp: fs_write_def fs_rename_def fs_read_def AList.update_conv' split: option.splits if_splits)

text \<open>An empty disk on which every operation succeeds.\<close>

definition demo_disk :: file_system where
  "demo_disk = \<lparr>files = [], write_failure = (\<lambda>_ _. None), rename_ok = (\<lambda>_ _. True), dir_readable = (\<lambda>_. True)\<rparr>"

section \<open>Names and playlists\<close>

definition is_ascii_graphic :: "char \<Rightarrow> bool" where
  "is_ascii_graphic c \<longleftrightarrow> (let n = of_char c :: nat in 33 \<le> n \<and> n \<le> 126)"

definition valid_filename :: "string \<Rightarrow> bool" where
  "valid_filename name \<longleftrightarrow>
     name \<noteq> [] \<and> length name \<le> 255 \<and> CHR ''/'' \<notin> set name \<and> CHR 0x5C \<notin> set name
     \<and> \<not> starts_with name ''.'' \<and> list_all is_ascii_graphic name"

definition parse_manifest :: "bytes \<Rightarrow> string list" where
  "parse_manifest data =
     (case from_utf8 data of
        None \<Rightarrow> []
      | Some s \<Rightarrow> map str_trim (filter (\<lambda>l. l \<noteq> [] \<and> \<not> starts_with l ''#'') (str_lines s)))"

definition packet_count :: "nat \<Rightarrow> u16" where
  "packet_count file_size =
     of_nat (min (max ((file_size + SEGMENT_PACKET_SIZE - 1) div SEGMENT_PACKET_SIZE) 1) 65535)"

definition segment_number :: "string \<Rightarrow> u64 option" where
  "segment_number name =
     (case strip_prefix ''seg_'' name of
        None \<Rightarrow> None
      | Some rest \<Rightarrow>
          (case strip_suffix ''.ts'' rest of None \<Rightarrow> None | Some digits \<Rightarrow> parse_u64 digits))"

definition mask_step :: "u64 \<Rightarrow> u16 \<Rightarrow> u64 \<Rightarrow> u16" where
  "mask_step new m number =
     (let distance = (if number \<le> new then new - number else 0) in
      if unat distance < AVAILABILITY_MASK_BITS then m OR push_bit (unat distance) 1 else m)"

definition segment_availability :: "file_system \<Rightarrow> string \<Rightarrow> segment_availability option" where
  "segment_availability fs root =
     (case fs_read_dir fs root of
        None \<Rightarrow> None
      | Some entries \<Rightarrow>
          (let numbers = List.map_filter segment_number entries in
           if numbers = [] then None
           else let new = Max (set numbers) in
             Some \<lparr>newest = new, mask = foldl (mask_step new) 0 numbers\<rparr>))"

section \<open>Packets of a file\<close>

text \<open>The bytes of packet \<open>pn\<close> (packets count from 1).\<close>

definition chunk :: "bytes \<Rightarrow> nat \<Rightarrow> bytes" where
  "chunk file pn = take SEGMENT_PACKET_SIZE (drop ((pn - 1) * SEGMENT_PACKET_SIZE) file)"

lemma packet_count_pos: "1 \<le> unat (packet_count n)"
  by (simp add: packet_count_def SEGMENT_PACKET_SIZE_def unat_of_nat take_bit_eq_mod)

lemma unat_packet_count:
  "unat (packet_count n) = min (max ((n + 1399) div 1400) 1) 65535"
  by (simp add: packet_count_def SEGMENT_PACKET_SIZE_def unat_of_nat take_bit_eq_mod)

text \<open>Up to 91,749,000 bytes the packets cover the file; beyond, the count stops at 65535.\<close>

lemma packet_count_covers: "n \<le> 65535 * 1400 \<Longrightarrow> n \<le> unat (packet_count n) * 1400"
  unfolding unat_packet_count by (auto simp: min_def max_def)

lemma packet_count_tight: "(unat (packet_count n) - 1) * 1400 \<le> n"
  unfolding unat_packet_count by (auto simp: min_def max_def)

lemma length_chunk:
  "length (chunk file pn) = min 1400 (length file - (pn - 1) * 1400)"
  by (simp add: chunk_def SEGMENT_PACKET_SIZE_def)

lemma full_chunk:
  "1 \<le> pn \<Longrightarrow> pn < unat (packet_count (length file)) \<Longrightarrow> length (chunk file pn) = 1400"
proof -
  assume "1 \<le> pn" and "pn < unat (packet_count (length file))"
  then have "pn \<le> unat (packet_count (length file)) - 1" by simp
  then have "pn * 1400 \<le> (unat (packet_count (length file)) - 1) * 1400" by (rule mult_le_mono1)
  with packet_count_tight [of "length file"] have "pn * 1400 \<le> length file" by linarith
  with \<open>1 \<le> pn\<close> show ?thesis by (simp add: length_chunk diff_mult_distrib)
qed

lemma concat_chunks: "concat (map (chunk file) [1..<Suc n]) = take (n * 1400) file"
proof (induction n)
  case 0
  then show ?case by simp
next
  case (Suc n)
  have "concat (map (chunk file) [1..<Suc (Suc n)])
      = take (n * 1400) file @ chunk file (Suc n)"
    using Suc by simp
  also have "\<dots> = take (Suc n * 1400) file"
    by (simp add: chunk_def SEGMENT_PACKET_SIZE_def take_add [symmetric] add.commute)
  finally show ?case .
qed

lemma take_packets: "take (unat (packet_count (length file)) * 1400) file = take 91749000 file"
proof (cases "length file \<le> 65535 * 1400")
  case True
  then show ?thesis using packet_count_covers [of "length file"] by simp
next
  case False
  then have "unat (packet_count (length file)) = 65535"
    unfolding unat_packet_count by (auto simp: min_def max_def)
  then show ?thesis by simp
qed

text \<open>C33: Cutting a file into \<open>packet_count\<close> packets loses nothing up to 91,749,000 bytes:
  the packets in order are the file, each but the last is full, none exceeds 1400 bytes,
  and there is at least one; a longer file is cut to its first 91,749,000 bytes.\<close>

theorem packets_partition_file:
  "concat (map (chunk file) [1..<Suc (unat (packet_count (length file)))]) = take 91749000 file
   \<and> 1 \<le> unat (packet_count (length file))
   \<and> (\<forall>pn. 1 \<le> pn \<longrightarrow> pn < unat (packet_count (length file)) \<longrightarrow> length (chunk file pn) = 1400)
   \<and> (\<forall>pn. length (chunk file pn) \<le> 1400)"
  using concat_chunks [of "file" "unat (packet_count (length file))"] packet_count_pos full_chunk
    take_packets [of "file"]
  by (simp only: length_chunk) simp

theorem packets_partition_file_witness:
  "length (chunk (replicate 3000 7) 2) = 1400"
proof -
  have "unat (packet_count 3000) = 3" by (simp add: unat_packet_count)
  then show ?thesis using packets_partition_file [of "replicate 3000 7"] by simp
qed

section \<open>Names that stay in their directory\<close>

lemma strip_prefix_append [simp]: "strip_prefix p (p @ r) = Some r"
  by (simp add: strip_prefix_Some)

text \<open>C35: A name that passes \<open>valid_filename\<close> names a file directly in the directory it is
  joined to: it has no separator, is not a dot entry, and its path is the directory's path
  followed by it, so no request escapes the segment root.\<close>

theorem valid_filename_confined:
  assumes "valid_filename name"
  shows "path_join root name = path_join root [] @ name
         \<and> entry_name root (path_join root name) = Some name
         \<and> name \<noteq> ''.'' \<and> name \<noteq> ''..'' \<and> str_ok name"
proof -
  from assms have sep: "CHR ''/'' \<notin> set name" and ne: "name \<noteq> []" and dot: "\<not> starts_with name ''.''"
    and g: "list_all is_ascii_graphic name"
    by (simp_all add: valid_filename_def)
  have "\<not> starts_with name ''/''"
    using sep by (auto simp: starts_with_def prefix_def)
  then have j: "path_join root name = path_join root [] @ name"
    using ne by (auto simp: path_join_def starts_with_def)
  have "str_ok name"
    using g
  proof (induction name)
    case (Cons c cs)
    then have "of_char c < (128 :: nat)" by (simp add: is_ascii_graphic_def Let_def)
    then have "of_nat (of_char c) < (0x80 :: u8)"
      by (simp add: word_less_nat_alt unat_of_nat take_bit_eq_mod del: of_nat_of_char)
    with Cons show ?case by (simp add: str_ok_def as_bytes_def of_nat_of_char)
  qed (simp add: str_ok_def as_bytes_def)
  with j sep ne dot show ?thesis
    by (auto simp: entry_name_def starts_with_def)
qed

theorem valid_filename_confined_witness:
  "path_join ''/srv/live'' ''seg_0042.ts'' = ''/srv/live/seg_0042.ts''
   \<and> valid_filename ''seg_0042.ts''"
proof -
  have v: "valid_filename ''seg_0042.ts''"
    by (simp add: valid_filename_def is_ascii_graphic_def starts_with_def)
  from valid_filename_confined [OF v, of "''/srv/live''"] v show ?thesis
    by (simp add: path_join_def starts_with_def ends_with_def suffix_def)
qed

section \<open>The inventory a node advertises\<close>

lemma mask_fold_bit:
  assumes "\<And>n. n \<in> set ns \<Longrightarrow> n \<le> new" and "d < 16"
  shows "bit (foldl (mask_step new) m ns) d \<longleftrightarrow> bit m d \<or> (\<exists>n \<in> set ns. unat (new - n) = d)"
  using assms
proof (induction ns arbitrary: m)
  case (Cons n ns)
  then have n: "n \<le> new" by simp
  have "bit (mask_step new m n) d \<longleftrightarrow> bit m d \<or> unat (new - n) = d"
    using n Cons.prems(2)
    by (auto simp: mask_step_def AVAILABILITY_MASK_BITS_def bit_simps Let_def)
  then show ?case using Cons.IH [of "mask_step new m n"] Cons.prems by auto
qed simp

lemma avail_contains_bit:
  "avail_contains a s =
     (if s > newest a \<or> unat (newest a - s) \<ge> 16 then None
      else Some (bit (mask a) (unat (newest a - s))))"
  by (simp add: avail_contains_def AVAILABILITY_MASK_BITS_def Let_def bit_iff_and_push_bit_not_eq_0)

text \<open>C34: The advertised inventory is exact: its newest number is the largest segment number
  stored, and for every number of the 16 positions it covers a peer that reads it learns
  precisely whether such a segment is stored; outside, it learns nothing.\<close>

theorem availability_exact:
  assumes "segment_availability fs root = Some a" and "fs_read_dir fs root = Some entries"
  shows "newest a \<in> set (List.map_filter segment_number entries)
    \<and> (\<forall>s \<in> set (List.map_filter segment_number entries). s \<le> newest a)
    \<and> (\<forall>s. avail_contains a s =
          (if s > newest a \<or> unat (newest a - s) \<ge> 16 then None
           else Some (s \<in> set (List.map_filter segment_number entries))))"
proof -
  let ?ns = "List.map_filter segment_number entries"
  from assms have ne: "?ns \<noteq> []" and a: "a = \<lparr>newest = Max (set ?ns), mask = foldl (mask_step (Max (set ?ns))) 0 ?ns\<rparr>"
    by (auto simp: segment_availability_def Let_def split: if_splits)
  let ?new = "Max (set ?ns)"
  have le: "\<And>n. n \<in> set ?ns \<Longrightarrow> n \<le> ?new" by simp
  have "bit (mask a) (unat (?new - s)) \<longleftrightarrow> s \<in> set ?ns"
    if "s \<le> ?new" and "unat (?new - s) < 16" for s
    using mask_fold_bit [where ns = ?ns and new = ?new and m = 0 and d = "unat (?new - s)"] le that
    by (auto simp: a word_unat_eq_iff [symmetric])
  then have bits: "\<forall>s. avail_contains a s
      = (if s > newest a \<or> unat (newest a - s) \<ge> 16 then None else Some (s \<in> set ?ns))"
    by (simp add: avail_contains_bit a not_less not_le)
  have "newest a \<in> set ?ns" using ne Max_in [of "set ?ns"] by (simp only: a) simp
  with bits le show ?thesis by (simp only: a) simp
qed

theorem availability_exact_witness:
  "avail_contains \<lparr>newest = 7, mask = 0b101\<rparr> 6 = Some False"
proof -
  let ?fs = "\<lparr>files = [(''/seg/seg_0007.ts'', []), (''/seg/seg_0005.ts'', []), (''/seg/live.m3u8'', [])],
      write_failure = (\<lambda>_ _. None), rename_ok = (\<lambda>_ _. True), dir_readable = (\<lambda>_. True)\<rparr>"
  have d: "fs_read_dir ?fs ''/seg'' = Some [''seg_0007.ts'', ''seg_0005.ts'', ''live.m3u8'']" by code_simp
  have n: "List.map_filter segment_number [''seg_0007.ts'', ''seg_0005.ts'', ''live.m3u8''] = [7, 5]"
    by (simp add: segment_number_def strip_prefix_def strip_suffix_def starts_with_def ends_with_def
        suffix_def parse_u64_def parse_uint_def digit_of_def)
  have m: "Max (set [7, 5 :: u64]) = 7" by simp
  have "foldl (mask_step 7) 0 [7, 5] = 0b101" by code_simp
  with d n m have a: "segment_availability ?fs ''/seg'' = Some \<lparr>newest = 7, mask = 0b101\<rparr>"
    by (simp only: segment_availability_def option.case Let_def list.distinct) simp
  from availability_exact [OF a d, unfolded n] show ?thesis by simp
qed

end
