(* ===== verification/Sender.thy ===== *)
theory Sender
  imports Files
begin

text \<open>
  \<open>SenderTransfer\<close> of \<open>src/src/transfer.rs\<close>: the side that serves a file, one window of
  packets at a time. A tick sends the next chunk of the current window or, once the window
  is out and its acknowledgement is overdue, rewinds it; an acknowledgement names the next
  window or ends the transfer. A Rust panic (an empty subtraction, a slice out of range) is
  the value \<open>None\<close>.
\<close>

definition SEND_CHUNK :: u16 where
  "SEND_CHUNK = 8"

record sender_transfer =
  s_transfer_id :: u16
  s_remote :: socket_addr
  s_total :: u16
  s_file :: bytes
  s_range :: "u16 \<times> u16"
  s_range_sent :: u16
  s_retry_count :: u32
  s_ack_deadline :: "instant option"
  s_send_deadline :: instant
  s_rtt_est :: duration
  s_window_sent_at :: "instant option"

definition sender_new :: "u16 \<Rightarrow> socket_addr \<Rightarrow> bytes \<Rightarrow> instant \<Rightarrow> sender_transfer" where
  "sender_new transfer_id remote file now =
     (let n = packet_count (length file); count = min INITIAL_WINDOW n in
      \<lparr>s_transfer_id = transfer_id, s_remote = remote, s_total = n, s_file = file,
       s_range = (1, count), s_range_sent = 0, s_retry_count = 0, s_ack_deadline = None,
       s_send_deadline = now, s_rtt_est = from_millis 250, s_window_sent_at = None\<rparr>)"

definition sender_payload_bytes :: "sender_transfer \<Rightarrow> u64" where
  "sender_payload_bytes s = of_nat (length (s_file s))"

definition sender_deadline :: "sender_transfer \<Rightarrow> instant" where
  "sender_deadline s =
     (if s_range_sent s \<ge> snd (s_range s)
      then (case s_ack_deadline s of Some t \<Rightarrow> t | None \<Rightarrow> s_send_deadline s)
      else s_send_deadline s)"

text \<open>The message for one packet, read out of the file at its offset.\<close>

definition packet_message :: "sender_transfer \<Rightarrow> u16 \<Rightarrow> message option" where
  "packet_message s packet_number =
     (if packet_number = 0 then None
      else let seek = (unat packet_number - 1) * SEGMENT_PACKET_SIZE;
               end = min (seek + SEGMENT_PACKET_SIZE) (length (s_file s)) in
        if seek \<le> end
        then Some (SegmentContents (s_transfer_id s) packet_number (s_total s)
               (take (end - seek) (drop seek (s_file s))))
        else None)"

fun send_packets_loop ::
    "sender_transfer \<Rightarrow> u16 \<Rightarrow> nat list \<Rightarrow> instant \<Rightarrow> net \<Rightarrow> net option" where
  "send_packets_loop s first_packet [] now n = Some n"
| "send_packets_loop s first_packet (i # is) now n =
     (let packet_number = ucast (ucast first_packet + of_nat i :: u32) in
      case packet_message s packet_number of
        None \<Rightarrow> None
      | Some msg \<Rightarrow>
          send_packets_loop s first_packet is now (fault_send (encode msg) (s_remote s) now n))"

definition send_packets ::
    "sender_transfer \<Rightarrow> u16 \<Rightarrow> u16 \<Rightarrow> instant \<Rightarrow> net \<Rightarrow> net option" where
  "send_packets s first_packet count now n =
     send_packets_loop s first_packet [0..<unat count] now n"

text \<open>First half of \<open>tick\<close>: the next chunk of the window.\<close>

definition sender_send_chunk ::
    "settings \<Rightarrow> instant \<Rightarrow> sender_transfer \<Rightarrow> net \<Rightarrow> (sender_transfer \<times> net) option" where
  "sender_send_chunk st now s n =
     (case s_range s of (start, count) \<Rightarrow>
        if s_range_sent s < count \<and> now \<ge> s_send_deadline s then
          (let to_send = min (count - s_range_sent s) SEND_CHUNK;
               first = ucast (ucast start + ucast (s_range_sent s) :: u32) in
           case send_packets s first to_send now n of
             None \<Rightarrow> None
           | Some n' \<Rightarrow>
               let s = s\<lparr>s_range_sent := s_range_sent s + to_send\<rparr>;
                   pace = from_millis (unat (pace_ms st));
                   s = (if pace > 0 \<and> to_send > 0
                        then s\<lparr>s_send_deadline := now + pace * unat to_send\<rparr>
                        else s\<lparr>s_send_deadline := now\<rparr>);
                   s = (if s_range_sent s \<ge> count
                        then s\<lparr>s_window_sent_at := Some now,
                               s_ack_deadline := Some (now + retry_interval st count (s_rtt_est s)
                                                               (unat (s_retry_count s)))\<rparr>
                        else s) in
               Some (s, n'))
        else Some (s, n))"

text \<open>
  Second half: the acknowledgement timer. The error value carries the transfer id and the
  range its message reports.
\<close>

type_synonym sender_error = "u16 \<times> u16 \<times> u16"

definition sender_ack_timer ::
    "instant \<Rightarrow> sender_transfer \<Rightarrow> (sender_error + unit) \<times> sender_transfer" where
  "sender_ack_timer now s =
     (case s_range s of (start, count) \<Rightarrow>
        (case s_ack_deadline s of
           Some ack \<Rightarrow>
             if s_range_sent s \<ge> count \<and> now \<ge> ack then
               (let s = s\<lparr>s_retry_count := s_retry_count s + 1\<rparr> in
                if s_retry_count s > SENDER_RETRY_LIMIT
                then (Inl (s_transfer_id s, start, count), s)
                else (Inr (), s\<lparr>s_range_sent := 0, s_ack_deadline := None, s_send_deadline := now\<rparr>))
             else (Inr (), s)
         | None \<Rightarrow> (Inr (), s)))"

definition sender_tick ::
    "settings \<Rightarrow> instant \<Rightarrow> sender_transfer \<Rightarrow> net
      \<Rightarrow> ((sender_error + unit) \<times> sender_transfer \<times> net) option" where
  "sender_tick st now s n =
     (case sender_send_chunk st now s n of
        None \<Rightarrow> None
      | Some (s, n) \<Rightarrow> (case sender_ack_timer now s of (r, s) \<Rightarrow> Some (r, s, n)))"

definition sender_on_ack ::
    "settings \<Rightarrow> instant \<Rightarrow> ack_type \<Rightarrow> u16 \<Rightarrow> u16 \<Rightarrow> sender_transfer \<Rightarrow> bool \<times> sender_transfer" where
  "sender_on_ack st now at next_start next_count s =
     (case at of
        Complete \<Rightarrow> (True, s)
      | Progress \<Rightarrow>
          (let n = ucast (s_total s) :: u32;
               start = ucast next_start :: u32;
               count = ucast next_count :: u32 in
           if start \<ge> 1 \<and> start \<le> n then
             (let s = (case s_window_sent_at s of
                         Some t \<Rightarrow> s\<lparr>s_window_sent_at := None,
                                     s_rtt_est := (s_rtt_est s * 3 + duration_since now t) div 4\<rparr>
                       | None \<Rightarrow> s);
                  count = min count (n - start + 1) in
              (False, s\<lparr>s_range := (ucast start, ucast count), s_range_sent := 0,
                        s_ack_deadline := None, s_retry_count := 0, s_send_deadline := now\<rparr>))
           else
             (False, s\<lparr>s_range := (1, 0), s_range_sent := 0,
                       s_ack_deadline := Some (now + retry_interval st 1 (s_rtt_est s) 1)\<rparr>)))"

section \<open>The invariant\<close>

text \<open>
  The file never changes and is cut into \<open>s_total\<close> packets; the window lies within them,
  no more of it is sent than it has, and the retries are within their limit.
\<close>

definition sender_ok :: "sender_transfer \<Rightarrow> bool" where
  "sender_ok s \<longleftrightarrow>
     s_total s = packet_count (length (s_file s))
     \<and> 1 \<le> unat (fst (s_range s))
     \<and> unat (fst (s_range s)) + unat (snd (s_range s)) \<le> unat (s_total s) + 1
     \<and> unat (s_range_sent s) \<le> unat (snd (s_range s))
     \<and> unat (s_retry_count s) \<le> 30"

definition same_service :: "sender_transfer \<Rightarrow> sender_transfer \<Rightarrow> bool" where
  "same_service s s' \<longleftrightarrow> s_transfer_id s' = s_transfer_id s \<and> s_remote s' = s_remote s
     \<and> s_total s' = s_total s \<and> s_file s' = s_file s"

text \<open>The datagrams that carry genuine packets of the file.\<close>

definition packet_datagram :: "sender_transfer \<Rightarrow> nat \<Rightarrow> datagram" where
  "packet_datagram s pn =
     (encode (SegmentContents (s_transfer_id s) (of_nat pn) (s_total s) (chunk (s_file s) pn)),
      s_remote s)"

definition content_datagrams :: "sender_transfer \<Rightarrow> datagram set" where
  "content_datagrams s = packet_datagram s ` {1..unat (s_total s)}"

lemma packet_message_genuine:
  assumes "s_total s = packet_count (length (s_file s))"
    and "1 \<le> unat pn" and "unat pn \<le> unat (s_total s)"
  shows "packet_message s pn
    = Some (SegmentContents (s_transfer_id s) pn (s_total s) (chunk (s_file s) (unat pn)))"
proof -
  let ?seek = "(unat pn - 1) * 1400"
  have "?seek \<le> (unat (packet_count (length (s_file s))) - 1) * 1400"
    using assms by (intro mult_le_mono1) simp
  then have le: "?seek \<le> length (s_file s)"
    using packet_count_tight [of "length (s_file s)"] by linarith
  have "min (?seek + 1400) (length (s_file s)) - ?seek = min 1400 (length (s_file s) - ?seek)"
    by simp
  then have "take (min (?seek + 1400) (length (s_file s)) - ?seek) (drop ?seek (s_file s))
      = chunk (s_file s) (unat pn)"
    by (auto simp: chunk_def SEGMENT_PACKET_SIZE_def min_def)
  moreover have "pn \<noteq> 0" using assms(2) by auto
  ultimately show ?thesis
    using le by (simp only: packet_message_def Let_def SEGMENT_PACKET_SIZE_def) simp
qed

lemma packet_word:
  assumes "unat first + i \<le> 65535"
  shows "unat (ucast (ucast (first :: u16) + of_nat i :: u32) :: u16) = unat first + i"
proof -
  have "unat (of_nat i :: u32) = i" using assms by (simp add: unat_of_nat take_bit_nat_eq_self)
  then show ?thesis using assms by (simp add: unat_ucast_32_16 unat_add_small)
qed

lemma send_packets_loop_genuine:
  assumes "s_total s = packet_count (length (s_file s))"
    and "\<forall>i \<in> set is. 1 \<le> unat first + i \<and> unat first + i \<le> unat (s_total s)"
  shows "send_packets_loop s first is now n
    = Some (injector.send_all (map (\<lambda>i. packet_datagram s (unat first + i)) is) now n)"
  using assms(2)
proof (induction "is" arbitrary: n)
  case Nil
  then show ?case by (simp add: injector.send_all_def)
next
  case (Cons i "is")
  let ?pn = "ucast (ucast first + of_nat i :: u32) :: u16"
  have pn: "unat ?pn = unat first + i"
    using Cons.prems unat_u16_le [of "s_total s"] by (intro packet_word) auto
  then have "packet_message s ?pn = Some (SegmentContents (s_transfer_id s) ?pn (s_total s)
      (chunk (s_file s) (unat first + i)))"
    using packet_message_genuine [OF assms(1), of ?pn] Cons.prems by simp
  moreover have "?pn = of_nat (unat first + i)" by (simp only: pn [symmetric]) simp
  ultimately show ?case
    using Cons by (simp add: injector.send_all_def packet_datagram_def Let_def)
qed

lemma send_packets_genuine:
  assumes "s_total s = packet_count (length (s_file s))"
    and "1 \<le> unat first" and "unat first + unat count \<le> unat (s_total s) + 1"
  shows "send_packets s first count now n
    = Some (injector.send_all (map (packet_datagram s) [unat first..<unat first + unat count]) now n)"
proof -
  have "map (packet_datagram s) [unat first..<unat first + unat count]
      = map (\<lambda>i. packet_datagram s (unat first + i)) [0..<unat count]"
    by (rule nth_equalityI) simp_all
  then show ?thesis
    unfolding send_packets_def using assms
    by (subst send_packets_loop_genuine) auto
qed

text \<open>The packets the next tick puts out.\<close>

definition next_packets :: "instant \<Rightarrow> sender_transfer \<Rightarrow> nat list" where
  "next_packets now s =
     (let start = unat (fst (s_range s)); count = unat (snd (s_range s)); sent = unat (s_range_sent s) in
      if sent < count \<and> s_send_deadline s \<le> now
      then [start + sent..<start + sent + min (count - sent) 8] else [])"

lemma next_packets_bounds:
  assumes "sender_ok s" and "pn \<in> set (next_packets now s)"
  shows "1 \<le> pn \<and> pn \<le> unat (s_total s)"
  using assms by (auto simp: next_packets_def sender_ok_def Let_def split: if_splits)

text \<open>The state after the chunk, field by field.\<close>

lemma send_chunk_step:
  assumes "sender_ok s" and "s_range s = (start, count)"
    and "s_range_sent s < count" and "s_send_deadline s \<le> now"
  obtains s' where
    "sender_send_chunk st now s n
       = Some (s', injector.send_all (map (packet_datagram s) (next_packets now s)) now n)"
    and "same_service s s'" and "s_range s' = (start, count)"
    and "s_retry_count s' = s_retry_count s" and "s_rtt_est s' = s_rtt_est s"
    and "unat (s_range_sent s') = unat (s_range_sent s) + min (unat count - unat (s_range_sent s)) 8"
    and "s_ack_deadline s' = (if unat count - unat (s_range_sent s) \<le> 8
           then Some (now + retry_interval st count (s_rtt_est s) (unat (s_retry_count s)))
           else s_ack_deadline s)"
    and "s_send_deadline s' = now + from_millis (unat (pace_ms st)) * min (unat count - unat (s_range_sent s)) 8"
proof -
  let ?sent = "s_range_sent s"
  let ?to = "min (count - ?sent) SEND_CHUNK"
  have ok: "s_total s = packet_count (length (s_file s))" "1 \<le> unat start"
    "unat start + unat count \<le> unat (s_total s) + 1" "unat ?sent < unat count"
    using assms unfolding sender_ok_def by (auto simp: word_less_nat_alt)
  have to_: "unat ?to = min (unat count - unat ?sent) 8"
    using ok(4) by (simp add: unat_min unat_sub_le SEND_CHUNK_def)
  have first: "unat (start + ?sent) = unat start + unat ?sent"
    using ok unat_u16_le [of "s_total s"] by (intro unat_add_small) simp
  have sent': "unat (?sent + ?to) = unat ?sent + min (unat count - unat ?sent) 8"
    using ok(4) unat_u16_le [of count] by (subst unat_add_small) (simp_all add: to_)
  have np: "[unat start + unat ?sent..<unat start + unat ?sent + min (unat count - unat ?sent) 8]
      = next_packets now s"
    using assms(2,4) ok(4) by (simp add: next_packets_def Let_def)
  have top: "unat start + unat ?sent + min (unat count - unat ?sent) 8 \<le> Suc (unat (s_total s))"
    using ok(3,4) by linarith
  have sp: "send_packets s (start + ?sent) ?to now n
      = Some (injector.send_all (map (packet_datagram s) (next_packets now s)) now n)"
    using send_packets_genuine [OF ok(1), of "start + ?sent" ?to now n] ok(2) top
    by (simp add: first to_ np)
  have pos: "?to > 0" using ok(4) by (simp add: word_less_nat_alt to_)
  have full: "?sent + ?to \<ge> count \<longleftrightarrow> unat count - unat ?sent \<le> 8"
    using ok(4) by (simp add: word_le_nat_alt sent') linarith
  show ?thesis
  proof (rule that)
    show "sender_send_chunk st now s n
       = Some (s\<lparr>s_range_sent := ?sent + ?to,
                 s_send_deadline := now + from_millis (unat (pace_ms st)) * unat ?to,
                 s_window_sent_at := (if unat count - unat ?sent \<le> 8 then Some now else s_window_sent_at s),
                 s_ack_deadline := (if unat count - unat ?sent \<le> 8
                   then Some (now + retry_interval st count (s_rtt_est s) (unat (s_retry_count s)))
                   else s_ack_deadline s)\<rparr>,
           injector.send_all (map (packet_datagram s) (next_packets now s)) now n)"
      using assms(3,4) pos
      by (simp add: sender_send_chunk_def assms(2) sp Let_def full)
  qed (simp_all add: same_service_def assms(2) sent' to_)
qed

section \<open>What a tick does\<close>

lemma ack_timer_pending [simp]:
  "s_range_sent s < snd (s_range s) \<Longrightarrow> sender_ack_timer now s = (Inr (), s)"
  by (auto simp: sender_ack_timer_def split: prod.split option.split)

lemma tick_chunk:
  assumes "sender_ok s" and "s_range s = (start, count)"
    and "s_range_sent s < count" and "s_send_deadline s \<le> now"
  obtains s' where
    "sender_tick st now s n
       = Some (Inr (), s', injector.send_all (map (packet_datagram s) (next_packets now s)) now n)"
    and "same_service s s'" and "s_range s' = (start, count)"
    and "s_retry_count s' = s_retry_count s" and "s_rtt_est s' = s_rtt_est s"
    and "unat (s_range_sent s') = unat (s_range_sent s) + min (unat count - unat (s_range_sent s)) 8"
    and "s_ack_deadline s' = (if unat count - unat (s_range_sent s) \<le> 8
           then Some (now + retry_interval st count (s_rtt_est s) (unat (s_retry_count s)))
           else s_ack_deadline s)"
    and "s_send_deadline s' = now + from_millis (unat (pace_ms st)) * min (unat count - unat (s_range_sent s)) 8"
proof (rule send_chunk_step [OF assms, of st n])
  fix s'
  assume chunk: "sender_send_chunk st now s n
       = Some (s', injector.send_all (map (packet_datagram s) (next_packets now s)) now n)"
    and range: "s_range s' = (start, count)"
    and sent: "unat (s_range_sent s') = unat (s_range_sent s) + min (unat count - unat (s_range_sent s)) 8"
    and ack: "s_ack_deadline s' = (if unat count - unat (s_range_sent s) \<le> 8
           then Some (now + retry_interval st count (s_rtt_est s) (unat (s_retry_count s)))
           else s_ack_deadline s)"
    and rest: "same_service s s'" "s_retry_count s' = s_retry_count s" "s_rtt_est s' = s_rtt_est s"
      "s_send_deadline s' = now + from_millis (unat (pace_ms st)) * min (unat count - unat (s_range_sent s)) 8"
  have "sender_ack_timer now s' = (Inr (), s')"
  proof (cases "unat count - unat (s_range_sent s) \<le> 8")
    case True
    with ack retry_interval_pos [of st count "s_rtt_est s" "unat (s_retry_count s)"] show ?thesis
      by (simp add: sender_ack_timer_def range)
  next
    case False
    then show ?thesis using sent by (intro ack_timer_pending) (simp add: range word_less_nat_alt)
  qed
  with chunk have "sender_tick st now s n
       = Some (Inr (), s', injector.send_all (map (packet_datagram s) (next_packets now s)) now n)"
    by (simp add: sender_tick_def)
  then show ?thesis by (rule that) (fact rest range sent ack)+
qed

lemma tick_no_chunk:
  assumes "\<not> (s_range_sent s < snd (s_range s) \<and> s_send_deadline s \<le> now)"
  shows "sender_tick st now s n = (case sender_ack_timer now s of (r, s') \<Rightarrow> Some (r, s', n))
    \<and> next_packets now s = []"
  using assms
  by (auto simp: sender_tick_def sender_send_chunk_def next_packets_def Let_def word_less_nat_alt
      split: prod.split)

lemma ack_timer_step:
  assumes "sender_ok s" and "sender_ack_timer now s = (r, s')"
  shows "same_service s s'
    \<and> (if r = Inr () then sender_ok s'
       else r = Inl (s_transfer_id s, s_range s) \<and> unat (s_retry_count s') = 31)"
  using assms unat_retry_step [of "s_retry_count s"]
  by (auto simp: sender_ack_timer_def same_service_def sender_ok_def SENDER_RETRY_LIMIT_def
      word_less_nat_alt Let_def split: prod.splits option.splits if_splits)

text \<open>Every tick of a well-formed sender: what it returns and what it hands to the carrier.\<close>

lemma sender_tick_step:
  assumes "sender_ok s"
  obtains r s' where
    "sender_tick st now s n
       = Some (r, s', injector.send_all (map (packet_datagram s) (next_packets now s)) now n)"
    and "same_service s s'"
    and "if r = Inr () then sender_ok s'
         else r = Inl (s_transfer_id s, s_range s) \<and> unat (s_retry_count s') = 31"
proof (cases "s_range_sent s < snd (s_range s) \<and> s_send_deadline s \<le> now")
  case True
  obtain start count where range: "s_range s = (start, count)" by (cases "s_range s")
  with True have sent: "s_range_sent s < count" and due: "s_send_deadline s \<le> now" by simp_all
  obtain s' where t: "sender_tick st now s n
       = Some (Inr (), s', injector.send_all (map (packet_datagram s) (next_packets now s)) now n)"
    and same: "same_service s s'" and "s_range s' = (start, count)"
    and "s_retry_count s' = s_retry_count s"
    and "unat (s_range_sent s') = unat (s_range_sent s) + min (unat count - unat (s_range_sent s)) 8"
    by (rule tick_chunk [OF assms range sent due, of st n]) blast
  with assms sent have "sender_ok s'"
    by (auto simp: sender_ok_def same_service_def range word_less_nat_alt)
  with t same show ?thesis by (intro that [of "Inr ()" s']) simp_all
next
  case False
  obtain r s' where t: "sender_ack_timer now s = (r, s')" by (cases "sender_ack_timer now s")
  with tick_no_chunk [OF False, of st n] ack_timer_step [OF assms t] show ?thesis
    by (intro that [of r s']) (simp_all add: injector.send_all_def)
qed

lemma content_datagrams_next:
  "sender_ok s \<Longrightarrow> set (map (packet_datagram s) (next_packets now s)) \<subseteq> content_datagrams s"
  using next_packets_bounds by (auto simp: content_datagrams_def)

text \<open>
  The sender is overdue when its window is out and the time its answer was awaited until
  has come.
\<close>

definition overdue :: "instant \<Rightarrow> sender_transfer \<Rightarrow> bool" where
  "overdue now s \<longleftrightarrow> s_range_sent s = snd (s_range s) \<and> (\<exists>t. s_ack_deadline s = Some t \<and> t \<le> now)"

text \<open>The next chunk is due and is the window's last.\<close>

definition last_chunk_due :: "instant \<Rightarrow> sender_transfer \<Rightarrow> bool" where
  "last_chunk_due now s \<longleftrightarrow> s_range_sent s < snd (s_range s) \<and> s_send_deadline s \<le> now
     \<and> unat (snd (s_range s)) \<le> unat (s_range_sent s) + 8"

lemma sender_tick_timer:
  assumes "sender_ok s" and "sender_tick st now s n = Some (r, s', n')"
  shows "(r \<noteq> Inr () \<longleftrightarrow> overdue now s \<and> unat (s_retry_count s) = 30)
    \<and> unat (s_retry_count s') = unat (s_retry_count s) + (if overdue now s then 1 else 0)
    \<and> s_ack_deadline s' =
        (if last_chunk_due now s
         then Some (now + retry_interval st (snd (s_range s)) (s_rtt_est s) (unat (s_retry_count s)))
         else if overdue now s \<and> unat (s_retry_count s) < 30 then None else s_ack_deadline s)
    \<and> s_range s' = s_range s"
proof -
  obtain start count where range: "s_range s = (start, count)" by (cases "s_range s")
  have le: "s_range_sent s \<le> count" "unat (s_retry_count s) \<le> 30"
    using assms(1) by (simp_all add: sender_ok_def range word_le_nat_alt)
  show ?thesis
  proof (cases "s_range_sent s < count \<and> s_send_deadline s \<le> now")
    case True
    then have sent: "s_range_sent s < count" and due: "s_send_deadline s \<le> now" by simp_all
    have "last_chunk_due now s \<longleftrightarrow> unat count - unat (s_range_sent s) \<le> 8"
      using True by (auto simp: last_chunk_due_def range word_less_nat_alt)
    moreover have "\<not> overdue now s" using sent by (auto simp: overdue_def range)
    moreover obtain s1 where "r = Inr ()" "s' = s1" "s_range s1 = (start, count)" "s_retry_count s1 = s_retry_count s"
      "s_ack_deadline s1 = (if unat count - unat (s_range_sent s) \<le> 8
         then Some (now + retry_interval st count (s_rtt_est s) (unat (s_retry_count s))) else s_ack_deadline s)"
      by (rule tick_chunk [OF assms(1) range sent due, of st n]) (use assms(2) in simp)
    ultimately show ?thesis by (simp add: range)
  next
    case False
    then have t: "sender_ack_timer now s = (r, s')"
      using tick_no_chunk [of s now st n] assms(2) by (simp add: range split: prod.splits)
    have last: "\<not> last_chunk_due now s" using False by (auto simp: last_chunk_due_def range)
    have sent: "s_range_sent s \<ge> count \<longleftrightarrow> s_range_sent s = count" using le(1) by auto
    show ?thesis
    proof (cases "overdue now s")
      case False
      then have "r = Inr () \<and> s' = s"
        using t sent by (auto simp: sender_ack_timer_def overdue_def range split: option.splits if_splits)
      with False last show ?thesis by simp
    next
      case True
      then obtain u where u: "s_ack_deadline s = Some u" "u \<le> now" "s_range_sent s = count"
        by (auto simp: overdue_def range)
      let ?s = "s\<lparr>s_retry_count := s_retry_count s + 1\<rparr>"
      have step: "unat (s_retry_count s + 1) = unat (s_retry_count s) + 1" using le(2) by (simp add: unat_retry_step)
      then have limit: "s_retry_count s + 1 > SENDER_RETRY_LIMIT \<longleftrightarrow> unat (s_retry_count s) = 30"
        using le(2) by (auto simp: SENDER_RETRY_LIMIT_def word_less_nat_alt)
      have "(r, s') = (if unat (s_retry_count s) = 30 then (Inl (s_transfer_id s, start, count), ?s)
          else (Inr (), ?s\<lparr>s_range_sent := 0, s_ack_deadline := None, s_send_deadline := now\<rparr>))"
        using t u limit by (simp add: sender_ack_timer_def range Let_def split: if_splits)
      with True last le(2) step show ?thesis by (simp add: range split: if_splits)
    qed
  qed
qed

text \<open>
  A run of ticks at given times: the state before each tick, up to the one that fails, and
  its error.
\<close>

fun sender_trace ::
    "settings \<Rightarrow> instant list \<Rightarrow> sender_transfer \<Rightarrow> net \<Rightarrow> (instant \<times> sender_transfer) list \<times> sender_error option" where
  "sender_trace st [] s n = ([], None)"
| "sender_trace st (t # ts) s n =
     (case sender_tick st t s n of
        None \<Rightarrow> ([], None)
      | Some (Inl e, _, _) \<Rightarrow> ([(t, s)], Some e)
      | Some (Inr _, s', n') \<Rightarrow> (case sender_trace st ts s' n' of (tr, e) \<Rightarrow> ((t, s) # tr, e)))"

lemma sender_trace_overdue:
  "sender_ok s \<Longrightarrow> sender_trace st ts s n = (tr, Some e) \<Longrightarrow>
     length (filter (\<lambda>(t, s). overdue t s) tr) + unat (s_retry_count s) = 31"
proof (induction ts arbitrary: s n tr)
  case (Cons t ts)
  obtain r s' n' where t: "sender_tick st t s n = Some (r, s', n')"
    and ok: "if r = Inr () then sender_ok s' else r = Inl (s_transfer_id s, s_range s) \<and> unat (s_retry_count s') = 31"
    by (rule sender_tick_step [OF Cons.prems(1), of st t n]) blast
  note timer = sender_tick_timer [OF Cons.prems(1) t]
  show ?case
  proof (cases "r = Inr ()")
    case True
    obtain tr' where "sender_trace st ts s' n' = (tr', Some e)" "tr = (t, s) # tr'"
      using Cons.prems(2) t True by (auto split: prod.splits)
    moreover have "sender_ok s'" using ok True by simp
    ultimately show ?thesis using Cons.IH [of s' n' tr'] timer by auto
  next
    case False
    then have "tr = [(t, s)]" using Cons.prems(2) t ok by auto
    then show ?thesis using timer False by auto
  qed
qed simp

lemma sender_trace_times: "sender_trace st ts s n = (tr, e) \<Longrightarrow> prefix (map fst tr) ts"
proof (induction ts arbitrary: s n tr)
  case (Cons t ts)
  then show ?case by (fastforce split: option.splits prod.splits sum.splits)
qed simp

text \<open>C11: A tick of a well-formed sender never panics: it puts nothing into the carrier but
  genuine packets of its file, addressed to its peer, keeps the transfer's identity and
  file, and leaves the sender well formed or fails with the range that was never acknowledged.
  When the last chunk of a window goes out, its answer is awaited for the retry interval; a
  retry is counted exactly at a tick where the whole window is out and that time is over;
  the window is then sent again, until the tick fails when 30 were counted before. So a
  run of ticks, at whatever times, from a sender with no retries counted fails only when at
  31 of its ticks the window had been out and its answer overdue.\<close>

theorem sender_tick_safe:
  assumes "sender_ok s"
  shows "(\<exists>r s' n'. sender_tick st now s n = Some (r, s', n')
    \<and> net_known n' \<subseteq> content_datagrams s \<union> net_known n \<and> same_service s s'
    \<and> (if r = Inr () then sender_ok s' else r = Inl (s_transfer_id s, s_range s))
    \<and> (r \<noteq> Inr () \<longleftrightarrow> overdue now s \<and> unat (s_retry_count s) = 30)
    \<and> unat (s_retry_count s') = unat (s_retry_count s) + (if overdue now s then 1 else 0)
    \<and> s_ack_deadline s' =
        (if last_chunk_due now s
         then Some (now + retry_interval st (snd (s_range s)) (s_rtt_est s) (unat (s_retry_count s)))
         else if overdue now s \<and> unat (s_retry_count s) < 30 then None else s_ack_deadline s))
    \<and> (\<forall>ts tr e. sender_trace st ts s n = (tr, Some e) \<longrightarrow>
         length (filter (\<lambda>(t, s). overdue t s) tr) + unat (s_retry_count s) = 31 \<and> prefix (map fst tr) ts)"
proof
  let ?ds = "map (packet_datagram s) (next_packets now s)"
  have "net_known (injector.send_all ?ds now n) \<subseteq> content_datagrams s \<union> net_known n"
    using injector.send_all_known [of ?ds now n] content_datagrams_next [OF assms, of now] by blast
  moreover obtain r s' where t: "sender_tick st now s n = Some (r, s', injector.send_all ?ds now n)"
    and "same_service s s'"
    and "if r = Inr () then sender_ok s'
         else r = Inl (s_transfer_id s, s_range s) \<and> unat (s_retry_count s') = 31"
    by (rule sender_tick_step [OF assms, of st now n])
  moreover note sender_tick_timer [OF assms t]
  ultimately show "\<exists>r s' n'. sender_tick st now s n = Some (r, s', n')
    \<and> net_known n' \<subseteq> content_datagrams s \<union> net_known n \<and> same_service s s'
    \<and> (if r = Inr () then sender_ok s' else r = Inl (s_transfer_id s, s_range s))
    \<and> (r \<noteq> Inr () \<longleftrightarrow> overdue now s \<and> unat (s_retry_count s) = 30)
    \<and> unat (s_retry_count s') = unat (s_retry_count s) + (if overdue now s then 1 else 0)
    \<and> s_ack_deadline s' =
        (if last_chunk_due now s
         then Some (now + retry_interval st (snd (s_range s)) (s_rtt_est s) (unat (s_retry_count s)))
         else if overdue now s \<and> unat (s_retry_count s) < 30 then None else s_ack_deadline s)"
    by (intro exI [of _ r] exI [of _ s'] exI [of _ "injector.send_all ?ds now n"]) (simp split: if_splits)
  show "\<forall>ts tr e. sender_trace st ts s n = (tr, Some e) \<longrightarrow>
      length (filter (\<lambda>(t, s). overdue t s) tr) + unat (s_retry_count s) = 31 \<and> prefix (map fst tr) ts"
    using sender_trace_overdue [OF assms] sender_trace_times by blast
qed

lemma sender_new_ok: "sender_ok (sender_new tid dst file now)"
proof -
  have "unat (min INITIAL_WINDOW (packet_count (length file))) \<le> unat (packet_count (length file))"
    by (simp add: unat_min)
  then show ?thesis by (simp add: sender_new_def sender_ok_def Let_def)
qed

theorem sender_tick_safe_witness:
  "\<exists>r s' n'. sender_tick (settings_from_env (\<lambda>_. None)) 5 (sender_new 7 (V4 1 2) [1, 2, 3] 5) demo_net
     = Some (r, s', n')
   \<and> net_known n' \<subseteq> content_datagrams (sender_new 7 (V4 1 2) [1, 2, 3] 5) \<union> net_known demo_net"
  using sender_tick_safe [OF sender_new_ok, of "settings_from_env (\<lambda>_. None)" 5 7 "V4 1 2" "[1, 2, 3]" 5 demo_net]
  by blast

lemma sender_ack_step:
  assumes "sender_ok s" and "sender_on_ack st now at a c s = (fin, s')"
  shows "fin = (at = Complete) \<and> sender_ok s' \<and> same_service s s'
    \<and> (at = Complete \<longrightarrow> s' = s)
    \<and> (at = Progress \<longrightarrow> s_range_sent s' = 0 \<and>
        (if 1 \<le> unat a \<and> unat a \<le> unat (s_total s)
         then fst (s_range s') = a
           \<and> unat (snd (s_range s')) = min (unat c) (unat (s_total s) - unat a + 1)
           \<and> s_retry_count s' = 0 \<and> s_ack_deadline s' = None \<and> s_send_deadline s' = now
         else s_range s' = (1, 0)))"
proof (cases at)
  case Complete
  with assms show ?thesis by (auto simp: sender_on_ack_def same_service_def)
next
  case Progress
  have lt: "unat a \<le> 65535" "unat (s_total s) \<le> 65535" using unat_u16_le by blast+
  show ?thesis
  proof (cases "1 \<le> unat a \<and> unat a \<le> unat (s_total s)")
    case True
    let ?c = "ucast (min (ucast c) (ucast (s_total s) - ucast a + 1 :: u32)) :: u16"
    have "unat (ucast (s_total s) - ucast a + 1 :: u32) = unat (s_total s) - unat a + 1"
      using True lt by (subst unat_add_small) (simp_all add: unat_sub_le)
    then have c: "unat ?c = min (unat c) (unat (s_total s) - unat a + 1)"
      using lt unat_u16_le [of c] by (subst unat_ucast_32_16) (simp_all add: unat_min)
    from True have "(1 :: u32) \<le> ucast a \<and> (ucast a :: u32) \<le> ucast (s_total s)"
      by (simp add: word_le_nat_alt)
    with assms True Progress have "s_range s' = (a, ?c)" "s_range_sent s' = 0" "fin = False"
      "s_retry_count s' = 0" "s_ack_deadline s' = None" "s_send_deadline s' = now" "same_service s s'"
      by (auto simp: sender_on_ack_def Let_def same_service_def split: option.splits)
    moreover have "fst (s_range s') = a" "unat (snd (s_range s')) = min (unat c) (unat (s_total s) - unat a + 1)"
      using \<open>s_range s' = (a, ?c)\<close> c by simp_all
    ultimately show ?thesis
      using True Progress assms(1) by (simp add: sender_ok_def same_service_def) linarith
  next
    case False
    then have "\<not> ((1 :: u32) \<le> ucast a \<and> (ucast a :: u32) \<le> ucast (s_total s))"
      by (simp add: word_le_nat_alt)
    with assms False Progress show ?thesis
      by (auto simp: sender_on_ack_def Let_def sender_ok_def same_service_def)
  qed
qed

text \<open>An acknowledgement ends the transfer exactly if it is COMPLETE. A progress range
  whose start is a packet of the file becomes the window, cut to the packets there are, with
  the retries forgiven and the send timer due at once; any other start leaves an empty
  window. The sender stays well formed either way.\<close>

theorem sender_ack_window:
  assumes "sender_ok s" and "sender_on_ack st now at a c s = (fin, s')"
  shows "fin = (at = Complete) \<and> sender_ok s' \<and> same_service s s'
    \<and> (at = Complete \<longrightarrow> s' = s)
    \<and> (at = Progress \<longrightarrow> s_range_sent s' = 0 \<and>
        (if 1 \<le> unat a \<and> unat a \<le> unat (s_total s)
         then fst (s_range s') = a
           \<and> unat (snd (s_range s')) = min (unat c) (unat (s_total s) - unat a + 1)
           \<and> s_retry_count s' = 0 \<and> s_ack_deadline s' = None \<and> s_send_deadline s' = now
         else s_range s' = (1, 0)))"
  using assms by (rule sender_ack_step)

theorem sender_ack_window_witness:
  "\<exists>s'. sender_on_ack (settings_from_env (\<lambda>_. None)) 9 Progress 2 64
          (sender_new 7 (V4 1 2) (replicate 4200 1) 5) = (False, s')
     \<and> unat (snd (s_range s')) = 2"
proof -
  let ?s = "sender_new 7 (V4 1 2) (replicate 4200 1) 5"
  let ?st = "settings_from_env (\<lambda>_. None)"
  obtain fin s' where a: "sender_on_ack ?st 9 Progress 2 64 ?s = (fin, s')"
    by (cases "sender_on_ack ?st 9 Progress 2 64 ?s")
  have "unat (s_total ?s) = 3" by (simp add: sender_new_def unat_packet_count Let_def)
  with sender_ack_window [OF sender_new_ok a] a show ?thesis by simp
qed

section \<open>A window goes out whole\<close>

text \<open>Ticks at the given times; \<open>None\<close> also when one of them fails.\<close>

fun sender_ticks ::
    "settings \<Rightarrow> instant list \<Rightarrow> sender_transfer \<Rightarrow> net \<Rightarrow> (sender_transfer \<times> net) option" where
  "sender_ticks st [] s n = Some (s, n)"
| "sender_ticks st (t # ts) s n =
     (case sender_tick st t s n of
        Some (Inr _, s', n') \<Rightarrow> sender_ticks st ts s' n'
      | _ \<Rightarrow> None)"

lemma sender_ok_chunk:
  assumes "sender_ok s" and "same_service s s'" and "s_range s' = s_range s"
    and "s_retry_count s' = s_retry_count s"
    and "unat (s_range_sent s') = unat (s_range_sent s) + min (unat (snd (s_range s)) - unat (s_range_sent s)) 8"
  shows "sender_ok s'"
  using assms by (auto simp: sender_ok_def same_service_def)

lemma packet_datagram_same: "same_service s s' \<Longrightarrow> packet_datagram s' = packet_datagram s"
  by (simp add: same_service_def packet_datagram_def fun_eq_iff)

lemma chunks_left: "Suc k = (d + 7) div 8 \<Longrightarrow> k = (d - min d 8 + 7) div 8" for k d :: nat
proof (cases "d \<le> 8")
  case False
  then obtain e where "d = 8 + e" using nat_le_linear le_Suc_ex by blast
  moreover assume "Suc k = (d + 7) div 8"
  ultimately show ?thesis by simp
next
  case True
  moreover assume "Suc k = (d + 7) div 8"
  ultimately show ?thesis using div_le_mono [of "d + 7" 15 8] by simp
qed

lemma window_ticks:
  assumes "sender_ok s" and "s_range s = (start, count)" and "clean n"
    and "paced (from_millis (unat (pace_ms st)) * 8) (s_send_deadline s) ts"
    and "length ts = (unat count - unat (s_range_sent s) + 7) div 8"
  shows "\<exists>s' n'. sender_ticks st ts s n = Some (s', n')
    \<and> wire (snd n') = wire (snd n)
        @ map (packet_datagram s) [unat start + unat (s_range_sent s)..<unat start + unat count]
    \<and> clean n' \<and> sender_ok s'
    \<and> same_service s s' \<and> s_range s' = (start, count) \<and> s_range_sent s' = count
    \<and> s_ack_deadline s' = (if ts = [] then s_ack_deadline s
         else Some (last ts + retry_interval st count (s_rtt_est s) (unat (s_retry_count s))))"
  using assms
proof (induction ts arbitrary: s n)
  case Nil
  then have "unat (s_range_sent s) \<le> unat count" and "(unat count - unat (s_range_sent s) + 7) div 8 = 0"
    by (simp_all add: sender_ok_def)
  then have "unat (s_range_sent s) = unat count" by linarith
  then show ?case using Nil by (simp add: same_service_def word_unat_eq_iff)
next
  case (Cons t ts)
  let ?sent = "unat (s_range_sent s)" and ?gap = "from_millis (unat (pace_ms st)) * 8"
  have left: "?sent < unat count" using Cons.prems(5) by (cases "unat count - ?sent") auto
  have due: "s_send_deadline s \<le> t" using Cons.prems(4) by simp
  let ?n = "injector.send_all (map (packet_datagram s) (next_packets t s)) t n"
  obtain s1 where t: "sender_tick st t s n = Some (Inr (), s1, ?n)"
    and same: "same_service s s1" and range: "s_range s1 = (start, count)"
    and keep: "s_retry_count s1 = s_retry_count s" "s_rtt_est s1 = s_rtt_est s"
    and sent: "unat (s_range_sent s1) = ?sent + min (unat count - ?sent) 8"
    and ack: "s_ack_deadline s1 = (if unat count - ?sent \<le> 8
           then Some (t + retry_interval st count (s_rtt_est s) (unat (s_retry_count s)))
           else s_ack_deadline s)"
    and dl: "s_send_deadline s1 = t + from_millis (unat (pace_ms st)) * min (unat count - ?sent) 8"
    using tick_chunk [OF Cons.prems(1,2) _ due, of st n] left by (auto simp: word_less_nat_alt)
  have ok1: "sender_ok s1"
    using sender_ok_chunk [OF Cons.prems(1) same] sent by (simp add: range keep Cons.prems(2))
  have np: "next_packets t s = [unat start + ?sent..<unat start + unat (s_range_sent s1)]"
    using left due by (simp add: next_packets_def Let_def Cons.prems(2) sent add.assoc)
  have n1: "clean ?n" "wire (snd ?n) = wire (snd n) @ map (packet_datagram s) (next_packets t s)"
    using clean_send_all [OF Cons.prems(3)] by blast+
  have "s_send_deadline s1 \<le> t + ?gap"
    by (simp add: dl)
  then have "paced ?gap (s_send_deadline s1) ts"
    using Cons.prems(4) by (auto elim: paced_le)
  moreover have len: "length ts = (unat count - unat (s_range_sent s1) + 7) div 8"
  proof -
    have "length ts = (unat count - ?sent - min (unat count - ?sent) 8 + 7) div 8"
      using Cons.prems(5) by (intro chunks_left) simp
    then show ?thesis by (simp add: sent)
  qed
  ultimately obtain s' n' where r: "sender_ticks st ts s1 ?n = Some (s', n')"
    and w: "wire (snd n') = wire (snd ?n)
        @ map (packet_datagram s1) [unat start + unat (s_range_sent s1)..<unat start + unat count]"
    and fin: "clean n'" "sender_ok s'" "same_service s1 s'" "s_range s' = (start, count)" "s_range_sent s' = count"
    and a: "s_ack_deadline s' = (if ts = [] then s_ack_deadline s1
         else Some (last ts + retry_interval st count (s_rtt_est s1) (unat (s_retry_count s1))))"
    using Cons.IH [OF ok1 range n1(1)] by blast
  have "unat (s_range_sent s1) \<le> unat count" using sent left by linarith
  then have "[unat start + ?sent..<unat start + unat (s_range_sent s1)]
      @ [unat start + unat (s_range_sent s1)..<unat start + unat count]
      = [unat start + ?sent..<unat start + unat count]"
    using sent upt_add_eq_append [of "unat start + ?sent" "unat start + unat (s_range_sent s1)"
      "unat count - unat (s_range_sent s1)"] by simp
  then have "wire (snd n') = wire (snd n)
        @ map (packet_datagram s) [unat start + ?sent..<unat start + unat count]"
    using w n1(2) np by (simp add: packet_datagram_same [OF same] flip: map_append)
  moreover have "ts = [] \<Longrightarrow> unat count - ?sent \<le> 8"
    using Cons.prems(5) by simp
  ultimately show ?case
    using t r fin a ack keep same by (auto simp: same_service_def)
qed

text \<open>On a clean link a window is sent completely, in order, each packet exactly once:
  ticks at least eight pacing periods apart, one for every eight packets, put exactly the
  packets of the range on the wire and then arm the acknowledgement timer.\<close>

theorem window_sent:
  assumes "sender_ok s" and "s_range s = (start, count)" and "s_range_sent s = 0"
    and "clean n" and "paced (from_millis (unat (pace_ms st)) * 8) (s_send_deadline s) ts"
    and "length ts = (unat count + 7) div 8" and "ts \<noteq> []"
  shows "\<exists>s' n'. sender_ticks st ts s n = Some (s', n')
    \<and> wire (snd n') = wire (snd n) @ map (packet_datagram s) [unat start..<unat start + unat count]
    \<and> s_range_sent s' = count
    \<and> s_ack_deadline s'
        = Some (last ts + retry_interval st count (s_rtt_est s) (unat (s_retry_count s)))"
  using window_ticks [OF assms(1,2,4,5)] assms(3,6,7) by auto

theorem window_sent_witness:
  "\<exists>s' n'. sender_ticks (settings_from_env (\<lambda>_. None)) [0]
       (sender_new 7 (V4 1 2) [1, 2, 3] 0)
       (fault_from_env (\<lambda>_. None) None 0, \<lparr>accepts = \<lambda>_. True, wire = []\<rparr>) = Some (s', n')
   \<and> wire (snd n') = [(encode (SegmentContents 7 1 1 [1, 2, 3]), V4 1 2)]"
proof -
  let ?s = "sender_new 7 (V4 1 2) [1, 2, 3] 0"
  have pc: "packet_count 3 = 1" by (simp add: word_unat_eq_iff unat_packet_count)
  then have r: "s_range ?s = (1, 1)"
    by (simp add: sender_new_def Let_def INITIAL_WINDOW_def numeral_3_eq_3)
  have "clean (fault_from_env (\<lambda>_. None) None 0, \<lparr>accepts = \<lambda>_. True, wire = []\<rparr>)"
    by (simp add: clean_def fault_from_env_def fault_enabled_def accepting_def)
  from window_sent [OF sender_new_ok r _ this, of "settings_from_env (\<lambda>_. None)" "[0]"] pc
  obtain s' n' where "sender_ticks (settings_from_env (\<lambda>_. None)) [0] ?s
       (fault_from_env (\<lambda>_. None) None 0, \<lparr>accepts = \<lambda>_. True, wire = []\<rparr>) = Some (s', n')"
    and "wire (snd n') = [packet_datagram ?s 1]"
    by (auto simp: sender_new_def Let_def)
  moreover have "packet_datagram ?s 1 = (encode (SegmentContents 7 1 1 [1, 2, 3]), V4 1 2)"
    using pc by (simp add: sender_new_def packet_datagram_def chunk_def SEGMENT_PACKET_SIZE_def Let_def
        numeral_3_eq_3)
  ultimately show ?thesis by auto
qed

section \<open>A sender that hears nothing gives up\<close>

text \<open>The sender alone, woken at each of its deadlines, until a tick fails.\<close>

fun sender_run :: "settings \<Rightarrow> nat \<Rightarrow> sender_transfer \<Rightarrow> net \<Rightarrow> (sender_error \<times> net) option" where
  "sender_run st 0 s n = None"
| "sender_run st (Suc fuel) s n =
     (case sender_tick st (sender_deadline s) s n of
        Some (Inl e, s', n') \<Rightarrow> Some (e, n')
      | Some (Inr _, s', n') \<Rightarrow> sender_run st fuel s' n'
      | None \<Rightarrow> None)"

text \<open>A window with packets whose timer is armed once it is sent, and the wake-ups left.\<close>

definition armed :: "sender_transfer \<Rightarrow> bool" where
  "armed s \<longleftrightarrow> snd (s_range s) \<noteq> 0
     \<and> (s_range_sent s < snd (s_range s) \<or> s_ack_deadline s \<noteq> None)"

definition wakeups_left :: "sender_transfer \<Rightarrow> nat" where
  "wakeups_left s = (30 - unat (s_retry_count s)) * (unat (snd (s_range s)) + 1)
     + (unat (snd (s_range s)) - unat (s_range_sent s)) + 1"

lemma sender_wakeup:
  assumes "sender_ok s" and "armed s"
  shows "\<exists>r s' n'. sender_tick st (sender_deadline s) s n = Some (r, s', n')
    \<and> (r = Inl (s_transfer_id s, s_range s)
       \<or> r = Inr () \<and> sender_ok s' \<and> armed s' \<and> wakeups_left s' < wakeups_left s
         \<and> s_transfer_id s' = s_transfer_id s \<and> s_range s' = s_range s)"
proof -
  obtain start count where range: "s_range s = (start, count)" by (cases "s_range s")
  show ?thesis
  proof (cases "s_range_sent s < count")
    case True
    let ?now = "s_send_deadline s"
    have d: "sender_deadline s = ?now" using True by (auto simp: sender_deadline_def range)
    have left: "unat (s_range_sent s) < unat count" using True by (simp add: word_less_nat_alt)
    obtain s' where t: "sender_tick st ?now s n
         = Some (Inr (), s', injector.send_all (map (packet_datagram s) (next_packets ?now s)) ?now n)"
      and same: "same_service s s'" and r: "s_range s' = (start, count)"
      and keep: "s_retry_count s' = s_retry_count s"
      and sent: "unat (s_range_sent s') = unat (s_range_sent s) + min (unat count - unat (s_range_sent s)) 8"
      and ack: "s_ack_deadline s' = (if unat count - unat (s_range_sent s) \<le> 8
             then Some (?now + retry_interval st count (s_rtt_est s) (unat (s_retry_count s)))
             else s_ack_deadline s)"
      by (rule tick_chunk [OF assms(1) range True order_refl, of st n]) blast
    have "sender_ok s'"
      using sender_ok_chunk [OF assms(1) same] sent by (simp add: r range keep)
    moreover have "armed s'"
      using assms(2) left by (auto simp: armed_def r range ack word_less_nat_alt sent)
    moreover have "wakeups_left s' < wakeups_left s"
      using left by (simp add: wakeups_left_def r range keep sent)
    ultimately show ?thesis using t same by (auto simp: d range r same_service_def)
  next
    case False
    with assms(2) obtain t where ack: "s_ack_deadline s = Some t"
      by (auto simp: armed_def range)
    with False have d: "sender_deadline s = t" by (auto simp: sender_deadline_def range)
    have sent: "unat (s_range_sent s) = unat count"
      using False assms(1) by (simp add: word_less_nat_alt sender_ok_def range)
    have pos: "0 < unat count" using assms(2) by (simp add: armed_def range unat_gt_0)
    have tick: "sender_tick st t s n = (case sender_ack_timer t s of (r, s') \<Rightarrow> Some (r, s', n))"
      using tick_no_chunk [of s t st n] False by (simp add: range)
    show ?thesis
    proof (cases "unat (s_retry_count s) = 30")
      case True
      then have "sender_ack_timer t s
          = (Inl (s_transfer_id s, start, count), s\<lparr>s_retry_count := s_retry_count s + 1\<rparr>)"
        using False by (simp add: sender_ack_timer_def range ack Let_def SENDER_RETRY_LIMIT_def
            word_less_nat_alt word_le_nat_alt unat_retry_step not_less)
      with tick show ?thesis by (simp add: d range)
    next
      case less: False
      then have lt: "unat (s_retry_count s) < 30" using assms(1) by (simp add: sender_ok_def)
      then have step: "unat (s_retry_count s + 1) = unat (s_retry_count s) + 1"
        by (simp add: unat_retry_step)
      let ?s = "s\<lparr>s_retry_count := s_retry_count s + 1, s_range_sent := 0,
                  s_ack_deadline := None, s_send_deadline := t\<rparr>"
      have "sender_ack_timer t s = (Inr (), ?s)"
        using False lt by (simp add: sender_ack_timer_def range ack Let_def SENDER_RETRY_LIMIT_def
            word_less_nat_alt word_le_nat_alt step not_less)
      moreover have "sender_ok ?s"
        using assms(1) lt by (auto simp: sender_ok_def range step)
      moreover have "armed ?s" using pos by (simp add: armed_def range word_less_nat_alt unat_gt_0)
      moreover have "wakeups_left ?s < wakeups_left s"
      proof -
        have "30 - unat (s_retry_count s) = Suc (30 - (unat (s_retry_count s) + 1))" using lt by simp
        then show ?thesis by (simp add: wakeups_left_def range step sent)
      qed
      ultimately show ?thesis using tick by (auto simp: d range)
    qed
  qed
qed

text \<open>C18: A sender whose peer has gone silent always gives up: woken at its own deadlines it
  fails after at most 31 rounds of its window, each packet counted once, and the error names
  the range that was never acknowledged; it cannot hold its slot for ever.\<close>

theorem sender_gives_up:
  assumes "sender_ok s" and "armed s" and "31 * (unat (snd (s_range s)) + 1) \<le> fuel"
  shows "\<exists>n'. sender_run st fuel s n = Some ((s_transfer_id s, s_range s), n')"
proof -
  have "wakeups_left s \<le> fuel \<Longrightarrow> ?thesis"
    using assms(1,2)
  proof (induction fuel arbitrary: s n)
    case 0
    then show ?case by (simp add: wakeups_left_def)
  next
    case (Suc fuel)
    from sender_wakeup [OF Suc.prems(2,3), of st n] obtain r s' n' where
      t: "sender_tick st (sender_deadline s) s n = Some (r, s', n')"
      and cases: "r = Inl (s_transfer_id s, s_range s)
       \<or> r = Inr () \<and> sender_ok s' \<and> armed s' \<and> wakeups_left s' < wakeups_left s
         \<and> s_transfer_id s' = s_transfer_id s \<and> s_range s' = s_range s" by blast
    from cases show ?case
    proof
      assume r: "r = Inr () \<and> sender_ok s' \<and> armed s' \<and> wakeups_left s' < wakeups_left s
         \<and> s_transfer_id s' = s_transfer_id s \<and> s_range s' = s_range s"
      then have "sender_tick st (sender_deadline s) s n = Some (Inr (), s', n')" using t by simp
      then have "sender_run st (Suc fuel) s n = sender_run st fuel s' n'" by simp
      with r Suc.prems(1) Suc.IH [of s' n'] show ?thesis by simp
    qed (simp add: t)
  qed
  moreover have "wakeups_left s \<le> 31 * (unat (snd (s_range s)) + 1)"
  proof -
    have "(30 - unat (s_retry_count s)) * (unat (snd (s_range s)) + 1)
        \<le> 30 * (unat (snd (s_range s)) + 1)" by (intro mult_le_mono1) simp
    then show ?thesis by (simp add: wakeups_left_def)
  qed
  ultimately show ?thesis using assms(3) by (meson le_trans)
qed

theorem sender_gives_up_witness:
  "\<exists>n'. sender_run (settings_from_env (\<lambda>_. None)) 300 (sender_new 7 (V4 1 2) (replicate 4200 1) 0) demo_net
     = Some ((7, 1, 3), n')"
proof -
  let ?s = "sender_new 7 (V4 1 2) (replicate 4200 1) 0"
  have "packet_count 4200 = 3" by (simp add: word_unat_eq_iff unat_packet_count)
  then have r: "s_range ?s = (1, 3)"
    by (simp add: sender_new_def Let_def INITIAL_WINDOW_def min_def)
  then have "armed ?s" by (simp add: armed_def sender_new_def Let_def)
  from sender_gives_up [OF sender_new_ok this, of 300 "settings_from_env (\<lambda>_. None)" demo_net] r
  show ?thesis by (simp add: sender_new_def Let_def)
qed

text \<open>C38: One case escapes that bound: a progress acknowledgement whose start is a packet of the file
  but whose count is zero leaves an empty window with no timer. From then on no tick, at any
  time, changes the sender or sends anything, so it keeps its slot and its retry limit never
  applies; and the deadline it reports is the time of that acknowledgement, already past,
  so the event loop that sleeps until it never sleeps.\<close>

theorem empty_window_stalls:
  assumes "sender_ok s" and "1 \<le> unat a" and "unat a \<le> unat (s_total s)"
    and "sender_on_ack st t Progress a 0 s = (fin, s')"
  shows "\<not> fin \<and> sender_deadline s' = t
    \<and> sender_tick st now s' n = Some (Inr (), s', n)"
proof -
  have le: "(1 :: u32) \<le> ucast a" "(ucast a :: u32) \<le> ucast (s_total s)"
    using assms(2,3) by (simp_all add: word_le_nat_alt)
  then have "\<not> fin \<and> s_range s' = (a, 0) \<and> s_range_sent s' = 0 \<and> s_ack_deadline s' = None
      \<and> s_send_deadline s' = t"
    using assms(4) by (auto simp: sender_on_ack_def Let_def min_def word_le_nat_alt split: option.splits)
  then show ?thesis
    by (simp add: sender_deadline_def sender_tick_def sender_send_chunk_def sender_ack_timer_def)
qed

theorem empty_window_stalls_witness:
  "\<exists>s'. sender_on_ack (settings_from_env (\<lambda>_. None)) 9 Progress 1 0 (sender_new 7 (V4 1 2) [1] 5)
      = (False, s')
    \<and> sender_tick (settings_from_env (\<lambda>_. None)) (from_secs 3600) s' demo_net = Some (Inr (), s', demo_net)"
proof -
  let ?s = "sender_new 7 (V4 1 2) [1] 5" and ?st = "settings_from_env (\<lambda>_. None)"
  obtain fin s' where a: "sender_on_ack ?st 9 Progress 1 0 ?s = (fin, s')"
    by (cases "sender_on_ack ?st 9 Progress 1 0 ?s")
  have "unat (s_total ?s) = 1" by (simp add: sender_new_def unat_packet_count Let_def)
  then show ?thesis using empty_window_stalls [OF sender_new_ok _ _ a, of "from_secs 3600" demo_net] a by simp
qed

end
