(* ===== verification/Receiver.thy ===== *)
theory Receiver
  imports Files
begin

text \<open>
  \<open>ReceiverTransfer\<close> of \<open>src/src/transfer.rs\<close>: the side that downloads a file. It names the
  window it wants, stores the packets of that window, and asks for the next one when the
  window is complete; when every packet is there it writes the file. A Rust panic (a
  subtraction below zero) is \<open>None\<close>. The reasons a transfer fails for are values; the
  sources format them into messages.
\<close>

datatype failure =
    NoResponse
  | RangeIncomplete u16 u16
  | WriteFailed string
  | PeerNotReady
  | PeerLacksSegment

record receiver_transfer =
  r_transfer_id :: u16
  r_remote :: socket_addr
  r_filename :: string
  r_data_dir :: string
  r_packets :: "(u16 \<times> bytes) list"
  r_total :: "u16 option"
  r_range :: "(u16 \<times> u16) option"
  r_retry_count :: u32
  r_first_response_deadline :: instant
  r_quiet_deadline :: instant
  r_deadline :: instant
  r_outcome :: "(failure + unit) option"
  r_unresponsive :: bool
  r_not_found :: bool
  r_retryable_not_found :: bool
  r_started_at :: instant
  r_gap_est :: duration
  r_backoff :: u32
  r_last_arrival :: "instant option"
  r_first_packet_latency :: "u64 option"
  r_request_resent :: bool
  r_saved_bytes :: "u64 option"

definition receiver_new ::
    "settings \<Rightarrow> u16 \<Rightarrow> socket_addr \<Rightarrow> string \<Rightarrow> string \<Rightarrow> instant \<Rightarrow> receiver_transfer" where
  "receiver_new st transfer_id remote filename data_dir now =
     \<lparr>r_transfer_id = transfer_id, r_remote = remote, r_filename = filename,
      r_data_dir = data_dir, r_packets = [], r_total = None, r_range = None,
      r_retry_count = 0,
      r_first_response_deadline = now + from_millis (unat (first_timeout_ms st)),
      r_quiet_deadline = now + quiet_period st, r_deadline = now + quiet_period st,
      r_outcome = None, r_unresponsive = False, r_not_found = False,
      r_retryable_not_found = False, r_started_at = now, r_gap_est = quiet_period st,
      r_backoff = 0, r_last_arrival = None, r_first_packet_latency = None,
      r_request_resent = False, r_saved_bytes = None\<rparr>"

definition receiver_fail :: "failure \<Rightarrow> instant \<Rightarrow> receiver_transfer \<Rightarrow> receiver_transfer" where
  "receiver_fail reason now r = r\<lparr>r_outcome := Some (Inl reason), r_deadline := now + COMPLETE_GRACE\<rparr>"

definition fail_unresponsive :: "failure \<Rightarrow> instant \<Rightarrow> receiver_transfer \<Rightarrow> receiver_transfer" where
  "fail_unresponsive reason now r = receiver_fail reason now (r\<lparr>r_unresponsive := True\<rparr>)"

definition mark_not_found :: "bool \<Rightarrow> receiver_transfer \<Rightarrow> receiver_transfer" where
  "mark_not_found retryable r =
     r\<lparr>r_retryable_not_found := retryable, r_not_found := \<not> retryable\<rparr>"

definition recompute_deadline :: "receiver_transfer \<Rightarrow> receiver_transfer" where
  "recompute_deadline r = r\<lparr>r_deadline := min (r_first_response_deadline r) (r_quiet_deadline r)\<rparr>"

definition send_ack :: "u16 \<times> u16 \<Rightarrow> instant \<Rightarrow> receiver_transfer \<Rightarrow> net \<Rightarrow> net" where
  "send_ack window now r n =
     (case window of (start, count) \<Rightarrow>
        fault_send (encode (Ack (r_transfer_id r) Progress start count)) (r_remote r) now n)"

definition send_complete :: "instant \<Rightarrow> receiver_transfer \<Rightarrow> net \<Rightarrow> net" where
  "send_complete now r n =
     fault_send (encode (Ack (r_transfer_id r) Complete 0 0)) (r_remote r) now n"

definition has_packet :: "receiver_transfer \<Rightarrow> u16 \<Rightarrow> bool" where
  "has_packet r pn \<longleftrightarrow> map_of (r_packets r) pn \<noteq> None"

definition range_complete :: "receiver_transfer \<Rightarrow> u16 \<Rightarrow> u16 \<Rightarrow> bool" where
  "range_complete r start count =
     (let end = ucast start + ucast count :: u32 in
      list_all (\<lambda>pn. has_packet r (of_nat pn)) [unat start..<unat end])"

section \<open>Writing the file\<close>

text \<open>
  One step of the loop over the packet map: place the payload where it fits and remember
  where the last packet ends. The accumulator is the buffer and the final size.
\<close>

definition place_packet :: "nat \<Rightarrow> u16 \<times> bytes \<Rightarrow> bytes \<times> nat \<Rightarrow> (bytes \<times> nat) option" where
  "place_packet tot packet acc =
     (case (packet, acc) of ((pn, payload), (buffer, final_size)) \<Rightarrow>
        if pn = 0 then None
        else
          let pos = (unat pn - 1) * SEGMENT_PACKET_SIZE;
              buffer' = (if pos + length payload \<le> length buffer
                         then take pos buffer @ payload @ drop (pos + length payload) buffer
                         else buffer);
              final_size' = (if unat pn = tot then pos + length payload else final_size) in
          Some (buffer', final_size'))"

fun place_packets :: "nat \<Rightarrow> (u16 \<times> bytes) list \<Rightarrow> bytes \<times> nat \<Rightarrow> (bytes \<times> nat) option" where
  "place_packets tot [] acc = Some acc"
| "place_packets tot (p # ps) acc =
     (case place_packet tot p acc of None \<Rightarrow> None | Some acc' \<Rightarrow> place_packets tot ps acc')"

definition assemble :: "nat \<Rightarrow> (u16 \<times> bytes) list \<Rightarrow> bytes option" where
  "assemble tot packets =
     (case place_packets tot packets (replicate (tot * SEGMENT_PACKET_SIZE) 0, 0) of
        None \<Rightarrow> None
      | Some (buffer, final_size) \<Rightarrow>
          let final_size = (if final_size > length buffer then length buffer else final_size) in
          Some (take final_size buffer))"

definition receiver_complete ::
    "instant \<Rightarrow> receiver_transfer \<Rightarrow> file_system \<Rightarrow> net
      \<Rightarrow> (receiver_transfer \<times> file_system \<times> net) option" where
  "receiver_complete now r fs n =
     (let tot = unat (case r_total r of Some t \<Rightarrow> t | None \<Rightarrow> 0) in
      case assemble tot (r_packets r) of
        None \<Rightarrow> None
      | Some contents \<Rightarrow>
          let real = path_join (r_data_dir r) (r_filename r);
              tmp = path_join (r_data_dir r) (r_filename r @ ''.tmp'');
              (written, fs) =
                (case fs_write tmp contents fs of
                   (False, fs) \<Rightarrow> (False, fs)
                 | (True, fs) \<Rightarrow> fs_rename tmp real fs) in
          if \<not> written then Some (receiver_fail (WriteFailed real) now r, fs, n)
          else
            let r = r\<lparr>r_saved_bytes := Some (of_nat (length contents))\<rparr>;
                n = send_complete now r n in
            Some (r\<lparr>r_outcome := Some (Inr ()), r_deadline := now + COMPLETE_GRACE\<rparr>, fs, n))"

section \<open>Receiving\<close>

definition receiver_advance ::
    "settings \<Rightarrow> instant \<Rightarrow> u16 \<Rightarrow> u16 \<Rightarrow> u16 \<Rightarrow> receiver_transfer \<Rightarrow> file_system \<Rightarrow> net
      \<Rightarrow> (receiver_transfer \<times> file_system \<times> net) option" where
  "receiver_advance st now start count tot r fs n =
     (let next_start = ucast start + ucast count :: u32 in
      if next_start > ucast tot then None
      else
        let remaining = ucast tot - next_start + 1 in
        if remaining = 0 then receiver_complete now r fs n
        else
          let next_count = min (min (ucast count * 2) (ucast MAX_WINDOW)) remaining;
              window = (ucast next_start, ucast next_count);
              r = r\<lparr>r_range := Some window, r_retry_count := 0,
                    r_quiet_deadline := now + adaptive_quiet st (r_gap_est r) 0\<rparr> in
          Some (r, fs, send_ack window now r n))"

text \<open>The first content packet fixes the total and opens the initial window.\<close>

definition first_content ::
    "settings \<Rightarrow> instant \<Rightarrow> u16 \<Rightarrow> receiver_transfer \<Rightarrow> receiver_transfer" where
  "first_content st now total_packets r =
     (case r_total r of
        Some _ \<Rightarrow> r
      | None \<Rightarrow>
          let count = min INITIAL_WINDOW total_packets in
          r\<lparr>r_total := Some total_packets,
            r_first_packet_latency := Some (of_nat (as_millis (duration_since now (r_started_at r)))),
            r_range := Some (1, count),
            r_first_response_deadline := now + from_secs 3600,
            r_quiet_deadline := now + adaptive_quiet st (r_gap_est r) 0\<rparr>)"

definition store_packet ::
    "settings \<Rightarrow> instant \<Rightarrow> u16 \<Rightarrow> bytes \<Rightarrow> receiver_transfer \<Rightarrow> receiver_transfer" where
  "store_packet st now packet_number data r =
     (let r = (case r_last_arrival r of
                 Some prev \<Rightarrow> r\<lparr>r_gap_est := (r_gap_est r * 3 + duration_since now prev) div 4\<rparr>
               | None \<Rightarrow> r);
          r = r\<lparr>r_last_arrival := Some now, r_backoff := 0,
                r_packets := AList.update packet_number data (r_packets r)\<rparr> in
      r\<lparr>r_quiet_deadline := now + adaptive_quiet st (r_gap_est r) (unat (r_backoff r))\<rparr>)"

definition receiver_on_content ::
    "settings \<Rightarrow> instant \<Rightarrow> u16 \<Rightarrow> u16 \<Rightarrow> bytes \<Rightarrow> receiver_transfer \<Rightarrow> file_system \<Rightarrow> net
      \<Rightarrow> (receiver_transfer \<times> file_system \<times> net) option" where
  "receiver_on_content st now packet_number total_packets data r fs n =
     (case r_outcome r of
        Some outcome \<Rightarrow> Some (r, fs, if outcome = Inr () then send_complete now r n else n)
      | None \<Rightarrow>
          let r = first_content st now total_packets r in
          (case r_total r of
             None \<Rightarrow> Some (r, fs, n)
           | Some tot \<Rightarrow>
               if packet_number = 0 \<or> packet_number > tot then Some (r, fs, n)
               else
                 (case r_range r of
                    None \<Rightarrow> Some (r, fs, n)
                  | Some (start, count) \<Rightarrow>
                      if (ucast packet_number :: u32) < ucast start
                         \<or> (ucast packet_number :: u32) \<ge> ucast start + ucast count
                      then Some (r, fs, send_ack (start, count) now r n)
                      else if has_packet r packet_number then Some (r, fs, n)
                      else
                        let r = store_packet st now packet_number data r in
                        if of_nat (length (r_packets r)) \<ge> (ucast tot :: u32)
                        then receiver_complete now r fs n
                        else if range_complete r start count
                        then receiver_advance st now start count tot r fs n
                        else Some (r, fs, n))))"

section \<open>Timers\<close>

definition resend_request ::
    "settings \<Rightarrow> instant \<Rightarrow> receiver_transfer \<Rightarrow> net \<Rightarrow> receiver_transfer \<times> net" where
  "resend_request st now r n =
     (if r_packets r = [] \<and> \<not> r_request_resent r then
        (let timeout = from_millis (unat (first_timeout_ms st)) in
         if now \<ge> r_started_at r + timeout div 2 then
           (let r = r\<lparr>r_request_resent := True, r_first_response_deadline := now + timeout\<rparr> in
            (r, fault_send (encode (SegmentRequest (r_transfer_id r) (r_filename r))) (r_remote r) now n))
         else (r, n))
      else (r, n))"

text \<open>The quiet timer, and the end of the tick that recomputes the deadline if it acted.\<close>

definition quiet_timer ::
    "settings \<Rightarrow> instant \<Rightarrow> receiver_transfer \<Rightarrow> net \<Rightarrow> receiver_transfer \<times> net" where
  "quiet_timer st now r n =
     (if now \<ge> r_quiet_deadline r then
        (let r = r\<lparr>r_backoff := min (r_backoff r + 1) 4\<rparr>;
             r = r\<lparr>r_quiet_deadline := now + adaptive_quiet st (r_gap_est r) (unat (r_backoff r))\<rparr> in
         case r_range r of
           Some (start, count) \<Rightarrow>
             if \<not> range_complete r start count then
               (let r = r\<lparr>r_retry_count := r_retry_count r + 1\<rparr> in
                if r_retry_count r > RETRY_LIMIT
                then (receiver_fail (RangeIncomplete start count) now r, n)
                else (recompute_deadline r, send_ack (start, count) now r n))
             else (recompute_deadline r, n)
         | None \<Rightarrow> (recompute_deadline r, n))
      else (r, n))"

definition receiver_on_tick ::
    "settings \<Rightarrow> instant \<Rightarrow> receiver_transfer \<Rightarrow> net \<Rightarrow> receiver_transfer \<times> net" where
  "receiver_on_tick st now r n =
     (if r_outcome r \<noteq> None then (r, n)
      else
        case resend_request st now r n of (r, n) \<Rightarrow>
          if now \<ge> r_first_response_deadline r \<and> r_packets r = []
          then (fail_unresponsive NoResponse now r, n)
          else quiet_timer st now r n)"

section \<open>Genuine packets make the file\<close>

text \<open>
  \<open>genuine file ps\<close>: every stored packet is a packet of the file, under its own number.
\<close>

definition genuine :: "bytes \<Rightarrow> (u16 \<times> bytes) list \<Rightarrow> bool" where
  "genuine file ps \<longleftrightarrow> (\<forall>(pn, data) \<in> set ps.
     1 \<le> unat pn \<and> unat pn \<le> unat (packet_count (length file)) \<and> data = chunk file (unat pn))"

text \<open>The positions of the file that the packets of a list of numbers cover.\<close>

definition covered :: "bytes \<Rightarrow> u16 set \<Rightarrow> nat set" where
  "covered file pns = (\<Union>pn \<in> pns. {(unat pn - 1) * 1400..<(unat pn - 1) * 1400 + length (chunk file (unat pn))})"

text \<open>Where a packet ends in the file.\<close>

definition packet_end :: "bytes \<Rightarrow> nat \<Rightarrow> nat" where
  "packet_end file k = (k - 1) * 1400 + length (chunk file k)"

lemma place_packet_genuine:
  assumes "1 \<le> unat pn" and "unat pn \<le> tot" and "length buffer = tot * 1400"
  shows "\<exists>buffer'. place_packet tot (pn, chunk file (unat pn)) (buffer, fin)
      = Some (buffer', if unat pn = tot then packet_end file tot else fin)
    \<and> length buffer' = length buffer
    \<and> (\<forall>j < length buffer. buffer' ! j = (if j \<in> covered file {pn} then file ! j else buffer ! j))"
proof -
  let ?c = "chunk file (unat pn)"
  obtain pos where pos: "pos = (unat pn - 1) * 1400" by simp
  let ?b = "take pos buffer @ ?c @ drop (pos + length ?c) buffer"
  have "pos + 1400 \<le> tot * 1400"
  proof -
    have "unat pn * 1400 \<le> tot * 1400" using assms(2) by simp
    moreover have "pos + 1400 = unat pn * 1400" using assms(1) by (cases "unat pn") (simp_all add: pos)
    ultimately show ?thesis by linarith
  qed
  then have fit: "pos + length ?c \<le> length buffer"
    using assms(3) by (simp add: length_chunk)
  have c: "?c ! i = file ! (pos + i)" if "i < length ?c" for i
  proof -
    have "i < 1400" "i < length file - pos" using that by (simp_all add: length_chunk pos)
    then have "pos \<le> length file" "i < 1400" by linarith+
    then show ?thesis using pos by (simp add: chunk_def SEGMENT_PACKET_SIZE_def)
  qed
  have "covered file {pn} = {pos..<pos + length ?c}" by (simp add: covered_def pos)
  then have "?b ! j = (if j \<in> covered file {pn} then file ! j else buffer ! j)" if "j < length buffer" for j
    using fit that c [of "j - pos"] by (auto simp: nth_append min_def not_less)
  moreover have "length ?b = length buffer" using fit by simp
  moreover have "pn \<noteq> 0" using assms(1) by auto
  then have "place_packet tot (pn, ?c) (buffer, fin)
      = Some (?b, if unat pn = tot then packet_end file tot else fin)"
    using fit pos by (simp add: place_packet_def Let_def SEGMENT_PACKET_SIZE_def packet_end_def)
  ultimately show ?thesis by blast
qed

lemma place_packets_genuine:
  assumes "genuine file ps" and "tot = unat (packet_count (length file))"
    and "length buffer = tot * 1400"
  shows "\<exists>buffer'. place_packets tot ps (buffer, fin)
      = Some (buffer', if of_nat tot \<in> fst ` set ps then packet_end file tot else fin)
    \<and> length buffer' = length buffer
    \<and> (\<forall>j < length buffer. buffer' ! j = (if j \<in> covered file (fst ` set ps) then file ! j else buffer ! j))"
  using assms(1,3)
proof (induction ps arbitrary: buffer fin)
  case Nil
  then show ?case by (simp add: covered_def)
next
  case (Cons p ps)
  obtain pn data where p: "p = (pn, data)" by (cases p)
  with Cons.prems have pn: "1 \<le> unat pn" "unat pn \<le> tot" and d: "data = chunk file (unat pn)"
    and ps: "genuine file ps" by (simp_all add: genuine_def assms(2))
  let ?fin = "if unat pn = tot then packet_end file tot else fin"
  obtain b1 where b1: "place_packet tot p (buffer, fin) = Some (b1, ?fin)"
    "length b1 = length buffer"
    "\<forall>j < length buffer. b1 ! j = (if j \<in> covered file {pn} then file ! j else buffer ! j)"
    using place_packet_genuine [OF pn Cons.prems(2)] p d by blast
  have "length b1 = tot * 1400" using b1(2) Cons.prems(2) by simp
  then obtain b2 where b2: "place_packets tot ps (b1, ?fin)
      = Some (b2, if of_nat tot \<in> fst ` set ps then packet_end file tot else ?fin)"
    "length b2 = length b1"
    "\<forall>j < length b1. b2 ! j = (if j \<in> covered file (fst ` set ps) then file ! j else b1 ! j)"
    using Cons.IH [OF ps, of b1 ?fin] by blast
  have tot: "of_nat tot = pn \<longleftrightarrow> unat pn = tot"
    by (auto simp: assms(2) word_unat_eq_iff)
  have "covered file (fst ` set (p # ps)) = covered file {pn} \<union> covered file (fst ` set ps)"
    by (auto simp: covered_def p)
  then have "\<forall>j < length buffer. b2 ! j = (if j \<in> covered file (fst ` set (p # ps)) then file ! j else buffer ! j)"
    using b1(2,3) b2(3) by simp
  moreover have "(if of_nat tot \<in> fst ` set ps then packet_end file tot else ?fin)
      = (if of_nat tot \<in> fst ` set (p # ps) then packet_end file tot else fin)"
    using tot by (auto simp only: p list.set image_insert fst_conv insert_iff split: if_split)
  then have "place_packets tot (p # ps) (buffer, fin) = Some (b2, if of_nat tot \<in> fst ` set (p # ps)
      then packet_end file tot else fin)"
    by (simp only: place_packets.simps b1(1) option.case b2(1))
  moreover have "length b2 = length buffer" using b1(2) b2(2) by simp
  ultimately show ?case by blast
qed

lemma covered_all:
  assumes "pns = {pn. 1 \<le> unat pn \<and> unat pn \<le> unat (packet_count (length file))}"
    and "j < min (unat (packet_count (length file)) * 1400) (length file)"
  shows "j \<in> covered file pns"
proof -
  let ?k = "j div 1400 + 1"
  have k: "?k \<le> unat (packet_count (length file))" using assms(2) by (simp add: less_mult_imp_div_less Suc_le_eq)
  then have u: "unat (of_nat ?k :: u16) = ?k"
    using unat_u16_le [of "packet_count (length file)"] by (intro unat_of_nat_u16) linarith
  then have "of_nat ?k \<in> pns" using k by (simp only: assms(1)) simp
  moreover have "(?k - 1) * 1400 \<le> j" "j < (?k - 1) * 1400 + length (chunk file ?k)"
    using assms(2) div_mult_mod_eq [of j 1400] mod_less_divisor [of 1400 j]
    by (simp_all add: length_chunk) linarith+
  ultimately show ?thesis unfolding covered_def using u by (intro UN_I [of "of_nat ?k"]) simp_all
qed

lemma assemble_genuine:
  assumes "genuine file ps" and "tot = unat (packet_count (length file))"
    and "fst ` set ps = {pn. 1 \<le> unat pn \<and> unat pn \<le> tot}"
  shows "assemble tot ps = Some (take (tot * 1400) file)"
proof -
  have pos: "1 \<le> tot" using packet_count_pos assms(2) by simp
  have last: "of_nat tot \<in> fst ` set ps" using pos by (simp add: assms)
  obtain b where b: "place_packets tot ps (replicate (tot * 1400) 0, 0)
      = Some (b, packet_end file tot)"
    "length b = tot * 1400"
    "\<forall>j < tot * 1400. b ! j = (if j \<in> covered file (fst ` set ps) then file ! j else 0)"
    using place_packets_genuine [OF assms(1,2), of "replicate (tot * 1400) 0" 0] last by auto
  have fin: "packet_end file tot = min (tot * 1400) (length file)"
    using pos packet_count_tight [of "length file"]
    by (cases tot) (auto simp: packet_end_def length_chunk assms(2) [symmetric] min_def)
  have "take (min (tot * 1400) (length file)) b = take (tot * 1400) file"
    using b covered_all [of "fst ` set ps" "file"] assms(2,3)
    by (intro nth_equalityI) (auto simp: min_def)
  then show ?thesis
    using b(1,2) by (simp add: assemble_def SEGMENT_PACKET_SIZE_def fin Let_def)
qed

section \<open>The receiver's invariant\<close>

text \<open>The numbers of the stored packets.\<close>

definition got :: "receiver_transfer \<Rightarrow> nat set" where
  "got r = unat ` fst ` set (r_packets r)"

text \<open>
  While the transfer runs: nothing is stored before the total is known; afterwards the
  packets of all earlier windows are stored, nothing beyond the current window is, and the
  window is not complete (a total of zero leaves it empty).
\<close>

definition window_ok :: "nat \<Rightarrow> u16 \<times> u16 \<Rightarrow> nat set \<Rightarrow> bool" where
  "window_ok tot window ks =
     (case window of (start, count) \<Rightarrow>
        1 \<le> unat start \<and> unat start + unat count \<le> tot + 1
        \<and> {1..<unat start} \<subseteq> ks \<and> ks \<subseteq> {1..<unat start + unat count}
        \<and> (tot = 0 \<or> \<not> {unat start..<unat start + unat count} \<subseteq> ks))"

definition receiver_base :: "receiver_transfer \<Rightarrow> bool" where
  "receiver_base r \<longleftrightarrow>
     distinct (map fst (r_packets r)) \<and> unat (r_retry_count r) \<le> 9 \<and> unat (r_backoff r) \<le> 4"

definition receiver_wf :: "receiver_transfer \<Rightarrow> bool" where
  "receiver_wf r \<longleftrightarrow> receiver_base r
     \<and> (r_outcome r = None \<longrightarrow> unat (r_retry_count r) \<le> 8 \<and>
         (case r_total r of
            None \<Rightarrow> r_packets r = [] \<and> r_range r = None
          | Some tot \<Rightarrow> (\<exists>window. r_range r = Some window \<and> window_ok (unat tot) window (got r))))"

definition same_download :: "receiver_transfer \<Rightarrow> receiver_transfer \<Rightarrow> bool" where
  "same_download r r' \<longleftrightarrow> r_transfer_id r' = r_transfer_id r \<and> r_remote r' = r_remote r
     \<and> r_filename r' = r_filename r \<and> r_data_dir r' = r_data_dir r"

text \<open>The datagrams a receiver may send: acknowledgements of its transfer, to its peer.\<close>

definition ack_datagrams :: "receiver_transfer \<Rightarrow> datagram set" where
  "ack_datagrams r =
     {(encode (Ack (r_transfer_id r) at start count), r_remote r) | at start count. True}"

lemma has_packet_got: "has_packet r pn \<longleftrightarrow> unat pn \<in> got r"
  by (force simp: has_packet_def got_def map_of_eq_None_iff word_unat_eq_iff)

lemma card_got: "distinct (map fst (r_packets r)) \<Longrightarrow> card (got r) = length (r_packets r)"
proof -
  assume d: "distinct (map fst (r_packets r))"
  have "card (got r) = card (fst ` set (r_packets r))"
    unfolding got_def by (rule card_image) (auto simp: inj_on_def word_unat_eq_iff)
  also have "\<dots> = length (map fst (r_packets r))"
    using distinct_card [OF d] by simp
  finally show ?thesis by simp
qed

lemma finite_got [simp]: "finite (got r)"
  by (simp add: got_def)

lemma range_complete_got:
  assumes "unat start + unat count \<le> 65536"
  shows "range_complete r start count \<longleftrightarrow> {unat start..<unat start + unat count} \<subseteq> got r"
proof -
  have "unat (ucast start + ucast count :: u32) = unat start + unat count"
    using assms by (subst unat_add_small) simp_all
  moreover have "has_packet r (of_nat k) \<longleftrightarrow> k \<in> got r" if "k < unat start + unat count" for k
    using that assms by (simp add: has_packet_got unat_of_nat_u16)
  ultimately show ?thesis
    by (auto simp: range_complete_def Let_def list_all_iff subset_iff)
qed

lemma store_packet_fields [simp]:
  "r_range (store_packet st now pn data r) = r_range r"
  "r_total (store_packet st now pn data r) = r_total r"
  "r_outcome (store_packet st now pn data r) = r_outcome r"
  "r_retry_count (store_packet st now pn data r) = r_retry_count r"
  "r_backoff (store_packet st now pn data r) = 0"
  "r_packets (store_packet st now pn data r) = AList.update pn data (r_packets r)"
  "r_deadline (store_packet st now pn data r) = r_deadline r"
  "same_download r (store_packet st now pn data r)"
  by (simp_all add: store_packet_def Let_def same_download_def split: option.split)

lemma got_store [simp]: "got (store_packet st now pn data r) = insert (unat pn) (got r)"
  by (simp only: got_def store_packet_fields AList.dom_update image_Un) simp

lemma receiver_new_wf: "receiver_wf (receiver_new st tid dst name dir now)"
  by (simp add: receiver_wf_def receiver_base_def receiver_new_def)

lemma first_content_fields [simp]:
  "r_packets (first_content st now tot r) = r_packets r"
  "r_outcome (first_content st now tot r) = r_outcome r"
  "r_retry_count (first_content st now tot r) = r_retry_count r"
  "r_backoff (first_content st now tot r) = r_backoff r"
  "r_deadline (first_content st now tot r) = r_deadline r"
  "same_download r (first_content st now tot r)"
  "r_total (first_content st now tot r) = Some (case r_total r of None \<Rightarrow> tot | Some t \<Rightarrow> t)"
  by (simp_all add: first_content_def Let_def same_download_def split: option.split)

lemma got_first_content [simp]: "got (first_content st now tot r) = got r"
  by (simp add: got_def)

lemma first_content_wf:
  assumes "receiver_wf r"
  shows "receiver_wf (first_content st now tot r)"
proof (cases "r_total r")
  case None
  have "window_ok (unat tot) (1, min INITIAL_WINDOW tot) {}"
    by (auto simp: window_ok_def unat_min INITIAL_WINDOW_def)
  with assms None show ?thesis
    by (auto simp: receiver_wf_def receiver_base_def first_content_def Let_def got_def)
qed (use assms in \<open>simp add: first_content_def\<close>)

section \<open>Every content packet is handled\<close>

lemma place_packets_total:
  "\<forall>p \<in> set ps. fst p \<noteq> 0 \<Longrightarrow> \<exists>acc'. place_packets tot ps acc = Some acc'"
proof (induction ps arbitrary: acc)
  case (Cons p ps)
  then obtain acc1 where "place_packet tot p acc = Some acc1"
    by (cases p; cases acc) (simp add: place_packet_def Let_def)
  with Cons show ?case by simp
qed simp

lemma send_ack_carries:
  "net_known (send_ack w now r n) \<subseteq> ack_datagrams r \<union> net_known n"
  "net_known (send_complete now r n) \<subseteq> ack_datagrams r \<union> net_known n"
proof -
  obtain start count where w: "w = (start, count)" by (cases w)
  show "net_known (send_ack w now r n) \<subseteq> ack_datagrams r \<union> net_known n"
    using injector.send_known [of "encode (Ack (r_transfer_id r) Progress start count)" "r_remote r" now n]
    by (auto simp: send_ack_def w ack_datagrams_def)
  show "net_known (send_complete now r n) \<subseteq> ack_datagrams r \<union> net_known n"
    using injector.send_known [of "encode (Ack (r_transfer_id r) Complete 0 0)" "r_remote r" now n]
    by (auto simp: send_complete_def ack_datagrams_def)
qed

text \<open>
  What each operation of the receiver gives: a result, the invariant, the same download,
  and no datagram but its own acknowledgements.
\<close>

definition receiver_step ::
    "receiver_transfer \<Rightarrow> net \<Rightarrow> receiver_transfer \<Rightarrow> net \<Rightarrow> bool" where
  "receiver_step r n r' n' \<longleftrightarrow> receiver_wf r' \<and> same_download r r'
     \<and> net_known n' \<subseteq> ack_datagrams r \<union> net_known n"

lemma same_download_acks: "same_download r r' \<Longrightarrow> ack_datagrams r' = ack_datagrams r"
  by (simp add: same_download_def ack_datagrams_def)

lemma same_download_trans: "same_download r r' \<Longrightarrow> same_download r' r'' \<Longrightarrow> same_download r r''"
  by (simp add: same_download_def)

lemma receiver_step_trans:
  "same_download r r1 \<Longrightarrow> receiver_step r1 n r' n' \<Longrightarrow> receiver_step r n r' n'"
  by (auto simp: receiver_step_def same_download_acks dest: same_download_trans)

text \<open>The final path of a download.\<close>

definition final_path :: "receiver_transfer \<Rightarrow> string" where
  "final_path r = path_join (r_data_dir r) (r_filename r)"

lemma receiver_complete_step:
  assumes "receiver_base r" and "0 \<notin> got r" and "r_total r = Some tot"
  obtains r' fs' n' contents where
    "receiver_complete now r fs n = Some (r', fs', n')" and "receiver_step r n r' n'"
    and "r_outcome r' \<noteq> None" and "assemble (unat tot) (r_packets r) = Some contents"
    and "r_outcome r' = Some (Inr ()) \<Longrightarrow> fs_read fs' (final_path r) = Some contents"
    and "r_packets r' = r_packets r" and "r_total r' = r_total r"
proof -
  have "\<forall>p \<in> set (r_packets r). fst p \<noteq> 0"
    using assms(2) by (force simp: got_def)
  then obtain b fin where "place_packets (unat tot) (r_packets r)
      (replicate (unat tot * SEGMENT_PACKET_SIZE) 0, 0) = Some (b, fin)"
    using place_packets_total by (metis surj_pair)
  then obtain contents where a: "assemble (unat tot) (r_packets r) = Some contents"
    by (simp add: assemble_def Let_def)
  obtain ok1 fs1 where w: "fs_write (path_join (r_data_dir r) (r_filename r @ ''.tmp'')) contents fs = (ok1, fs1)"
    by force
  obtain ok2 fs2 where m: "fs_rename (path_join (r_data_dir r) (r_filename r @ ''.tmp''))
      (path_join (r_data_dir r) (r_filename r)) fs1 = (ok2, fs2)" by force
  show ?thesis
  proof (cases "ok1 \<and> ok2")
    case True
    let ?r = "r\<lparr>r_saved_bytes := Some (of_nat (length contents)), r_outcome := Some (Inr ()),
                r_deadline := now + COMPLETE_GRACE\<rparr>"
    have "receiver_complete now r fs n
        = Some (?r, fs2, send_complete now (r\<lparr>r_saved_bytes := Some (of_nat (length contents))\<rparr>) n)"
      using True by (simp add: receiver_complete_def assms(3) a w m Let_def)
    moreover have "receiver_step r n ?r (send_complete now (r\<lparr>r_saved_bytes := Some (of_nat (length contents))\<rparr>) n)"
      using assms(1) send_ack_carries(2) [of now "r\<lparr>r_saved_bytes := Some (of_nat (length contents))\<rparr>" n]
      by (simp add: receiver_step_def receiver_wf_def receiver_base_def same_download_def ack_datagrams_def)
    moreover have "fs_read fs2 (final_path r) = Some contents"
      using fs_write_rename w m True by (simp add: final_path_def)
    ultimately show ?thesis
      using a by (intro that [of ?r fs2 "send_complete now (r\<lparr>r_saved_bytes := Some (of_nat (length contents))\<rparr>) n"]) simp_all
  next
    case False
    have "receiver_complete now r fs n
        = Some (receiver_fail (WriteFailed (path_join (r_data_dir r) (r_filename r))) now r,
            if ok1 then fs2 else fs1, n)"
      using False by (cases ok1) (simp_all add: receiver_complete_def assms(3) a w m Let_def)
    then show ?thesis
      using assms(1) a
      by (intro that [of "receiver_fail (WriteFailed (path_join (r_data_dir r) (r_filename r))) now r"
            "if ok1 then fs2 else fs1" n contents])
         (auto simp: receiver_fail_def receiver_step_def receiver_wf_def receiver_base_def same_download_def)
  qed
qed

lemma receiver_advance_step:
  assumes "receiver_base r" and "r_outcome r = None" and "r_total r = Some tot"
    and "r_range r = Some (start, count)" and "1 \<le> unat start" and "0 < unat count"
    and "got r = {1..<unat start + unat count}" and "unat start + unat count \<le> unat tot"
  obtains r' w where "receiver_advance st now start count tot r fs n = Some (r', fs, send_ack w now r' n)"
    and "r_range r' = Some w" and "unat (fst w) = unat start + unat count" and "1 \<le> unat (snd w)"
    and "receiver_step r n r' (send_ack w now r' n)" and "r_outcome r' = None" and "r_total r' = Some tot"
    and "r_packets r' = r_packets r" and "r_deadline r' = r_deadline r"
proof -
  let ?next = "ucast start + ucast count :: u32" and ?tot = "ucast tot :: u32"
  let ?rem = "?tot - ?next + 1"
  have lt: "unat tot \<le> 65535" "unat count \<le> 65535" using unat_u16_le by blast+
  have nx: "unat ?next = unat start + unat count"
    using assms(8) lt by (subst unat_add_small) simp_all
  have rem: "unat ?rem = unat tot - (unat start + unat count) + 1"
    using assms(8) lt by (subst unat_add_small) (simp_all add: unat_sub_le nx)
  let ?c = "min (min (ucast count * 2) (ucast MAX_WINDOW)) ?rem"
  have "unat (ucast count * 2 :: u32) = unat count * 2"
    using lt by (simp add: unat_word_ariths(2))
  then have c: "unat ?c = min (min (unat count * 2) 64) (unat tot - (unat start + unat count) + 1)"
    by (simp add: unat_min rem MAX_WINDOW_def)
  let ?w = "(ucast ?next :: u16, ucast ?c :: u16)"
  let ?r = "r\<lparr>r_range := Some ?w, r_retry_count := 0,
              r_quiet_deadline := now + adaptive_quiet st (r_gap_est r) 0\<rparr>"
  have w: "unat (fst ?w) = unat start + unat count"
    "unat (snd ?w) = min (min (unat count * 2) 64) (unat tot - (unat start + unat count) + 1)"
    using assms(8) lt unat_ucast_32_16 [of ?next] unat_ucast_32_16 [of ?c] by (simp_all add: nx c)
  have "\<not> ?next > ?tot" "?rem \<noteq> 0"
    using assms(8) rem by (auto simp: word_less_nat_alt nx)
  then have "receiver_advance st now start count tot r fs n = Some (?r, fs, send_ack ?w now ?r n)"
    by (simp only: receiver_advance_def Let_def if_False)
  moreover have "window_ok (unat tot) ?w (got r)"
    unfolding window_ok_def split_beta w using assms(5,6,7,8) by (auto simp: min_def)
  then have "receiver_wf ?r"
    using assms(1,2,3) by (simp add: receiver_wf_def receiver_base_def got_def)
  moreover have "net_known (send_ack ?w now ?r n) \<subseteq> ack_datagrams r \<union> net_known n"
    using send_ack_carries(1) [of ?w now ?r n] by (simp add: ack_datagrams_def)
  moreover have "unat (fst ?w) = unat start + unat count" "1 \<le> unat (snd ?w)"
    unfolding w using assms(6,8) by simp_all
  ultimately show ?thesis
    using assms(2,3)
    by (intro that [of ?r ?w]) (simp_all add: receiver_step_def same_download_def)
qed

definition total_after :: "u16 \<Rightarrow> receiver_transfer \<Rightarrow> u16" where
  "total_after total_packets r = (case r_total r of None \<Rightarrow> total_packets | Some t \<Rightarrow> t)"

text \<open>What a content packet does to a running download, beyond \<open>receiver_step\<close>.\<close>

definition content_result ::
    "u16 \<Rightarrow> u16 \<Rightarrow> bytes \<Rightarrow> receiver_transfer \<Rightarrow> file_system \<Rightarrow> receiver_transfer \<Rightarrow> file_system \<Rightarrow> bool" where
  "content_result pn total_packets data r fs r' fs' \<longleftrightarrow>
     (let tot = unat (total_after total_packets r) in
      r_total r' = Some (total_after total_packets r)
      \<and> (r_packets r' = r_packets r
         \<or> 1 \<le> unat pn \<and> unat pn \<le> tot \<and> r_packets r' = AList.update pn data (r_packets r))
      \<and> (r_outcome r' = None \<longrightarrow> fs' = fs \<and> r_deadline r' = r_deadline r)
      \<and> (r_outcome r' = Some (Inr ()) \<longrightarrow> got r' = {1..tot}
           \<and> fs_read fs' (final_path r) = assemble tot (r_packets r')))"

lemma same_download_path: "same_download r r' \<Longrightarrow> final_path r' = final_path r"
  by (simp add: same_download_def final_path_def)

text \<open>The new packet of the current window, already stored.\<close>

definition after_store ::
    "settings \<Rightarrow> instant \<Rightarrow> u16 \<Rightarrow> u16 \<Rightarrow> u16 \<Rightarrow> receiver_transfer \<Rightarrow> file_system \<Rightarrow> net
      \<Rightarrow> (receiver_transfer \<times> file_system \<times> net) option" where
  "after_store st now start count tot r fs n =
     (if of_nat (length (r_packets r)) \<ge> (ucast tot :: u32) then receiver_complete now r fs n
      else if range_complete r start count then receiver_advance st now start count tot r fs n
      else Some (r, fs, n))"

lemma after_store_step:
  assumes base: "receiver_base r" and run: "r_outcome r = None" and tot: "r_total r = Some tot"
    and rc: "unat (r_retry_count r) \<le> 8"
    and window: "r_range r = Some (start, count)" and bounds: "1 \<le> unat start" "0 < unat count"
      "unat start + unat count \<le> unat tot + 1"
    and old: "{1..<unat start} \<subseteq> got r" and in_r: "got r \<subseteq> {1..<unat start + unat count}"
  shows "\<exists>r' fs' n'. after_store st now start count tot r fs n = Some (r', fs', n')
    \<and> receiver_step r n r' n' \<and> r_total r' = Some tot \<and> r_packets r' = r_packets r
    \<and> (r_outcome r' = None \<longrightarrow> fs' = fs \<and> r_deadline r' = r_deadline r)
    \<and> (r_outcome r' = Some (Inr ()) \<longrightarrow> got r = {1..unat tot}
         \<and> fs_read fs' (final_path r) = assemble (unat tot) (r_packets r))"
proof -
  have lt: "unat tot \<le> 65535" by (rule unat_u16_le)
  have card: "card (got r) = length (r_packets r)"
    using base card_got by (simp add: receiver_base_def)
  have len: "length (r_packets r) \<le> unat tot"
    using card_mono [OF _ in_r] card bounds(3) by simp
  have "unat (of_nat (length (r_packets r)) :: u32) = length (r_packets r)"
    using len lt by (simp add: unat_of_nat take_bit_nat_eq_self)
  then have enough: "of_nat (length (r_packets r)) \<ge> (ucast tot :: u32) \<longleftrightarrow> length (r_packets r) = unat tot"
    using len by (simp only: word_le_nat_alt unat_ucast_16_32) linarith
  have rcomp: "range_complete r start count \<longleftrightarrow> {unat start..<unat start + unat count} \<subseteq> got r"
    using bounds lt by (intro range_complete_got) linarith
  consider "length (r_packets r) = unat tot"
    | "length (r_packets r) < unat tot" "{unat start..<unat start + unat count} \<subseteq> got r"
    | "length (r_packets r) < unat tot" "\<not> {unat start..<unat start + unat count} \<subseteq> got r"
    using len by linarith
  then show ?thesis
  proof cases
    case 1
    then have all: "got r = {1..unat tot}"
      using in_r bounds(3) card by (intro card_subset_eq) auto
    then have "0 \<notin> got r" by simp
    from receiver_complete_step [OF base this tot, of now fs n] obtain r' fs' n' contents where
      "receiver_complete now r fs n = Some (r', fs', n')" "receiver_step r n r' n'"
      "r_outcome r' \<noteq> None" "assemble (unat tot) (r_packets r) = Some contents"
      "r_outcome r' = Some (Inr ()) \<Longrightarrow> fs_read fs' (final_path r) = Some contents"
      "r_packets r' = r_packets r" "r_total r' = r_total r" by metis
    then show ?thesis using 1 all by (auto simp: after_store_def enough tot)
  next
    case 2
    have all: "got r = {1..<unat start + unat count}"
    proof (rule antisym [OF in_r])
      show "{1..<unat start + unat count} \<subseteq> got r"
      proof
        fix t assume "t \<in> {1..<unat start + unat count}"
        then show "t \<in> got r" using old 2(2) by (cases "t < unat start") auto
      qed
    qed
    then have "unat start + unat count \<le> unat tot"
      using 2(1) card bounds(2) by simp
    from receiver_advance_step [OF base run tot window bounds(1,2) all this, of st now fs n]
    obtain r' w where "receiver_advance st now start count tot r fs n = Some (r', fs, send_ack w now r' n)"
      "receiver_step r n r' (send_ack w now r' n)" "r_outcome r' = None" "r_total r' = Some tot"
      "r_packets r' = r_packets r" "r_deadline r' = r_deadline r" by metis
    then show ?thesis using 2 by (auto simp: after_store_def enough rcomp)
  next
    case 3
    then have "receiver_wf r"
      using base rc old in_r bounds by (auto simp: receiver_wf_def run tot window window_ok_def)
    then have "receiver_step r n r n" by (simp add: receiver_step_def same_download_def)
    then show ?thesis using 3 by (auto simp: after_store_def enough rcomp run tot)
  qed
qed

lemma receiver_on_content_eq:
  assumes "r_outcome r = None" and "r_range (first_content st now tot r) = Some (start, count)"
  shows "receiver_on_content st now pn tot data r fs n =
     (let r1 = first_content st now tot r in
      if pn = 0 \<or> pn > total_after tot r then Some (r1, fs, n)
      else if unat pn < unat start \<or> unat start + unat count \<le> unat pn
      then Some (r1, fs, send_ack (start, count) now r1 n)
      else if has_packet r1 pn then Some (r1, fs, n)
      else after_store st now start count (total_after tot r) (store_packet st now pn data r1) fs n)"
proof -
  have sums: "unat (ucast start + ucast count :: u32) = unat start + unat count"
    using unat_u16_le [of start] unat_u16_le [of count] by (subst unat_add_small) simp_all
  have t: "r_total (first_content st now tot r) = Some (total_after tot r)"
    by (simp add: total_after_def)
  show ?thesis
    by (simp add: receiver_on_content_def assms Let_def t after_store_def
        word_less_nat_alt word_le_nat_alt sums del: first_content_fields(7))
qed

lemma receiver_on_content_step:
  assumes "receiver_wf r" and run: "r_outcome r = None"
  shows "\<exists>r' fs' n'. receiver_on_content st now pn tot data r fs n = Some (r', fs', n')
    \<and> receiver_step r n r' n' \<and> content_result pn tot data r fs r' fs'"
proof -
  let ?r = "first_content st now tot r" and ?t = "total_after tot r"
  have t: "r_total ?r = Some ?t" by (simp add: total_after_def)
  have wf: "receiver_wf ?r" using assms(1) by (rule first_content_wf)
  have run1: "r_outcome ?r = None" using run by simp
  from wf run1 t obtain start count where window: "r_range ?r = Some (start, count)"
    and w: "window_ok (unat ?t) (start, count) (got ?r)"
    by (auto simp: receiver_wf_def)
  have same: "same_download r ?r" by simp
  have stay: "receiver_step r n ?r n'" if "net_known n' \<subseteq> ack_datagrams ?r \<union> net_known n" for n'
    using wf same that by (simp add: receiver_step_def same_download_acks [OF same])
  have res: "content_result pn tot data r fs ?r fs"
    using run1 t by (simp add: content_result_def Let_def)
  note def = receiver_on_content_eq [OF run window, of pn data fs n, unfolded Let_def]
  consider "pn = 0 \<or> pn > ?t \<or> has_packet ?r pn"
    | "pn \<noteq> 0" "\<not> pn > ?t" "unat pn < unat start \<or> unat start + unat count \<le> unat pn"
    | "pn \<noteq> 0" "\<not> pn > ?t" "unat start \<le> unat pn" "unat pn < unat start + unat count" "\<not> has_packet ?r pn"
    by linarith
  then show ?thesis
  proof cases
    case 1
    have "net_known (send_ack (start, count) now ?r n) \<subseteq> ack_datagrams ?r \<union> net_known n"
      by (rule send_ack_carries)
    then have "receiver_step r n ?r (send_ack (start, count) now ?r n)" by (rule stay)
    moreover have "receiver_step r n ?r n" by (rule stay) simp
    moreover have "receiver_on_content st now pn tot data r fs n = Some (?r, fs, n)
        \<or> receiver_on_content st now pn tot data r fs n = Some (?r, fs, send_ack (start, count) now ?r n)"
      using 1 unfolding def by auto
    ultimately show ?thesis using res by blast
  next
    case 2
    then have "receiver_on_content st now pn tot data r fs n = Some (?r, fs, send_ack (start, count) now ?r n)"
      unfolding def by simp
    then show ?thesis using stay [OF send_ack_carries(1)] res by blast
  next
    case 3
    let ?s = "store_packet st now pn data ?r"
    have base: "receiver_base ?s"
      using wf by (simp add: receiver_wf_def receiver_base_def AList.distinct_update)
    have rc: "unat (r_retry_count ?s) \<le> 8"
      using assms(1) run by (simp add: receiver_wf_def)
    have bounds: "1 \<le> unat start" "0 < unat count" "unat start + unat count \<le> unat ?t + 1"
      using w 3(3,4) by (simp_all add: window_ok_def)
    have old: "{1..<unat start} \<subseteq> got ?s" and in_r: "got ?s \<subseteq> {1..<unat start + unat count}"
      using w 3(3,4) by (auto simp: window_ok_def)
    have same2: "same_download r ?s" using same_download_trans [OF same] by simp
    obtain r' fs' n' where s: "after_store st now start count ?t ?s fs n = Some (r', fs', n')"
      "receiver_step ?s n r' n'" "r_total r' = Some ?t" "r_packets r' = r_packets ?s"
      "r_outcome r' = None \<longrightarrow> fs' = fs \<and> r_deadline r' = r_deadline ?s"
      "r_outcome r' = Some (Inr ()) \<longrightarrow> got ?s = {1..unat ?t}
         \<and> fs_read fs' (final_path ?s) = assemble (unat ?t) (r_packets ?s)"
      using after_store_step [OF base _ _ rc _ bounds old in_r,
          where st = st and now = now and fs = fs and n = n] run1 t window by auto
    have "1 \<le> unat pn \<and> unat pn \<le> unat ?t"
      using bounds 3(3,4) by linarith
    then have "content_result pn tot data r fs r' fs'"
      using s(3-6) same_download_path [OF same2]
      by (simp add: content_result_def Let_def got_def)
    moreover have "receiver_on_content st now pn tot data r fs n = Some (r', fs', n')"
      using 3 s(1) unfolding def by auto
    ultimately show ?thesis using receiver_step_trans [OF same2 s(2)] by blast
  qed
qed

text \<open>C5: No content packet, whatever its number, total and bytes, makes a receiver panic:
  the transfer's invariant is kept, so its window stays within the total and never
  completed, the subtraction that sizes the next window cannot go below zero, and the only
  datagrams it sends are acknowledgements of its own transfer, to its own peer.\<close>

theorem receiver_content_safe:
  assumes "receiver_wf r"
  shows "\<exists>r' fs' n'. receiver_on_content st now pn tot data r fs n = Some (r', fs', n')
    \<and> receiver_wf r' \<and> same_download r r'
    \<and> net_known n' \<subseteq> ack_datagrams r \<union> net_known n"
proof (cases "r_outcome r")
  case None
  from receiver_on_content_step [OF assms this, of st now pn tot data fs n] show ?thesis
    unfolding receiver_step_def by blast
next
  case (Some outcome)
  then show ?thesis
    using assms send_ack_carries(2) [of now r n]
    by (simp add: receiver_on_content_def same_download_def)
qed

theorem receiver_content_safe_witness:
  "\<exists>r' fs' n'. receiver_on_content (settings_from_env (\<lambda>_. None)) 9 40000 65535 [1, 2]
      (receiver_new (settings_from_env (\<lambda>_. None)) 7 (V4 1 2) ''seg_1.ts'' ''/d'' 0) demo_disk demo_net
    = Some (r', fs', n') \<and> receiver_wf r'"
  using receiver_content_safe [OF receiver_new_wf, of "settings_from_env (\<lambda>_. None)" 9 40000 65535
      "[1, 2]" "settings_from_env (\<lambda>_. None)" 7 "V4 1 2" "''seg_1.ts''" "''/d''" 0 demo_disk demo_net]
  by blast

section \<open>What a completed download holds\<close>

lemma genuine_update:
  assumes "genuine file ps" and "1 \<le> unat pn" and "unat pn \<le> unat (packet_count (length file))"
  shows "genuine file (AList.update pn (chunk file (unat pn)) ps)"
proof -
  have "set (AList.update pn d ps) \<subseteq> insert (pn, d) (set ps)" for d
    by (induction ps) auto
  then show ?thesis using assms by (fastforce simp: genuine_def)
qed

lemma got_image: "fst ` set (r_packets r) = {pn. unat pn \<in> got r}"
  by (force simp: got_def word_unat_eq_iff)

lemma content_genuine:
  assumes "receiver_wf r" and "r_outcome r = None" and "genuine file (r_packets r)"
    and "total_after tot r = packet_count (length file)" and "data = chunk file (unat pn)"
    and "receiver_on_content st now pn tot data r fs n = Some (r', fs', n')"
  shows "genuine file (r_packets r') \<and> r_total r' = Some (packet_count (length file))
    \<and> (r_outcome r' = Some (Inr ()) \<longrightarrow> fs_read fs' (final_path r) = Some (take 91749000 file))"
proof -
  have res: "content_result pn tot data r fs r' fs'"
    using receiver_on_content_step [OF assms(1,2), of st now pn tot data fs n] assms(6) by auto
  then have gen: "genuine file (r_packets r')"
    using assms(3-5) genuine_update [OF assms(3), of pn]
    by (auto simp: content_result_def Let_def)
  have "fs_read fs' (final_path r) = Some (take 91749000 file)" if "r_outcome r' = Some (Inr ())"
  proof -
    have g: "got r' = {1..unat (packet_count (length file))}"
      and f: "fs_read fs' (final_path r) = assemble (unat (packet_count (length file))) (r_packets r')"
      using res that by (simp_all add: content_result_def Let_def assms(4))
    have "fst ` set (r_packets r') = {pn. 1 \<le> unat pn \<and> unat pn \<le> unat (packet_count (length file))}"
      unfolding got_image g by auto
    from f assemble_genuine [OF gen refl this] show ?thesis by (simp add: take_packets)
  qed
  with gen res show ?thesis by (simp add: content_result_def Let_def assms(4))
qed

text \<open>C10: A download whose packets are genuine stays genuine whatever the order, the
  repetition and the losses, and when it completes, the file stored under its name is the
  served file (its first 91,749,000 bytes), byte for byte.\<close>

theorem completed_download_intact:
  assumes "receiver_wf r" and "r_outcome r = None" and "genuine file (r_packets r)"
    and "total_after tot r = packet_count (length file)" and "data = chunk file (unat pn)"
    and "receiver_on_content st now pn tot data r fs n = Some (r', fs', n')"
  shows "genuine file (r_packets r') \<and> r_total r' = Some (packet_count (length file))
    \<and> (r_outcome r' = Some (Inr ()) \<longrightarrow> fs_read fs' (final_path r) = Some (take 91749000 file))"
  using assms by (rule content_genuine)

theorem completed_download_intact_witness:
  "\<exists>r' fs' n'. receiver_on_content (settings_from_env (\<lambda>_. None)) 9 1 1 [1, 2, 3]
      (receiver_new (settings_from_env (\<lambda>_. None)) 7 (V4 1 2) ''seg_1.ts'' ''/d'' 0)
      \<lparr>files = [], write_failure = (\<lambda>_ _. None), rename_ok = (\<lambda>_ _. True), dir_readable = (\<lambda>_. True)\<rparr> demo_net
    = Some (r', fs', n') \<and> fs_read fs' ''/d/seg_1.ts'' = Some [1, 2, 3]"
proof -
  let ?st = "settings_from_env (\<lambda>_. None)"
  let ?r = "receiver_new ?st 7 (V4 1 2) ''seg_1.ts'' ''/d'' 0"
  let ?fs = "\<lparr>files = [], write_failure = (\<lambda>_ _. None), rename_ok = (\<lambda>_ _. True), dir_readable = (\<lambda>_. True)\<rparr>"
  have pc: "packet_count (length [1 :: u8, 2, 3]) = 1" by (simp add: word_unat_eq_iff unat_packet_count)
  have c: "chunk [1, 2, 3] (unat (1 :: u16)) = [1, 2, 3 :: u8]" by (simp add: chunk_def SEGMENT_PACKET_SIZE_def)
  have "genuine [1, 2, 3] [(1, [1, 2, 3])]" using pc c by (simp add: genuine_def)
  moreover have "fst ` set [(1 :: u16, [1, 2, 3 :: u8])] = {pn. 1 \<le> unat pn \<and> unat pn \<le> 1}"
    by (auto simp: word_unat_eq_iff)
  ultimately have a: "assemble 1 [(1, [1, 2, 3])] = Some [1, 2, 3]"
    using assemble_genuine [of "[1, 2, 3]" "[(1, [1, 2, 3])]" 1] pc by simp
  have "\<exists>r' fs' n'. receiver_on_content ?st 9 1 1 [1, 2, 3] ?r ?fs demo_net = Some (r', fs', n')
      \<and> r_outcome r' = Some (Inr ())"
    using a by (simp add: receiver_on_content_def receiver_new_def first_content_def Let_def INITIAL_WINDOW_def
        min_def word_le_nat_alt word_less_nat_alt has_packet_def store_packet_def receiver_complete_def fs_write_def fs_rename_def fs_read_def)
  then obtain r' fs' n' where o: "receiver_on_content ?st 9 1 1 [1, 2, 3] ?r ?fs demo_net = Some (r', fs', n')"
    and "r_outcome r' = Some (Inr ())" by blast
  moreover have "r_outcome ?r = None" "genuine [1, 2, 3] (r_packets ?r)"
    "total_after 1 ?r = packet_count (length [1 :: u8, 2, 3])"
    using pc by (simp_all add: receiver_new_def genuine_def total_after_def)
  moreover have "final_path ?r = ''/d/seg_1.ts''"
    by (simp add: final_path_def receiver_new_def path_join_def starts_with_def ends_with_def suffix_def)
  ultimately show ?thesis
    using completed_download_intact [OF receiver_new_wf _ _ _ c [symmetric] o] by auto
qed

section \<open>A receiver that hears nothing gives up\<close>

definition request_datagrams :: "receiver_transfer \<Rightarrow> datagram set" where
  "request_datagrams r = {(encode (SegmentRequest (r_transfer_id r) (r_filename r)), r_remote r)}"

lemma resend_request_step:
  assumes "receiver_wf r" and "resend_request st now r n = (r', n')"
  shows "receiver_wf r' \<and> same_download r r'
    \<and> net_known n' \<subseteq> request_datagrams r \<union> net_known n
    \<and> r_packets r' = r_packets r \<and> r_outcome r' = r_outcome r \<and> r_total r' = r_total r
    \<and> r_range r' = r_range r \<and> r_retry_count r' = r_retry_count r
    \<and> r_quiet_deadline r' = r_quiet_deadline r"
  using assms injector.send_known [of "encode (SegmentRequest (r_transfer_id r) (r_filename r))" "r_remote r" now n]
  by (auto simp: resend_request_def Let_def receiver_wf_def receiver_base_def same_download_def
      request_datagrams_def got_def split: if_splits option.splits)

lemma unat_backoff_step: "unat (min (w + 1) 4 :: u32) \<le> 4"
  by (simp add: unat_min)

text \<open>The quiet timer of a running download: idle, a request again, or the end.\<close>

lemma quiet_timer_step:
  assumes "receiver_wf r" and "r_outcome r = None" and "quiet_timer st now r n = (r', n')"
  shows "receiver_wf r' \<and> same_download r r' \<and> net_known n' \<subseteq> ack_datagrams r \<union> net_known n
    \<and> r_packets r' = r_packets r \<and> r_total r' = r_total r \<and> r_range r' = r_range r
    \<and> (now < r_quiet_deadline r \<longrightarrow> r' = r \<and> n' = n)
    \<and> (r_quiet_deadline r \<le> now \<and> r_total r \<noteq> None \<and> r_total r \<noteq> Some 0 \<longrightarrow>
        (if unat (r_retry_count r) = 8 then \<exists>e. r_outcome r' = Some (Inl e)
         else r_outcome r' = None \<and> unat (r_retry_count r') = unat (r_retry_count r) + 1
           \<and> r_quiet_deadline r' \<le> now + from_secs 8))"
proof (cases "r_quiet_deadline r \<le> now")
  case False
  with assms show ?thesis by (auto simp: quiet_timer_def same_download_def)
next
  case due: True
  let ?b = "min (r_backoff r + 1) 4 :: u32"
  let ?q = "now + adaptive_quiet st (r_gap_est r) (unat ?b)"
  let ?r = "r\<lparr>r_backoff := ?b, r_quiet_deadline := ?q\<rparr>"
  have b: "unat ?b \<le> 4" by (rule unat_backoff_step)
  have q: "?q \<le> now + from_secs 8" using adaptive_quiet_bounds by simp
  have g: "got (r\<lparr>r_backoff := x, r_quiet_deadline := y, r_retry_count := z, r_deadline := w\<rparr>) = got r"
    "got (r\<lparr>r_backoff := x, r_quiet_deadline := y, r_deadline := w\<rparr>) = got r" for x y z w
    by (simp_all add: got_def)
  show ?thesis
  proof (cases "r_total r")
    case None
    then have "r_range r = None" using assms(1,2) by (simp add: receiver_wf_def)
    with assms due None b show ?thesis
      by (auto simp: quiet_timer_def Let_def recompute_deadline_def receiver_wf_def receiver_base_def same_download_def)
  next
    case (Some tot)
    with assms(1,2) obtain start count where window: "r_range r = Some (start, count)"
      and w: "window_ok (unat tot) (start, count) (got r)" and rc: "unat (r_retry_count r) \<le> 8"
      and base: "receiver_base r"
      by (auto simp: receiver_wf_def)
    have rcomp: "range_complete ?r start count \<longleftrightarrow> {unat start..<unat start + unat count} \<subseteq> got r"
      using range_complete_got [of start count ?r] w unat_u16_le [of tot]
      by (simp add: window_ok_def got_def)
    have inc: "unat (r_retry_count r + 1) = unat (r_retry_count r) + 1"
      using rc by (intro unat_retry_step) simp
    show ?thesis
    proof (cases "range_complete ?r start count")
      case True
      then have "tot = 0" using w by (simp add: rcomp window_ok_def unat_eq_0)
      with assms due Some window True base b rc w show ?thesis
        by (auto simp: quiet_timer_def Let_def recompute_deadline_def receiver_wf_def receiver_base_def
            same_download_def g)
    next
      case False
      let ?r1 = "?r\<lparr>r_retry_count := r_retry_count r + 1\<rparr>"
      have t0: "tot \<noteq> 0" using w False unfolding rcomp by (auto simp: window_ok_def)
      have out: "quiet_timer st now r n =
         (if unat (r_retry_count r) = 8 then (receiver_fail (RangeIncomplete start count) now ?r1, n)
          else (recompute_deadline ?r1, send_ack (start, count) now ?r1 n))"
        using due False rc
        by (simp add: quiet_timer_def Let_def window RETRY_LIMIT_def word_less_nat_alt inc)
      have "net_known (send_ack (start, count) now ?r1 n) \<subseteq> ack_datagrams r \<union> net_known n"
        using send_ack_carries(1) [of "(start, count)" now ?r1 n] by (simp add: ack_datagrams_def)
      with assms(2,3) out Some window base b rc w q due inc t0 show ?thesis
        by (auto simp: receiver_fail_def recompute_deadline_def receiver_wf_def receiver_base_def
            same_download_def g split: if_splits)
    qed
  qed
qed

lemma receiver_fail_wf:
  "receiver_wf r \<Longrightarrow> receiver_wf (fail_unresponsive e now r) \<and> same_download r (fail_unresponsive e now r)"
  by (simp add: fail_unresponsive_def receiver_fail_def receiver_wf_def receiver_base_def same_download_def)

lemma receiver_tick_step:
  assumes "receiver_wf r" and "r_outcome r = None" and "receiver_on_tick st now r n = (r', n')"
  shows "receiver_wf r' \<and> same_download r r'
    \<and> net_known n' \<subseteq> ack_datagrams r \<union> request_datagrams r \<union> net_known n
    \<and> r_packets r' = r_packets r \<and> r_total r' = r_total r
    \<and> (r_quiet_deadline r \<le> now \<and> r_total r \<noteq> None \<and> r_total r \<noteq> Some 0 \<longrightarrow>
        (\<exists>e. r_outcome r' = Some (Inl e))
        \<or> r_outcome r' = None \<and> unat (r_retry_count r') = unat (r_retry_count r) + 1
           \<and> r_quiet_deadline r' \<le> now + from_secs 8)"
proof -
  obtain r1 n1 where s: "resend_request st now r n = (r1, n1)" by (cases "resend_request st now r n")
  note one = resend_request_step [OF assms(1) s]
  then have o1: "r_outcome r1 = None" using assms(2) by simp
  show ?thesis
  proof (cases "now \<ge> r_first_response_deadline r1 \<and> r_packets r1 = []")
    case True
    then have "r' = fail_unresponsive NoResponse now r1" "n' = n1"
      using assms(2,3) by (simp_all add: receiver_on_tick_def s)
    then show ?thesis
      using one receiver_fail_wf [of r1 NoResponse now]
      by (auto simp: fail_unresponsive_def receiver_fail_def dest: same_download_trans)
  next
    case False
    then have q: "quiet_timer st now r1 n1 = (r', n')"
      using assms(2,3) by (auto simp: receiver_on_tick_def s)
    have "receiver_wf r1" "same_download r r1" using one by simp_all
    with quiet_timer_step [OF this(1) o1 q] one show ?thesis
      using same_download_acks [of r r1] same_download_trans [of r r1 r']
      by (auto split: if_splits)
  qed
qed

text \<open>A tick keeps the receiver's invariant and stored packets, sends at most
  acknowledgements and its own request, to its own peer, and does nothing once the transfer
  has an outcome.\<close>

theorem receiver_tick_safe:
  assumes "receiver_wf r" and "receiver_on_tick st now r n = (r', n')"
  shows "receiver_wf r' \<and> same_download r r' \<and> r_packets r' = r_packets r \<and> r_total r' = r_total r
    \<and> net_known n' \<subseteq> ack_datagrams r \<union> request_datagrams r \<union> net_known n
    \<and> (r_outcome r \<noteq> None \<longrightarrow> r' = r \<and> n' = n)
    \<and> unat (r_retry_count r') \<le> 9"
proof (cases "r_outcome r")
  case None
  note step = receiver_tick_step [OF assms(1) None assms(2)]
  then have "receiver_base r'" by (simp add: receiver_wf_def)
  then have "unat (r_retry_count r') \<le> 9" by (simp add: receiver_base_def)
  with step None show ?thesis by simp
next
  case (Some outcome)
  with assms show ?thesis
    by (auto simp: receiver_on_tick_def same_download_def receiver_wf_def receiver_base_def)
qed

theorem receiver_tick_safe_witness:
  "receiver_wf (fst (receiver_on_tick (settings_from_env (\<lambda>_. None)) (from_secs 9)
      (receiver_new (settings_from_env (\<lambda>_. None)) 7 (V4 1 2) ''seg_1.ts'' ''/d'' 0) demo_net))"
  using receiver_tick_safe [OF receiver_new_wf, of "settings_from_env (\<lambda>_. None)" "from_secs 9"
      "settings_from_env (\<lambda>_. None)" 7 "V4 1 2" "''seg_1.ts''" "''/d''" 0 demo_net]
  by (metis surjective_pairing)

fun receiver_ticks :: "settings \<Rightarrow> instant list \<Rightarrow> receiver_transfer \<Rightarrow> net \<Rightarrow> receiver_transfer \<times> net" where
  "receiver_ticks st [] r n = (r, n)"
| "receiver_ticks st (t # ts) r n =
     (case receiver_on_tick st t r n of (r', n') \<Rightarrow> receiver_ticks st ts r' n')"

lemma receiver_ticks_done: "r_outcome r \<noteq> None \<Longrightarrow> receiver_ticks st ts r n = (r, n)"
  by (induction ts) (simp_all add: receiver_on_tick_def)

lemma receiver_ticks_fail:
  assumes "receiver_wf r" and "r_outcome r = None" and "r_total r = Some tot" and "tot \<noteq> 0"
    and "paced (from_secs 8) (r_quiet_deadline r) ts" and "9 \<le> length ts + unat (r_retry_count r)"
  shows "\<exists>e. r_outcome (fst (receiver_ticks st ts r n)) = Some (Inl e)"
  using assms
proof (induction ts arbitrary: r n)
  case Nil
  then show ?case by (simp add: receiver_wf_def)
next
  case (Cons t ts)
  obtain r1 n1 where tick: "receiver_on_tick st t r n = (r1, n1)"
    by (cases "receiver_on_tick st t r n")
  have "r_quiet_deadline r \<le> t" using Cons.prems(5) by simp
  with receiver_tick_step [OF Cons.prems(1,2) tick] Cons.prems(3,4)
  have wf1: "receiver_wf r1" and t1: "r_total r1 = Some tot"
    and alt: "(\<exists>e. r_outcome r1 = Some (Inl e)) \<or> r_outcome r1 = None
      \<and> unat (r_retry_count r1) = unat (r_retry_count r) + 1 \<and> r_quiet_deadline r1 \<le> t + from_secs 8"
    by auto
  from alt show ?case
  proof (elim disjE exE conjE)
    fix e assume "r_outcome r1 = Some (Inl e)"
    then show ?thesis by (simp add: tick receiver_ticks_done)
  next
    assume run: "r_outcome r1 = None" and retry: "unat (r_retry_count r1) = unat (r_retry_count r) + 1"
      and "r_quiet_deadline r1 \<le> t + from_secs 8"
    then have "paced (from_secs 8) (r_quiet_deadline r1) ts"
      using Cons.prems(5) by (auto elim: paced_le)
    with Cons.IH [OF wf1 run t1 Cons.prems(4), of n1] Cons.prems(6) retry show ?thesis
      by (simp add: tick)
  qed
qed

text \<open>C19: A started download that hears nothing more always ends: nine ticks at least eight
  seconds apart, the first not before the quiet deadline, leave it failed, whatever the
  settings, the window and the gaps measured before.\<close>

theorem receiver_gives_up:
  assumes "receiver_wf r" and "r_outcome r = None" and "r_total r = Some tot" and "tot \<noteq> 0"
    and "paced (from_secs 8) (r_quiet_deadline r) ts" and "9 \<le> length ts"
  shows "\<exists>e. r_outcome (fst (receiver_ticks st ts r n)) = Some (Inl e)"
  using receiver_ticks_fail [OF assms(1-5)] assms(6) by simp

theorem receiver_gives_up_witness:
  "\<exists>e. r_outcome (fst (receiver_ticks (settings_from_env (\<lambda>_. None))
      (map (\<lambda>k. from_secs (8 * k)) [1, 2, 3, 4, 5, 6, 7, 8, 9])
      (first_content (settings_from_env (\<lambda>_. None)) 9 3
        (receiver_new (settings_from_env (\<lambda>_. None)) 7 (V4 1 2) ''seg_1.ts'' ''/d'' 0)) demo_net))
    = Some (Inl e)"
proof -
  let ?st = "settings_from_env (\<lambda>_. None)"
  let ?r = "first_content ?st 9 3 (receiver_new ?st 7 (V4 1 2) ''seg_1.ts'' ''/d'' 0)"
  have "receiver_wf ?r" by (rule first_content_wf) (rule receiver_new_wf)
  moreover have "r_quiet_deadline ?r = from_millis 500 + 9"
    by (simp add: first_content_def receiver_new_def Let_def adaptive_quiet_def quiet_period_def
        settings_from_env_def qs_simps)
  ultimately show ?thesis
    by (intro receiver_gives_up [of _ 3]) (simp_all add: receiver_new_def qs_simps)
qed

section \<open>Two corners of the receiver's timers\<close>






text \<open>Content never refreshes the deadline the event loop sleeps until: while the transfer
  goes on it keeps its value, and every tick between it and the (later) quiet deadline does
  nothing and leaves it there, so the loop wakes at once, again and again, until the quiet
  deadline passes.\<close>

theorem stale_deadline_spins:
  assumes "receiver_wf r" and "r_outcome r = None"
    and "receiver_on_content st t pn tot data r fs n = Some (r', fs', n')" and "r_outcome r' = None"
    and "r_packets r' \<noteq> []" and "now < r_quiet_deadline r'"
  shows "r_deadline r' = r_deadline r \<and> receiver_on_tick st now r' m = (r', m)"
proof -
  have "content_result pn tot data r fs r' fs'"
    using receiver_on_content_step [OF assms(1,2), of st t pn tot data fs n] assms(3) by auto
  then show ?thesis
    using assms(4-6)
    by (simp add: content_result_def Let_def receiver_on_tick_def resend_request_def quiet_timer_def)
qed

theorem stale_deadline_spins_witness:
  "\<exists>r' fs' n'. receiver_on_content (settings_from_env (\<lambda>_. None)) 0 1 2 [5]
      (receiver_new (settings_from_env (\<lambda>_. None)) 7 (V4 1 2) ''seg_1.ts'' ''/d'' 0) demo_disk demo_net = Some (r', fs', n')
    \<and> r_deadline r' = from_millis 150
    \<and> receiver_on_tick (settings_from_env (\<lambda>_. None)) (from_millis 400) r' demo_net = (r', demo_net)"
proof -
  let ?st = "settings_from_env (\<lambda>_. None)"
  let ?r = "receiver_new ?st 7 (V4 1 2) ''seg_1.ts'' ''/d'' 0"
  have i: "r_outcome ?r = None" "r_deadline ?r = from_millis 150"
    by (simp_all add: receiver_new_def quiet_period_def settings_from_env_def)
  have "\<not> range_complete r 1 2" if "r_packets r = [(1, [5])]" for r
    using that by (subst range_complete_got) (auto simp: got_def dest: subsetD [where c = 2])
  then have "\<exists>r' fs' n'. receiver_on_content ?st 0 1 2 [5] ?r demo_disk demo_net = Some (r', fs', n')
      \<and> r_outcome r' = None \<and> r_packets r' \<noteq> [] \<and> r_quiet_deadline r' = from_millis 500"
    by (simp add: receiver_on_content_def receiver_new_def first_content_def Let_def INITIAL_WINDOW_def
        min_def word_le_nat_alt word_less_nat_alt has_packet_def store_packet_def
        adaptive_quiet_def quiet_period_def settings_from_env_def qs_simps)
  then obtain r' fs' n' where o: "receiver_on_content ?st 0 1 2 [5] ?r demo_disk demo_net = Some (r', fs', n')"
    "r_outcome r' = None" "r_packets r' \<noteq> []" "r_quiet_deadline r' = from_millis 500" by blast
  have "from_millis 400 < r_quiet_deadline r'" by (simp add: o(4) from_millis_def)
  from stale_deadline_spins [OF receiver_new_wf i(1) o(1,2,3) this, of demo_net] o(1) i(2) show ?thesis by simp
qed

text \<open>A tick never ends a download well.\<close>

lemma tick_not_ok:
  "r_outcome r = None \<Longrightarrow> receiver_on_tick st now r n = (r', n') \<Longrightarrow> r_outcome r' \<noteq> Some (Inr ())"
  by (auto simp: receiver_on_tick_def resend_request_def quiet_timer_def fail_unresponsive_def
      receiver_fail_def recompute_deadline_def Let_def split: if_splits option.splits prod.splits)

end
