(* ===== verification/Registry.thy ===== *)
theory Registry
  imports Sender Receiver
begin

text \<open>
  \<open>TransferRegistry\<close> of \<open>src/src/transfer.rs\<close>: the table of running transfers and its
  dispatch. Senders and receivers are keyed by transfer tid in two maps. Operations take the
  registry, the file system and the network and return what the code changes; \<open>None\<close> is a
  panic of a transfer they call.
\<close>

datatype reg_event =
    Served socket_addr u64
  | NotFound socket_addr
  | SenderFailed socket_addr

record registry =
  segment_root :: string
  senders :: "(u16 \<times> sender_transfer) list"
  receivers :: "(u16 \<times> receiver_transfer) list"
  events :: "reg_event list"

definition registry_new :: "string \<Rightarrow> registry" where
  "registry_new root = \<lparr>segment_root = root, senders = [], receivers = [], events = []\<rparr>"

definition has_segment :: "file_system \<Rightarrow> string \<Rightarrow> registry \<Rightarrow> bool" where
  "has_segment fs filename reg = fs_is_file fs (path_join (segment_root reg) filename)"

definition drain_events :: "registry \<Rightarrow> reg_event list \<times> registry" where
  "drain_events reg = (events reg, reg\<lparr>events := []\<rparr>)"

definition registry_next_deadline :: "registry \<Rightarrow> instant option" where
  "registry_next_deadline reg =
     (let ds = map (sender_deadline \<circ> snd) (senders reg) @ map (r_deadline \<circ> snd) (receivers reg) in
      if ds = [] then None else Some (Min (set ds)))"

definition active_count :: "registry \<Rightarrow> nat" where
  "active_count reg = length (senders reg) + length (receivers reg)"

text \<open>An id from a reading of the system clock (\<open>None\<close>: it reads before the epoch).\<close>

definition random_id :: "nat option \<Rightarrow> u16" where
  "random_id since_epoch =
     (let nanos = (case since_epoch of Some n \<Rightarrow> of_nat n | None \<Rightarrow> 0) :: 128 word in
      ucast (nanos AND 0xFFFF) XOR ucast (drop_bit 16 nanos AND 0xFFFF))"

definition id_free :: "registry \<Rightarrow> u16 \<Rightarrow> bool" where
  "id_free reg tid \<longleftrightarrow> tid \<noteq> 0 \<and> map_of (senders reg) tid = None \<and> map_of (receivers reg) tid = None"

text \<open>The loop over clock readings; \<open>None\<close> where none of the given readings yields a free tid.\<close>

fun fresh_id :: "registry \<Rightarrow> nat option list \<Rightarrow> u16 option" where
  "fresh_id reg [] = None"
| "fresh_id reg (clock # clocks) =
     (let tid = random_id clock in if id_free reg tid then Some tid else fresh_id reg clocks)"

definition send_not_found ::
    "file_system \<Rightarrow> instant \<Rightarrow> u16 \<Rightarrow> socket_addr \<Rightarrow> registry \<Rightarrow> net \<Rightarrow> net" where
  "send_not_found fs now transfer_id src reg n =
     fault_send (encode (SegmentNotFound transfer_id (segment_availability fs (segment_root reg)) False))
       src now n"

definition push_event :: "reg_event \<Rightarrow> registry \<Rightarrow> registry" where
  "push_event e reg = reg\<lparr>events := events reg @ [e]\<rparr>"

definition registry_serve ::
    "file_system \<Rightarrow> instant \<Rightarrow> u16 \<Rightarrow> string \<Rightarrow> socket_addr \<Rightarrow> registry \<Rightarrow> net \<Rightarrow> registry \<times> net" where
  "registry_serve fs now transfer_id filename src reg n =
     (if \<not> valid_filename filename then
        (push_event (NotFound src) reg, send_not_found fs now transfer_id src reg n)
      else if active_count reg \<ge> MAX_CONCURRENT_TRANSFERS then
        (push_event (NotFound src) reg, send_not_found fs now transfer_id src reg n)
      else
        (case fs_read fs (path_join (segment_root reg) filename) of
           Some file \<Rightarrow>
             (reg\<lparr>senders := AList.update transfer_id (sender_new transfer_id src file now) (senders reg)\<rparr>, n)
         | None \<Rightarrow>
             (push_event (NotFound src) reg, send_not_found fs now transfer_id src reg n)))"

definition reject_not_found ::
    "file_system \<Rightarrow> instant \<Rightarrow> u16 \<Rightarrow> socket_addr \<Rightarrow> bool \<Rightarrow> registry \<Rightarrow> net \<Rightarrow> registry \<times> net" where
  "reject_not_found fs now transfer_id src retryable reg n =
     (push_event (NotFound src) reg,
      fault_send (encode (SegmentNotFound transfer_id (segment_availability fs (segment_root reg)) retryable))
        src now n)"

text \<open>The outer option is \<open>fresh_id\<close>'s loop, the inner one the returned transfer tid.\<close>

definition start_receiver ::
    "settings \<Rightarrow> nat option list \<Rightarrow> instant \<Rightarrow> socket_addr \<Rightarrow> string \<Rightarrow> string \<Rightarrow> registry \<Rightarrow> net
      \<Rightarrow> (u16 option \<times> registry \<times> net) option" where
  "start_receiver st clocks now remote data_dir filename reg n =
     (if active_count reg \<ge> MAX_CONCURRENT_TRANSFERS then Some (None, reg, n)
      else
        case fresh_id reg clocks of
          None \<Rightarrow> None
        | Some tid \<Rightarrow>
            let n = fault_send (encode (SegmentRequest tid filename)) remote now n;
                receiver = receiver_new st tid remote filename data_dir now in
            Some (Some tid, reg\<lparr>receivers := AList.update tid receiver (receivers reg)\<rparr>, n))"

definition registry_on_content ::
    "settings \<Rightarrow> instant \<Rightarrow> u16 \<Rightarrow> u16 \<Rightarrow> u16 \<Rightarrow> bytes \<Rightarrow> socket_addr \<Rightarrow> registry \<Rightarrow> file_system \<Rightarrow> net
      \<Rightarrow> (registry \<times> file_system \<times> net) option" where
  "registry_on_content st now transfer_id packet_number total_packets data src reg fs n =
     (case map_of (receivers reg) transfer_id of
        Some r \<Rightarrow>
          (case receiver_on_content st now packet_number total_packets data r fs n of
             None \<Rightarrow> None
           | Some (r', fs', n') \<Rightarrow>
               Some (reg\<lparr>receivers := AList.update transfer_id r' (receivers reg)\<rparr>, fs', n'))
      | None \<Rightarrow> Some (reg, fs, n))"

definition registry_on_ack ::
    "settings \<Rightarrow> instant \<Rightarrow> u16 \<Rightarrow> ack_type \<Rightarrow> u16 \<Rightarrow> u16 \<Rightarrow> socket_addr \<Rightarrow> registry \<Rightarrow> registry" where
  "registry_on_ack st now transfer_id at next_start next_count src reg =
     (case map_of (senders reg) transfer_id of
        Some sender \<Rightarrow>
          (case sender_on_ack st now at next_start next_count sender of
             (True, s) \<Rightarrow>
               (push_event (Served (s_remote s) (sender_payload_bytes s)) reg)
                 \<lparr>senders := AList.delete transfer_id (senders reg)\<rparr>
           | (False, s) \<Rightarrow> reg\<lparr>senders := AList.update transfer_id s (senders reg)\<rparr>)
      | None \<Rightarrow> reg)"

definition registry_on_not_found ::
    "instant \<Rightarrow> u16 \<Rightarrow> bool \<Rightarrow> registry \<Rightarrow> (string \<times> bool) option \<times> registry" where
  "registry_on_not_found now transfer_id retryable reg =
     (case map_of (receivers reg) transfer_id of
        Some r \<Rightarrow>
          (let r' = mark_not_found retryable r;
               reason = (if retryable then PeerNotReady else PeerLacksSegment);
               r' = receiver_fail reason now r' in
           (Some (r_filename r, retryable), reg\<lparr>receivers := AList.update transfer_id r' (receivers reg)\<rparr>))
      | None \<Rightarrow> (None, reg))"

section \<open>Queries on a receiver\<close>

definition receiver_outcome :: "registry \<Rightarrow> u16 \<Rightarrow> (failure + unit) option" where
  "receiver_outcome reg tid = Option.bind (map_of (receivers reg) tid) r_outcome"

definition receiver_unresponsive :: "registry \<Rightarrow> u16 \<Rightarrow> bool" where
  "receiver_unresponsive reg tid =
     (case map_of (receivers reg) tid of Some r \<Rightarrow> r_unresponsive r | None \<Rightarrow> False)"

definition receiver_not_found :: "registry \<Rightarrow> u16 \<Rightarrow> bool" where
  "receiver_not_found reg tid =
     (case map_of (receivers reg) tid of Some r \<Rightarrow> r_not_found r | None \<Rightarrow> False)"

definition receiver_retryable_not_found :: "registry \<Rightarrow> u16 \<Rightarrow> bool" where
  "receiver_retryable_not_found reg tid =
     (case map_of (receivers reg) tid of Some r \<Rightarrow> r_retryable_not_found r | None \<Rightarrow> False)"

definition receiver_first_packet_ms :: "registry \<Rightarrow> u16 \<Rightarrow> u64 option" where
  "receiver_first_packet_ms reg tid = Option.bind (map_of (receivers reg) tid) r_first_packet_latency"

definition receiver_saved_bytes :: "registry \<Rightarrow> u16 \<Rightarrow> u64 option" where
  "receiver_saved_bytes reg tid = Option.bind (map_of (receivers reg) tid) r_saved_bytes"

definition remove_receiver :: "u16 \<Rightarrow> registry \<Rightarrow> registry" where
  "remove_receiver tid reg = reg\<lparr>receivers := AList.delete tid (receivers reg)\<rparr>"

section \<open>The tick\<close>

text \<open>The loop over the senders: their new states, the failures to record, the ids to remove.\<close>

fun tick_senders ::
    "settings \<Rightarrow> instant \<Rightarrow> (u16 \<times> sender_transfer) list \<Rightarrow> net
      \<Rightarrow> ((u16 \<times> sender_transfer) list \<times> reg_event list \<times> u16 list \<times> net) option" where
  "tick_senders st now [] n = Some ([], [], [], n)"
| "tick_senders st now ((tid, s) # ss) n =
     (case sender_tick st now s n of
        None \<Rightarrow> None
      | Some (result, s, n) \<Rightarrow>
          (case tick_senders st now ss n of
             None \<Rightarrow> None
           | Some (ss, evs, expired, n) \<Rightarrow>
               (case result of
                  Inr _ \<Rightarrow> Some ((tid, s) # ss, evs, expired, n)
                | Inl _ \<Rightarrow> Some ((tid, s) # ss, SenderFailed (s_remote s) # evs, tid # expired, n))))"

fun tick_receivers ::
    "settings \<Rightarrow> instant \<Rightarrow> (u16 \<times> receiver_transfer) list \<Rightarrow> net
      \<Rightarrow> (u16 \<times> receiver_transfer) list \<times> u16 list \<times> net" where
  "tick_receivers st now [] n = ([], [], n)"
| "tick_receivers st now ((tid, r) # rs) n =
     (if r_outcome r \<noteq> None then
        (case tick_receivers st now rs n of
           (rs, dead, n) \<Rightarrow> ((tid, r) # rs, if now \<ge> r_deadline r then tid # dead else dead, n))
      else
        (case receiver_on_tick st now r n of
           (r, n) \<Rightarrow> (case tick_receivers st now rs n of (rs, dead, n) \<Rightarrow> ((tid, r) # rs, dead, n))))"

definition registry_tick ::
    "settings \<Rightarrow> instant \<Rightarrow> registry \<Rightarrow> net \<Rightarrow> (registry \<times> net) option" where
  "registry_tick st now reg n =
     (case tick_senders st now (senders reg) n of
        None \<Rightarrow> None
      | Some (ss, evs, expired, n) \<Rightarrow>
          (case tick_receivers st now (receivers reg) n of
             (rs, dead, n) \<Rightarrow>
               Some (reg\<lparr>events := events reg @ evs,
                         senders := fold AList.delete expired ss,
                         receivers := fold AList.delete dead rs\<rparr>, n)))"

section \<open>The registry's invariant\<close>

text \<open>
  Both tables have distinct keys, every transfer is filed under its own id and is well
  formed, and there are never more than 32 of them.
\<close>

definition sender_entry :: "u16 \<Rightarrow> sender_transfer \<Rightarrow> bool" where
  "sender_entry tid s \<longleftrightarrow> sender_ok s \<and> s_transfer_id s = tid"

definition receiver_entry :: "u16 \<Rightarrow> receiver_transfer \<Rightarrow> bool" where
  "receiver_entry tid r \<longleftrightarrow> receiver_wf r \<and> r_transfer_id r = tid"

definition registry_ok :: "registry \<Rightarrow> bool" where
  "registry_ok reg \<longleftrightarrow> table_ok sender_entry (senders reg) \<and> table_ok receiver_entry (receivers reg)
     \<and> active_count reg \<le> MAX_CONCURRENT_TRANSFERS"

lemma push_event_ok [simp]:
  "registry_ok (push_event e reg) = registry_ok reg"
  "senders (push_event e reg) = senders reg" "receivers (push_event e reg) = receivers reg"
  "segment_root (push_event e reg) = segment_root reg"
  "active_count (push_event e reg) = active_count reg"
  by (simp_all add: push_event_def registry_ok_def active_count_def)

lemma registry_ok_senders:
  "registry_ok reg \<Longrightarrow> table_ok sender_entry ss \<Longrightarrow> length ss \<le> length (senders reg)
   \<Longrightarrow> registry_ok (reg\<lparr>senders := ss\<rparr>)"
  by (simp add: registry_ok_def active_count_def)

lemma registry_ok_receivers:
  "registry_ok reg \<Longrightarrow> table_ok receiver_entry rs \<Longrightarrow> length rs \<le> length (receivers reg)
   \<Longrightarrow> registry_ok (reg\<lparr>receivers := rs\<rparr>)"
  by (simp add: registry_ok_def active_count_def)

lemma sender_entry_new: "sender_entry tid (sender_new tid src file now)"
  using sender_new_ok [of tid src "file" now] by (simp add: sender_entry_def sender_new_def Let_def)

lemma receiver_entry_new: "receiver_entry tid (receiver_new st tid dst name dir now)"
  using receiver_new_wf [of st tid dst name dir now] by (simp add: receiver_entry_def receiver_new_def)

lemma serve_ok:
  assumes "registry_ok reg"
  shows "registry_ok (fst (registry_serve fs now tid filename src reg n))"
proof -
  have "registry_ok (reg\<lparr>senders := AList.update tid (sender_new tid src file now) (senders reg)\<rparr>)"
    if "active_count reg < MAX_CONCURRENT_TRANSFERS" for "file"
    using assms that sender_entry_new
    by (auto simp: registry_ok_def active_count_def length_update)
  with assms show ?thesis by (simp add: registry_serve_def split: option.split)
qed

lemma start_receiver_ok:
  assumes "registry_ok reg" and "start_receiver st clocks now dst dir name reg n = Some (res, reg', n')"
  shows "registry_ok reg'"
  using assms
  by (auto simp: start_receiver_def Let_def registry_ok_def active_count_def length_update
      split: if_splits option.splits intro!: table_ok_update receiver_entry_new)

lemma registry_content_step:
  assumes "registry_ok reg"
  shows "\<exists>reg' fs' n'. registry_on_content st now tid pn tot data src reg fs n = Some (reg', fs', n')
    \<and> registry_ok reg'"
proof (cases "map_of (receivers reg) tid")
  case None
  with assms show ?thesis by (simp add: registry_on_content_def)
next
  case (Some r)
  with assms have e: "receiver_entry tid r"
    by (auto simp: registry_ok_def dest: table_ok_lookup)
  have "\<exists>r' fs' n'. receiver_on_content st now pn tot data r fs n = Some (r', fs', n')
      \<and> receiver_wf r' \<and> same_download r r'"
  proof (cases "r_outcome r")
    case None
    with receiver_on_content_step [of r st now pn tot data fs n] e show ?thesis
      by (auto simp: receiver_entry_def receiver_step_def)
  next
    case (Some x)
    with e show ?thesis by (simp add: receiver_on_content_def receiver_entry_def same_download_def)
  qed
  then obtain r' fs' n' where c: "receiver_on_content st now pn tot data r fs n = Some (r', fs', n')"
    and "receiver_entry tid r'" using e by (auto simp: receiver_entry_def same_download_def)
  then have "registry_ok (reg\<lparr>receivers := AList.update tid r' (receivers reg)\<rparr>)"
    using assms Some by (intro registry_ok_receivers) (auto simp: registry_ok_def length_update)
  with c Some show ?thesis by (simp add: registry_on_content_def)
qed

lemma registry_ack_ok:
  assumes "registry_ok reg"
  shows "registry_ok (registry_on_ack st now tid at a c src reg)"
proof (cases "map_of (senders reg) tid")
  case None
  with assms show ?thesis by (simp add: registry_on_ack_def)
next
  case (Some s)
  obtain fin s' where a: "sender_on_ack st now at a c s = (fin, s')" by (cases "sender_on_ack st now at a c s")
  from assms Some have "sender_entry tid s" by (auto simp: registry_ok_def dest: table_ok_lookup)
  then have "sender_entry tid s'"
    using sender_ack_step [OF _ a] by (auto simp: sender_entry_def same_service_def)
  then have "registry_ok (reg\<lparr>senders := AList.update tid s' (senders reg)\<rparr>)"
    using assms Some by (intro registry_ok_senders) (auto simp: registry_ok_def length_update)
  moreover have "registry_ok ((push_event e reg)\<lparr>senders := AList.delete tid (senders reg)\<rparr>)" for e
    using assms by (intro registry_ok_senders) (auto simp: registry_ok_def length_delete_le)
  ultimately show ?thesis using Some a by (simp add: registry_on_ack_def split: bool.split)
qed

lemma registry_not_found_ok:
  assumes "registry_ok reg"
  shows "registry_ok (snd (registry_on_not_found now tid retryable reg))"
proof (cases "map_of (receivers reg) tid")
  case None
  with assms show ?thesis by (simp add: registry_on_not_found_def)
next
  case (Some r)
  with assms have "receiver_entry tid r" by (auto simp: registry_ok_def dest: table_ok_lookup)
  then have "receiver_entry tid (receiver_fail e now (mark_not_found retryable r))" for e
    by (simp add: receiver_entry_def receiver_fail_def mark_not_found_def receiver_wf_def receiver_base_def)
  then have "registry_ok (reg\<lparr>receivers := AList.update tid
      (receiver_fail e now (mark_not_found retryable r)) (receivers reg)\<rparr>)" for e
    using assms Some by (intro registry_ok_receivers) (auto simp: registry_ok_def length_update)
  with Some show ?thesis by (simp add: registry_on_not_found_def Let_def)
qed

lemma tick_senders_step:
  assumes "table_ok sender_entry ss"
  shows "\<exists>ss' evs expired n'. tick_senders st now ss n = Some (ss', evs, expired, n')
    \<and> map fst ss' = map fst ss
    \<and> (\<forall>(tid, s) \<in> set ss'. tid \<in> set expired \<or> sender_entry tid s)"
  using assms
proof (induction ss arbitrary: n)
  case (Cons e ss)
  obtain tid s where e: "e = (tid, s)" by (cases e)
  with Cons.prems have s: "sender_ok s" "s_transfer_id s = tid" and ss: "table_ok sender_entry ss"
    by (auto simp: table_ok_def sender_entry_def)
  obtain r s' where t: "sender_tick st now s n
      = Some (r, s', injector.send_all (map (packet_datagram s) (next_packets now s)) now n)"
    and same: "same_service s s'"
    and k: "if r = Inr () then sender_ok s'
            else r = Inl (s_transfer_id s, s_range s) \<and> unat (s_retry_count s') = 31"
    by (rule sender_tick_step [OF s(1), of st now n])
  obtain ss' evs expired n' where rest: "tick_senders st now ss
      (injector.send_all (map (packet_datagram s) (next_packets now s)) now n) = Some (ss', evs, expired, n')"
    "map fst ss' = map fst ss" "\<forall>(tid, s) \<in> set ss'. tid \<in> set expired \<or> sender_entry tid s"
    using Cons.IH [OF ss] by blast
  show ?case
  proof (cases r)
    case (Inl x)
    with rest t show ?thesis by (fastforce simp: e)
  next
    case (Inr u)
    then have "sender_entry tid s'"
      using k s(2) same by (simp add: sender_entry_def same_service_def)
    with Inr rest t show ?thesis by (fastforce simp: e)
  qed
qed simp

lemma tick_receivers_ok:
  assumes "table_ok receiver_entry rs" and "tick_receivers st now rs n = (rs', dead, n')"
  shows "table_ok receiver_entry rs' \<and> map fst rs' = map fst rs"
  using assms
proof (induction rs arbitrary: n rs' dead n')
  case (Cons e rs)
  obtain tid r where e: "e = (tid, r)" by (cases e)
  obtain r1 n1 where t: "(if r_outcome r \<noteq> None then (r, n) else receiver_on_tick st now r n) = (r1, n1)"
    by (meson surj_pair)
  obtain rs1 dead1 n2 where rest: "tick_receivers st now rs n1 = (rs1, dead1, n2)"
    by (cases "tick_receivers st now rs n1")
  from Cons.prems e have r: "receiver_wf r" "r_transfer_id r = tid" and rs: "table_ok receiver_entry rs"
    by (auto simp: table_ok_def receiver_entry_def)
  have "receiver_entry tid r1"
    using r t receiver_tick_step [OF r(1), of st now n r1 n1]
    by (auto simp: receiver_entry_def same_download_def split: if_splits)
  moreover have "rs' = (tid, r1) # rs1"
    using Cons.prems(2) t rest by (auto simp: e split: if_splits prod.splits)
  ultimately show ?case
    using Cons.IH [OF rs rest] Cons.prems(1) by (auto simp: table_ok_def e)
qed simp

lemma fold_delete_filter: "fold AList.delete ks xs = filter (\<lambda>(k, v). k \<notin> set ks) xs"
  by (induction ks arbitrary: xs) (auto simp: AList.delete_eq split_beta intro: filter_cong)

lemma registry_tick_step:
  assumes "registry_ok reg"
  shows "\<exists>reg' n'. registry_tick st now reg n = Some (reg', n') \<and> registry_ok reg'"
proof -
  from assms have ss: "table_ok sender_entry (senders reg)" and rs: "table_ok receiver_entry (receivers reg)"
    by (simp_all add: registry_ok_def)
  obtain ss' evs expired n1 where s: "tick_senders st now (senders reg) n = Some (ss', evs, expired, n1)"
    "map fst ss' = map fst (senders reg)" "\<forall>(tid, s) \<in> set ss'. tid \<in> set expired \<or> sender_entry tid s"
    using tick_senders_step [OF ss] by blast
  obtain rs' dead n2 where r: "tick_receivers st now (receivers reg) n1 = (rs', dead, n2)"
    by (cases "tick_receivers st now (receivers reg) n1")
  note r' = tick_receivers_ok [OF rs r]
  have "distinct (map fst ss')" using ss s(2) by (simp add: table_ok_def)
  then have "table_ok sender_entry (fold AList.delete expired ss')"
    using s(3) by (auto simp: table_ok_def fold_delete_filter distinct_map_filter)
  moreover have "length (fold AList.delete expired ss') \<le> length (senders reg)"
    using length_deletes [of expired ss'] arg_cong [OF s(2), of length] by simp
  moreover have "length (fold AList.delete dead rs') \<le> length (receivers reg)"
    using length_deletes [of dead rs'] r' map_eq_imp_length_eq [of fst rs' fst "receivers reg"] by simp
  ultimately have "registry_ok (reg\<lparr>events := events reg @ evs, senders := fold AList.delete expired ss',
      receivers := fold AList.delete dead rs'\<rparr>)"
    using assms r' by (auto simp: registry_ok_def active_count_def)
  with s(1) r show ?thesis by (simp add: registry_tick_def)
qed

section \<open>The registry as a state machine\<close>

text \<open>
  One operation of the registry, or a release of delayed datagrams, whatever the peers, the
  clock and the file system's contents are; the operations that may panic step only where
  they return.
\<close>

type_synonym world = "registry \<times> file_system \<times> net"

inductive reg_step :: "settings \<Rightarrow> world \<Rightarrow> world \<Rightarrow> bool" for st where
  serve: "registry_serve fs now tid filename src reg n = (reg', n')
    \<Longrightarrow> reg_step st (reg, fs, n) (reg', fs, n')"
| reject: "reject_not_found fs now tid src retryable reg n = (reg', n')
    \<Longrightarrow> reg_step st (reg, fs, n) (reg', fs, n')"
| start: "start_receiver st clocks now dst dir filename reg n = Some (res, reg', n')
    \<Longrightarrow> reg_step st (reg, fs, n) (reg', fs, n')"
| content: "registry_on_content st now tid pn tot data src reg fs n = Some (reg', fs', n')
    \<Longrightarrow> reg_step st (reg, fs, n) (reg', fs', n')"
| ack: "reg_step st (reg, fs, n) (registry_on_ack st now tid at a c src reg, fs, n)"
| not_found: "reg_step st (reg, fs, n) (snd (registry_on_not_found now tid retryable reg), fs, n)"
| remove: "reg_step st (reg, fs, n) (remove_receiver tid reg, fs, n)"
| drain: "reg_step st (reg, fs, n) (snd (drain_events reg), fs, n)"
| tick: "registry_tick st now reg n = Some (reg', n') \<Longrightarrow> reg_step st (reg, fs, n) (reg', fs, n')"
| flush: "reg_step st (reg, fs, n) (reg, fs, fault_drain now n)"
| disk: "reg_step st (reg, fs, n) (reg, fs', n)"

inductive_cases reg_stepE: "reg_step st (reg, fs, n) w"

lemma reg_step_ok: "reg_step st w w' \<Longrightarrow> registry_ok (fst w) \<Longrightarrow> registry_ok (fst w')"
proof (induction rule: reg_step.induct)
  case (serve fs now tid filename src reg n reg' n')
  then show ?case using serve_ok [of reg fs now tid filename src n] by simp
next
  case (start clocks now dst dir filename reg n res reg' n' fs)
  then show ?case using start_receiver_ok by simp
next
  case (content now tid pn tot data src reg fs n reg' fs' n')
  then show ?case using registry_content_step [of reg st now tid pn tot data src fs n] by auto
next
  case (ack reg fs n now tid at a c src)
  then show ?case using registry_ack_ok by simp
next
  case (not_found reg fs n now tid retryable)
  then show ?case using registry_not_found_ok by simp
next
  case (remove reg fs n tid)
  then have "registry_ok reg" "table_ok receiver_entry (receivers reg)" by (simp_all add: registry_ok_def)
  then show ?case
    by (auto simp: remove_receiver_def length_delete_le intro!: registry_ok_receivers)
next
  case (tick now reg n reg' n' fs)
  then show ?case using registry_tick_step [of reg st now n] by auto
qed (auto simp: reject_not_found_def drain_events_def registry_ok_def active_count_def)

lemma registry_new_ok: "registry_ok (registry_new root)"
  by (simp add: registry_ok_def registry_new_def active_count_def MAX_CONCURRENT_TRANSFERS_def)

lemma reachable_ok:
  assumes "(reg_step st)\<^sup>*\<^sup>* w w'" and "registry_ok (fst w)"
  shows "registry_ok (fst w')"
  using assms(1)
proof (induction rule: rtranclp_induct)
  case base
  show ?case by (fact assms(2))
next
  case (step w1 w2)
  show ?case using step.hyps(2) step.IH by (rule reg_step_ok)
qed

text \<open>C6: In every state the registry can reach, whatever requests, packets, acknowledgements
  and ticks arrive in whatever order, at most 32 transfers run, each is filed once under its
  own id, and each is well formed.\<close>

theorem registry_bounded:
  assumes "(reg_step st)\<^sup>*\<^sup>* (registry_new root, fs, n) (reg, fs', n')"
  shows "length (senders reg) + length (receivers reg) \<le> 32
    \<and> distinct (map fst (senders reg)) \<and> distinct (map fst (receivers reg))
    \<and> (\<forall>(tid, s) \<in> set (senders reg). sender_ok s \<and> s_transfer_id s = tid)
    \<and> (\<forall>(tid, r) \<in> set (receivers reg). receiver_wf r \<and> r_transfer_id r = tid)"
proof -
  have "registry_ok (fst (reg, fs', n'))"
    by (rule reachable_ok [OF assms]) (simp only: fst_conv registry_new_ok)
  then show ?thesis
    by (simp add: registry_ok_def table_ok_def sender_entry_def receiver_entry_def active_count_def
        MAX_CONCURRENT_TRANSFERS_def)
qed

theorem registry_bounded_witness:
  "length (senders (registry_on_ack (settings_from_env (\<lambda>_. None)) 5 7 Complete 0 0 (V4 1 2)
      (registry_new ''/seg''))) \<le> 32"
proof -
  let ?st = "settings_from_env (\<lambda>_. None)"
  let ?n = "(fault_from_env (\<lambda>_. None) None 0, \<lparr>accepts = \<lambda>_. True, wire = []\<rparr>)"
  let ?fs = "\<lparr>files = [], write_failure = (\<lambda>_ _. None), rename_ok = (\<lambda>_ _. True), dir_readable = (\<lambda>_. True)\<rparr>"
  let ?reg = "registry_on_ack ?st 5 7 Complete 0 0 (V4 1 2) (registry_new ''/seg'')"
  have "reg_step ?st (registry_new ''/seg'', ?fs, ?n) (?reg, ?fs, ?n)"
    by (rule reg_step.ack)
  then have "(reg_step ?st)\<^sup>*\<^sup>* (registry_new ''/seg'', ?fs, ?n) (?reg, ?fs, ?n)" by (rule r_into_rtranclp)
  from registry_bounded [OF this] have "length (senders ?reg) + length (receivers ?reg) \<le> 32"
    by (rule conjunct1)
  then show ?thesis by (rule add_leD1)
qed

text \<open>In a well-formed registry neither a tick nor any content packet, from anyone, for
  any transfer id, can panic.\<close>

theorem registry_never_panics:
  assumes "registry_ok reg"
  shows "registry_tick st now reg n \<noteq> None
    \<and> registry_on_content st now tid pn tot data src reg fs n \<noteq> None"
  using registry_tick_step [OF assms, of st now n]
    registry_content_step [OF assms, of st now tid pn tot data src fs n] by auto

theorem registry_never_panics_witness:
  "registry_tick (settings_from_env (\<lambda>_. None)) 5 (registry_new ''/seg'') demo_net \<noteq> None"
  using registry_never_panics [OF registry_new_ok] by blast

section \<open>Requests are answered\<close>

lemma not_found_decodes:
  "decode (encode (SegmentNotFound tid av retryable)) = Inr (SegmentNotFound tid av retryable)"
proof -
  have "msg_ok (SegmentNotFound tid av retryable)"
    using length_encode_availability [of av] by (simp add: msg_ok_def)
  then show ?thesis using wire.dec_enc_exact by fastforce
qed

text \<open>C20: On a clean link no request is ignored: a valid name of a stored file, with a slot
  free, starts a transfer of exactly that file to the requester and sends nothing yet; every
  other request leaves the transfers alone, is recorded, and puts exactly one datagram on
  the wire, to the requester, that decodes to SEGMENT_NOT_FOUND for its transfer id with the
  current inventory.\<close>

theorem serve_answers:
  assumes "clean n"
  shows "case registry_serve fs now tid filename src reg n of (reg', n') \<Rightarrow>
    (case fs_read fs (path_join (segment_root reg) filename) of
       Some file \<Rightarrow>
         if valid_filename filename \<and> active_count reg < MAX_CONCURRENT_TRANSFERS
         then map_of (senders reg') tid = Some (sender_new tid src file now)
           \<and> (\<forall>t. t \<noteq> tid \<longrightarrow> map_of (senders reg') t = map_of (senders reg) t)
           \<and> wire (snd n') = wire (snd n)
         else senders reg' = senders reg \<and> events reg' = events reg @ [NotFound src]
           \<and> (\<exists>d. wire (snd n') = wire (snd n) @ [(d, src)]
                \<and> decode d = Inr (SegmentNotFound tid (segment_availability fs (segment_root reg)) False))
     | None \<Rightarrow> senders reg' = senders reg \<and> events reg' = events reg @ [NotFound src]
           \<and> (\<exists>d. wire (snd n') = wire (snd n) @ [(d, src)]
                \<and> decode d = Inr (SegmentNotFound tid (segment_availability fs (segment_root reg)) False)))"
proof -
  have "wire (snd (send_not_found fs now tid src reg n)) = wire (snd n)
      @ [(encode (SegmentNotFound tid (segment_availability fs (segment_root reg)) False), src)]"
    using assms clean_send [of "fst n" "snd n"] by (simp add: send_not_found_def)
  then show ?thesis
    using not_found_decodes
    by (auto simp: registry_serve_def push_event_def AList.update_conv' split: option.split)
qed

theorem serve_answers_witness:
  "case registry_serve \<lparr>files = [], write_failure = (\<lambda>_ _. None), rename_ok = (\<lambda>_ _. True), dir_readable = (\<lambda>_. False)\<rparr>
      5 7 ''../etc/passwd'' (V4 1 2) (registry_new ''/seg'')
      (fault_from_env (\<lambda>_. None) None 0, \<lparr>accepts = \<lambda>_. True, wire = []\<rparr>) of
     (reg', n') \<Rightarrow> senders reg' = [] \<and> events reg' = [NotFound (V4 1 2)]
       \<and> (\<exists>d. wire (snd n') = [(d, V4 1 2)] \<and> decode d = Inr (SegmentNotFound 7 None False))"
proof -
  have "clean (fault_from_env (\<lambda>_. None) None 0, \<lparr>accepts = \<lambda>_. True, wire = []\<rparr>)"
    by (simp add: clean_def fault_from_env_def fault_enabled_def accepting_def)
  from serve_answers [OF this, where reg = "registry_new ''/seg''" and now = 5 and tid = 7
      and filename = "''../etc/passwd''" and src = "V4 1 2" and fs = "\<lparr>files = [], write_failure = (\<lambda>_ _. None),
        rename_ok = (\<lambda>_ _. True), dir_readable = (\<lambda>_. False)\<rparr>"]
  show ?thesis
    by (simp add: fs_read_def registry_new_def segment_availability_def fs_read_dir_def split: prod.splits)
qed

section \<open>Identifiers\<close>

lemma fresh_id_free: "fresh_id reg clocks = Some tid \<Longrightarrow> id_free reg tid"
  by (induction clocks) (auto simp: Let_def split: if_splits)

lemma fresh_id_None: "fresh_id reg clocks = None \<Longrightarrow> \<forall>clock \<in> set clocks. \<not> id_free reg (random_id clock)"
  by (induction clocks) (auto simp: Let_def split: if_splits)

lemma taken_ids:
  assumes "registry_ok reg"
  shows "finite {tid. \<not> id_free reg tid} \<and> card {tid. \<not> id_free reg tid} \<le> 33"
proof -
  have eq: "{tid. \<not> id_free reg tid} = insert 0 (fst ` set (senders reg) \<union> fst ` set (receivers reg))"
    by (auto simp: id_free_def map_of_eq_None_iff)
  have "card (fst ` set (senders reg) \<union> fst ` set (receivers reg)) \<le> 32"
  proof -
    have "card (fst ` set (senders reg)) \<le> length (senders reg)"
      "card (fst ` set (receivers reg)) \<le> length (receivers reg)"
      using card_length [of "map fst (senders reg)"] card_length [of "map fst (receivers reg)"] by simp_all
    with card_Un_le [of "fst ` set (senders reg)" "fst ` set (receivers reg)"] assms show ?thesis
      by (simp add: registry_ok_def active_count_def MAX_CONCURRENT_TRANSFERS_def)
  qed
  then show ?thesis unfolding eq by (simp add: card_insert_if)
qed

text \<open>The first 34 nanosecond readings give 34 different ids.\<close>

lemma random_id_small:
  assumes that: "n < 34"
  shows "random_id (Some n) = of_nat n"
proof -
  have n: "unat (of_nat n :: 128 word) = n" using that by (simp add: unat_of_nat take_bit_nat_eq_self)
  have "(0xFFFF :: 128 word) = semiring_bit_operations_class.mask 16" by (simp add: mask_eq_exp_minus_1)
  then have "(of_nat n :: 128 word) AND 0xFFFF = take_bit 16 (of_nat n)" by (simp only: take_bit_eq_mask)
  also have "\<dots> = of_nat n"
    using that by (simp add: word_unat_eq_iff unsigned_take_bit_eq n take_bit_nat_eq_self)
  finally have "(of_nat n :: 128 word) AND 0xFFFF = of_nat n" .
  moreover have "drop_bit 16 (of_nat n :: 128 word) = 0"
    using that by (simp only: word_unat_eq_iff unsigned_drop_bit_eq n)
      (simp add: drop_bit_eq_div take_bit_nat_eq_self)
  ultimately have "random_id (Some n) = ucast (of_nat n :: 128 word)"
    by (simp only: random_id_def Let_def option.case) simp
  moreover have "unat (ucast (of_nat n :: 128 word) :: u16) = unat (of_nat n :: u16)"
    using that by (simp only: unsigned_ucast_eq n) (simp add: take_bit_nat_eq_self unat_of_nat_u16)
  ultimately show ?thesis by (simp only: word_unat_eq_iff)
qed

lemma clocks_34: "34 \<le> card (random_id ` set (map Some [0..<34]))"
proof -
  have "random_id ` set (map Some [0..<34]) = of_nat ` {0..<34}"
    using random_id_small by (force simp: image_image)
  moreover have "inj_on (of_nat :: nat \<Rightarrow> u16) {0..<34}"
    by (rule inj_on_inverseI [of _ unat]) (simp add: unat_of_nat_u16)
  ultimately show ?thesis by (simp only: card_image) simp
qed

text \<open>C36: A new download's id is never 0 nor one in use, and the search for it ends: at most
  33 ids are taken, so among clock readings that give 34 different ids one is accepted.\<close>

theorem fresh_id_found:
  assumes "registry_ok reg" and "34 \<le> card (random_id ` set clocks)"
  shows "\<exists>tid. fresh_id reg clocks = Some tid \<and> tid \<noteq> 0
    \<and> map_of (senders reg) tid = None \<and> map_of (receivers reg) tid = None"
proof (cases "fresh_id reg clocks")
  case None
  then have "random_id ` set clocks \<subseteq> {tid. \<not> id_free reg tid}"
    using fresh_id_None by blast
  then have "card (random_id ` set clocks) \<le> 33"
    using taken_ids [OF assms(1)] by (meson card_mono le_trans)
  with assms(2) show ?thesis by simp
next
  case (Some tid)
  then show ?thesis using fresh_id_free [OF Some] by (simp add: id_free_def)
qed

theorem fresh_id_found_witness:
  "\<exists>tid. fresh_id (registry_new ''/seg'') (map Some [0..<34]) = Some tid \<and> tid \<noteq> 0"
  using fresh_id_found [OF registry_new_ok clocks_34] by blast

section \<open>The end of a transfer\<close>

text \<open>A COMPLETE acknowledgement frees exactly the slot of its transfer and records who was
  served and how many bytes the file has; every other transfer is untouched.\<close>

theorem complete_frees_slot:
  assumes "registry_ok reg" and "map_of (senders reg) tid = Some s"
  shows "(let reg' = registry_on_ack st now tid Complete a c src reg in
      map_of (senders reg') tid = None
      \<and> (\<forall>t. t \<noteq> tid \<longrightarrow> map_of (senders reg') t = map_of (senders reg) t)
      \<and> Suc (active_count reg') = active_count reg
      \<and> receivers reg' = receivers reg
      \<and> events reg' = events reg @ [Served (s_remote s) (of_nat (length (s_file s)))])"
proof -
  have "Suc (length (AList.delete tid (senders reg))) = length (senders reg)"
  proof -
    have d: "distinct (map fst (senders reg))" using assms(1) by (simp add: registry_ok_def table_ok_def)
    have "tid \<in> set (map fst (senders reg))" using assms(2) by (force dest: map_of_SomeD)
    moreover have "map fst (AList.delete tid (senders reg)) = remove1 tid (map fst (senders reg))"
      using d by (simp only: AList.delete_keys distinct_remove1_removeAll)
    ultimately have "length (map fst (AList.delete tid (senders reg))) = length (senders reg) - 1"
      by (simp only: length_remove1) simp
    moreover have "0 < length (senders reg)" using assms(2) by (cases "senders reg") auto
    ultimately show ?thesis by simp
  qed
  then show ?thesis
    using assms(2)
    by (simp add: registry_on_ack_def sender_on_ack_def push_event_def AList.delete_conv'
        active_count_def sender_payload_bytes_def)
qed

theorem complete_frees_slot_witness:
  "\<exists>s. map_of (senders (registry_on_ack (settings_from_env (\<lambda>_. None)) 9 7 Complete 0 0 (V4 9 9)
      (\<lparr>segment_root = ''/seg'', senders = [(7, s)], receivers = [], events = []\<rparr>))) 7 = None"
proof -
  let ?s = "sender_new 7 (V4 1 2) [1, 2, 3] 0"
  let ?reg = "\<lparr>segment_root = ''/seg'', senders = [(7, ?s)], receivers = [], events = []\<rparr>"
  have "registry_ok ?reg"
    using sender_entry_new [of 7 "V4 1 2" "[1, 2, 3]" 0]
    by (simp add: registry_ok_def table_ok_def active_count_def MAX_CONCURRENT_TRANSFERS_def)
  moreover have "map_of (senders ?reg) 7 = Some ?s" by simp
  ultimately show ?thesis
    using complete_frees_slot [of ?reg 7 ?s] unfolding Let_def by blast
qed

text \<open>A request whose transfer id is already being served, from whomever, replaces the
  running transfer: the first requester's window is gone, no outcome is recorded for it, and
  the packets of that id now go to the newcomer.\<close>

theorem serve_same_id_replaces:
  assumes "map_of (senders reg) tid = Some s" and "valid_filename filename"
    and "active_count reg < MAX_CONCURRENT_TRANSFERS"
    and "fs_read fs (path_join (segment_root reg) filename) = Some file"
    and "registry_serve fs now tid filename src reg n = (reg', n')"
  shows "map_of (senders reg') tid = Some (sender_new tid src file now)
    \<and> s_remote (sender_new tid src file now) = src
    \<and> active_count reg' = active_count reg \<and> events reg' = events reg"
  using assms
  by (auto simp: registry_serve_def AList.update_conv' active_count_def length_update sender_new_def Let_def)

theorem serve_same_id_replaces_witness:
  "map_of (senders (fst (registry_serve
      \<lparr>files = [(''/seg/a.ts'', [1])], write_failure = (\<lambda>_ _. None), rename_ok = (\<lambda>_ _. True), dir_readable = (\<lambda>_. True)\<rparr>
      5 7 ''a.ts'' (V4 9 9)
      \<lparr>segment_root = ''/seg'', senders = [(7, sender_new 7 (V4 1 2) [1, 2, 3] 0)], receivers = [], events = []\<rparr> demo_net))) 7
    = Some (sender_new 7 (V4 9 9) [1] 5)"
proof -
  let ?fs = "\<lparr>files = [(''/seg/a.ts'', [1])], write_failure = (\<lambda>_ _. None), rename_ok = (\<lambda>_ _. True), dir_readable = (\<lambda>_. True)\<rparr>"
  let ?reg = "\<lparr>segment_root = ''/seg'', senders = [(7, sender_new 7 (V4 1 2) [1, 2, 3] 0)], receivers = [], events = []\<rparr>"
  have demo_net: "map_of (senders ?reg) 7 = Some (sender_new 7 (V4 1 2) [1, 2, 3] 0)" by simp
  have v: "valid_filename ''a.ts''"
    by (simp add: valid_filename_def is_ascii_graphic_def starts_with_def)
  have c: "active_count ?reg < MAX_CONCURRENT_TRANSFERS"
    by (simp add: active_count_def MAX_CONCURRENT_TRANSFERS_def)
  have f: "fs_read ?fs (path_join (segment_root ?reg) ''a.ts'') = Some [1]"
    by (simp add: fs_read_def path_join_def starts_with_def ends_with_def suffix_def)
  obtain reg' n' where s: "registry_serve ?fs 5 7 ''a.ts'' (V4 9 9) ?reg demo_net = (reg', n')"
    by (cases "registry_serve ?fs 5 7 ''a.ts'' (V4 9 9) ?reg demo_net")
  from serve_same_id_replaces [OF demo_net v c f s] s show ?thesis by simp
qed

end
