(* ===== verification/Exchange.thy ===== *)
theory Exchange
  imports Registry
begin

text \<open>
  A sender and a receiver of the same transfer, each with its own carrier, over a network
  that may lose, delay, repeat and reorder: a datagram that ever reached a wire may arrive
  at any time, any number of times. The sender's side is what \<open>SenderTransfer\<close> does with the
  acknowledgements that arrive, the receiver's what \<open>ReceiverTransfer\<close> does with the content.
\<close>

record exchange =
  x_sender :: sender_transfer
  x_snet :: net
  x_receiver :: receiver_transfer
  x_fs :: file_system
  x_rnet :: net

text \<open>A sender whose tick fails is freed by the registry, so only successful ticks step.\<close>

inductive exchange_step :: "settings \<Rightarrow> exchange \<Rightarrow> exchange \<Rightarrow> bool" for st where
  sender_ticks: "sender_tick st now (x_sender x) (x_snet x) = Some (Inr u, s', n')
    \<Longrightarrow> exchange_step st x (x\<lparr>x_sender := s', x_snet := n'\<rparr>)"
| sender_flushes: "exchange_step st x (x\<lparr>x_snet := fault_drain now (x_snet x)\<rparr>)"
| receiver_ticks: "receiver_on_tick st now (x_receiver x) (x_rnet x) = (r', n')
    \<Longrightarrow> exchange_step st x (x\<lparr>x_receiver := r', x_rnet := n'\<rparr>)"
| receiver_flushes: "exchange_step st x (x\<lparr>x_rnet := fault_drain now (x_rnet x)\<rparr>)"
| content_arrives: "(d, dst) \<in> net_wire (x_snet x) \<Longrightarrow> decode d = Inr (SegmentContents tid pn tot data)
    \<Longrightarrow> tid = r_transfer_id (x_receiver x)
    \<Longrightarrow> receiver_on_content st now pn tot data (x_receiver x) (x_fs x) (x_rnet x) = Some (r', fs', n')
    \<Longrightarrow> exchange_step st x (x\<lparr>x_receiver := r', x_fs := fs', x_rnet := n'\<rparr>)"
| ack_arrives: "(d, dst) \<in> net_wire (x_rnet x) \<Longrightarrow> decode d = Inr (Ack tid Progress a c)
    \<Longrightarrow> tid = s_transfer_id (x_sender x)
    \<Longrightarrow> sender_on_ack st now Progress a c (x_sender x) = (False, s')
    \<Longrightarrow> exchange_step st x (x\<lparr>x_sender := s'\<rparr>)"

text \<open>
  The invariant: the sender still serves the file, its carrier holds nothing but genuine
  packets, what the receiver has stored is genuine, and a successful outcome means the file
  is on disk.
\<close>

definition exchange_ok :: "sender_transfer \<Rightarrow> receiver_transfer \<Rightarrow> exchange \<Rightarrow> bool" where
  "exchange_ok s0 r0 x \<longleftrightarrow>
     sender_ok (x_sender x) \<and> same_service s0 (x_sender x)
     \<and> net_known (x_snet x) \<subseteq> content_datagrams s0
     \<and> receiver_wf (x_receiver x) \<and> same_download r0 (x_receiver x)
     \<and> net_known (x_rnet x) \<subseteq> ack_datagrams r0 \<union> request_datagrams r0
     \<and> genuine (s_file s0) (r_packets (x_receiver x))
     \<and> (r_total (x_receiver x) \<noteq> None \<longrightarrow> r_total (x_receiver x) = Some (packet_count (length (s_file s0))))
     \<and> (r_outcome (x_receiver x) = Some (Inr ()) \<longrightarrow>
          fs_read (x_fs x) (final_path r0) = Some (take 91749000 (s_file s0)))"

lemma same_service_trans: "same_service s s' \<Longrightarrow> same_service s' s'' \<Longrightarrow> same_service s s''"
  by (simp add: same_service_def)

lemma content_datagrams_same: "same_service s s' \<Longrightarrow> content_datagrams s' = content_datagrams s"
  by (simp add: content_datagrams_def packet_datagram_same) (simp add: same_service_def)

lemma content_decodes:
  "length data < 65536 \<Longrightarrow> decode (encode (SegmentContents tid pn tot data)) = Inr (SegmentContents tid pn tot data)"
  using wire.dec_enc_exact [of "SegmentContents tid pn tot data"] by (simp add: msg_ok_def)

text \<open>What a receiver reads out of a genuine datagram.\<close>

lemma content_datagram_genuine:
  assumes "(d, dst) \<in> content_datagrams s" and "decode d = Inr (SegmentContents tid pn tot data)"
  shows "tid = s_transfer_id s \<and> tot = s_total s \<and> dst = s_remote s
    \<and> 1 \<le> unat pn \<and> unat pn \<le> unat (s_total s) \<and> data = chunk (s_file s) (unat pn)"
proof -
  from assms(1) obtain k where k: "1 \<le> k" "k \<le> unat (s_total s)"
    and d: "d = encode (SegmentContents (s_transfer_id s) (of_nat k) (s_total s) (chunk (s_file s) k))"
    and dst: "dst = s_remote s"
    by (auto simp: content_datagrams_def packet_datagram_def)
  have "unat (of_nat k :: u16) = k"
    using k(2) unat_u16_le [of "s_total s"] by (intro unat_of_nat_u16) linarith
  moreover have "length (chunk (s_file s) k) < 65536" by (simp add: length_chunk)
  ultimately show ?thesis
    using assms(2) k dst by (simp add: d content_decodes)
qed

lemma ack_tick_datagrams: "same_download r0 r \<Longrightarrow> request_datagrams r = request_datagrams r0"
  by (simp add: same_download_def request_datagrams_def)

lemma exchange_step_ok:
  assumes "exchange_step st x x'" and "exchange_ok s0 r0 x"
  shows "exchange_ok s0 r0 x'"
  using assms
proof (induction rule: exchange_step.induct)
  case (sender_ticks now x u s' n')
  then have ok: "sender_ok (x_sender x)" and s: "same_service s0 (x_sender x)"
    by (simp_all add: exchange_ok_def)
  obtain y s1 where t: "sender_tick st now (x_sender x) (x_snet x) = Some (y, s1, injector.send_all
      (map (packet_datagram (x_sender x)) (next_packets now (x_sender x))) now (x_snet x))"
    and same: "same_service (x_sender x) s1"
    and next_ok: "if y = Inr () then sender_ok s1
         else y = Inl (s_transfer_id (x_sender x), s_range (x_sender x)) \<and> unat (s_retry_count s1) = 31"
    by (rule sender_tick_step [OF ok, of st now "x_snet x"])
  have y: "y = Inr u" "s1 = s'" "n' = injector.send_all
      (map (packet_datagram (x_sender x)) (next_packets now (x_sender x))) now (x_snet x)"
    using t sender_ticks.hyps by simp_all
  have "net_known n' \<subseteq> content_datagrams s0 \<union> net_known (x_snet x)"
    using injector.send_all_known content_datagrams_next [OF ok, of now]
    unfolding y(3) content_datagrams_same [OF s] by blast
  moreover have "same_service s0 s'" using same_service_trans [OF s same] y by simp
  moreover have "sender_ok s'" using next_ok y by simp
  ultimately show ?case
    using sender_ticks.prems by (simp add: exchange_ok_def) blast
next
  case (sender_flushes x now)
  then show ?case
    using injector.flush_known [of now "x_snet x"] by (auto simp: exchange_ok_def)
next
  case (receiver_ticks now x r' n')
  then have wf: "receiver_wf (x_receiver x)" and same: "same_download r0 (x_receiver x)"
    by (simp_all add: exchange_ok_def)
  show ?case
  proof (cases "r_outcome (x_receiver x)")
    case None
    note step = receiver_tick_step [OF wf None receiver_ticks.hyps]
    moreover have "r_outcome r' \<noteq> Some (Inr ())"
      using tick_not_ok [OF None receiver_ticks.hyps] .
    ultimately show ?thesis
      using receiver_ticks.prems same_download_trans [OF same, of r'] same_download_acks [OF same]
        ack_tick_datagrams [OF same]
      by (auto simp: exchange_ok_def)
  next
    case (Some outcome)
    with receiver_ticks show ?thesis by (auto simp: receiver_on_tick_def exchange_ok_def)
  qed
next
  case (receiver_flushes x now)
  then show ?case
    using injector.flush_known [of now "x_rnet x"] by (auto simp: exchange_ok_def)
next
  case (content_arrives d dst x tid pn tot data now r' fs' n')
  then have wf: "receiver_wf (x_receiver x)" and same: "same_download r0 (x_receiver x)"
    and gen: "genuine (s_file s0) (r_packets (x_receiver x))" and s: "same_service s0 (x_sender x)"
    and ok: "sender_ok (x_sender x)"
    by (simp_all add: exchange_ok_def)
  have "(d, dst) \<in> content_datagrams s0"
    using injector.wire_known [of "x_snet x"] content_arrives.hyps(1) content_arrives.prems
    by (auto simp: exchange_ok_def)
  note c = content_datagram_genuine [OF this content_arrives.hyps(2)]
  have pc: "s_total s0 = packet_count (length (s_file s0))"
    using ok s by (auto simp: sender_ok_def same_service_def)
  show ?case
  proof (cases "r_outcome (x_receiver x)")
    case None
    have tot: "total_after tot (x_receiver x) = packet_count (length (s_file s0))"
      using content_arrives.prems c pc by (auto simp: total_after_def exchange_ok_def split: option.split)
    have data: "data = chunk (s_file s0) (unat pn)" using c by simp
    note g = content_genuine [OF wf None gen tot data content_arrives.hyps(4)]
    have "receiver_step (x_receiver x) (x_rnet x) r' n'"
      using receiver_on_content_step [OF wf None, of st now pn tot data "x_fs x" "x_rnet x"]
        content_arrives.hyps(4) by auto
    then show ?thesis
      using content_arrives.prems g same_download_trans [OF same, of r'] same_download_acks [OF same]
        same_download_path [OF same]
      by (auto simp: exchange_ok_def receiver_step_def)
  next
    case (Some outcome)
    then show ?thesis
      using content_arrives send_ack_carries(2) [of now "x_receiver x" "x_rnet x"] same_download_acks [OF same]
      by (auto simp: receiver_on_content_def exchange_ok_def split: if_splits)
  qed
next
  case (ack_arrives d dst x tid a c now s')
  then show ?case
    using sender_ack_step [of "x_sender x" st now Progress a c False s']
      same_service_trans [of s0 "x_sender x" s']
    by (auto simp: exchange_ok_def)
qed

text \<open>Both sides as they start, with nothing of this transfer in the network yet.\<close>

definition exchange_start ::
    "settings \<Rightarrow> u16 \<Rightarrow> bytes \<Rightarrow> string \<Rightarrow> string \<Rightarrow> socket_addr \<Rightarrow> socket_addr \<Rightarrow> instant \<Rightarrow> instant
      \<Rightarrow> net \<Rightarrow> file_system \<Rightarrow> net \<Rightarrow> exchange" where
  "exchange_start st tid file name dir here there t0 t1 ns fs nr =
     \<lparr>x_sender = sender_new tid here file t1, x_snet = ns,
      x_receiver = receiver_new st tid there name dir t0, x_fs = fs, x_rnet = nr\<rparr>"

lemma exchange_start_ok:
  assumes "net_known ns = {}" and "net_known nr = {}"
  shows "exchange_ok (sender_new tid here file t1) (receiver_new st tid there name dir t0)
    (exchange_start st tid file name dir here there t0 t1 ns fs nr)"
  using assms sender_new_ok [of tid here "file" t1] receiver_new_wf [of st tid there name dir t0]
  by (simp add: exchange_ok_def exchange_start_def same_service_def same_download_def genuine_def)
     (simp add: receiver_new_def)

lemma exchange_reachable_ok:
  assumes "(exchange_step st)\<^sup>*\<^sup>* x x'" and "exchange_ok s0 r0 x"
  shows "exchange_ok s0 r0 x'"
  using assms(1)
proof (induction rule: rtranclp_induct)
  case base
  show ?case by (fact assms(2))
next
  case (step x1 x2)
  show ?case using step.hyps(2) step.IH by (rule exchange_step_ok)
qed

text \<open>C2: End to end, over any network that loses, delays, repeats and reorders: whenever the
  receiver reports success, the file on its disk is the file the sender serves (its first
  91,749,000 bytes); and at every moment the sender's wire carries nothing but genuine
  packets and the receiver's nothing but its acknowledgements and its request.\<close>

theorem exchange_integrity:
  assumes "(exchange_step st)\<^sup>*\<^sup>* (exchange_start st tid file name dir here there t0 t1 ns fs nr) x"
    and "net_known ns = {}" and "net_known nr = {}"
  shows "(r_outcome (x_receiver x) = Some (Inr ()) \<longrightarrow>
      fs_read (x_fs x) (path_join dir name) = Some (take 91749000 file))
    \<and> net_wire (x_snet x) \<subseteq> content_datagrams (sender_new tid here file t1)
    \<and> net_wire (x_rnet x) \<subseteq> ack_datagrams (receiver_new st tid there name dir t0)
        \<union> request_datagrams (receiver_new st tid there name dir t0)"
proof -
  have "exchange_ok (sender_new tid here file t1) (receiver_new st tid there name dir t0) x"
    by (rule exchange_reachable_ok [OF assms(1) exchange_start_ok [OF assms(2,3)]])
  then show ?thesis
    using injector.wire_known [of "x_snet x"] injector.wire_known [of "x_rnet x"]
    by (auto simp: exchange_ok_def final_path_def receiver_new_def sender_new_def Let_def)
qed

end
