(* ===== verification/Delivery.thy ===== *)
theory Delivery
  imports Exchange
begin

text \<open>
  Progress: over a clean network a download completes. A round is what the two sides do
  when nothing is lost: the sender's ticks for one window, the arrival of its packets in
  order, and the arrival of the receiver's answer. The rounds end with the file on disk and
  the sender freed.
\<close>

section \<open>The receiver's side of a round\<close>

text \<open>
  The receiver has the first \<open>k\<close> packets of the window and waits for the next; before any
  packet arrived the window is the one both sides start with.
\<close>

definition awaiting :: "bytes \<Rightarrow> u16 \<times> u16 \<Rightarrow> nat \<Rightarrow> receiver_transfer \<Rightarrow> bool" where
  "awaiting file window k r \<longleftrightarrow>
     receiver_wf r \<and> r_outcome r = None \<and> genuine file (r_packets r)
     \<and> got r = {1..<unat (fst window) + k} \<and> k < unat (snd window)
     \<and> (r_total r = Some (packet_count (length file)) \<and> r_range r = Some window
        \<or> r_total r = None \<and> window = (1, min INITIAL_WINDOW (packet_count (length file))) \<and> k = 0)"

definition disk_ok :: "file_system \<Rightarrow> bool" where
  "disk_ok fs \<longleftrightarrow> (\<forall>p data. write_failure fs p data = None) \<and> (\<forall>a b. rename_ok fs a b)"

lemma awaiting_first:
  assumes "awaiting file window k r"
  shows "awaiting file window k (first_content st now (packet_count (length file)) r)
    \<and> r_total (first_content st now (packet_count (length file)) r) = Some (packet_count (length file))
    \<and> r_range (first_content st now (packet_count (length file)) r) = Some window"
  using assms first_content_wf [of r st now "packet_count (length file)"]
  by (auto simp: awaiting_def) (auto simp: first_content_def Let_def)

lemma awaiting_window:
  assumes "awaiting file (start, count) k r"
  shows "1 \<le> unat start \<and> unat start + unat count \<le> unat (packet_count (length file)) + 1"
  using assms packet_count_pos [of "length file"]
  by (auto simp: awaiting_def receiver_wf_def window_ok_def unat_min)

text \<open>The next packet of the window: what storing it leads to.\<close>

lemma next_packet:
  assumes "awaiting file (start, count) k r" and tot: "tot = packet_count (length file)"
    and pn: "pn = of_nat (unat start + k)"
  shows "\<exists>r1. receiver_on_content st now pn tot (chunk file (unat start + k)) r fs n
      = after_store st now start count tot r1 fs n
    \<and> receiver_base r1 \<and> r_outcome r1 = None \<and> r_total r1 = Some tot
    \<and> unat (r_retry_count r1) \<le> 8 \<and> r_range r1 = Some (start, count)
    \<and> got r1 = {1..<unat start + Suc k} \<and> genuine file (r_packets r1)
    \<and> same_download r r1"
proof -
  let ?f = "first_content st now tot r"
  let ?r1 = "store_packet st now pn (chunk file (unat start + k)) ?f"
  note a = awaiting_first [OF assms(1), of st now, folded tot] and w = awaiting_window [OF assms(1), folded tot]
  have k: "k < unat count" using assms(1) by (simp add: awaiting_def)
  have u: "unat pn = unat start + k"
    unfolding pn using w k unat_u16_le [of tot] by (intro unat_of_nat_u16) simp
  have total: "total_after tot r = tot"
    using assms(1) by (auto simp: total_after_def awaiting_def tot)
  have new: "\<not> has_packet ?f pn"
    using a by (simp add: has_packet_got u awaiting_def)
  have run: "r_outcome r = None" using assms(1) by (simp add: awaiting_def)
  have "pn \<noteq> 0" "\<not> pn > tot" using u w k by (auto simp: word_less_nat_alt)
  then have "receiver_on_content st now pn tot (chunk file (unat start + k)) r fs n
      = after_store st now start count tot ?r1 fs n"
    using receiver_on_content_eq [OF run, of st now tot start count pn] a k new u total
    by (simp add: Let_def)
  moreover have "genuine file (r_packets ?r1)"
    using genuine_update [of "file" "r_packets r" pn] assms(1) w k u
    by (simp add: awaiting_def tot)
  moreover have "got ?r1 = {1..<unat start + Suc k}"
    using a w u by (auto simp: awaiting_def)
  moreover have "receiver_base ?r1" "unat (r_retry_count ?r1) \<le> 8"
    using assms(1) by (auto simp: awaiting_def receiver_wf_def receiver_base_def AList.distinct_update)
  moreover have "same_download r ?r1"
    by (rule same_download_trans [of r ?f]) simp_all
  ultimately show ?thesis using a run total by (intro exI [of _ ?r1]) (simp add: total_after_def)
qed

text \<open>In the middle of a window nothing is answered; at its end the next window is requested.\<close>

lemma next_packet_middle:
  assumes "awaiting file (start, count) k r" and "tot = packet_count (length file)"
    and "pn = of_nat (unat start + k)" and "Suc k < unat count"
  shows "\<exists>r'. receiver_on_content st now pn tot (chunk file (unat start + k)) r fs n = Some (r', fs, n)
    \<and> awaiting file (start, count) (Suc k) r' \<and> same_download r r'"
proof -
  note w = awaiting_window [OF assms(1)]
  from next_packet [OF assms(1-3), of st now fs n] obtain r1 where
    r1: "receiver_on_content st now pn tot (chunk file (unat start + k)) r fs n
      = after_store st now start count tot r1 fs n"
    "receiver_base r1" "r_outcome r1 = None" "r_total r1 = Some tot"
    "unat (r_retry_count r1) \<le> 8" "r_range r1 = Some (start, count)"
    "got r1 = {1..<unat start + Suc k}" "genuine file (r_packets r1)" "same_download r r1" by blast
  have len: "length (r_packets r1) = unat start + k"
    using card_got [of r1] r1(2,7) w by (simp add: receiver_base_def)
  have open': "\<not> {unat start..<unat start + unat count} \<subseteq> got r1"
    using assms(4) by (auto simp: r1(7) dest: subsetD [where c = "unat start + Suc k"])
  have t: "unat tot \<le> 65535" by (rule unat_u16_le)
  have "unat (of_nat (length (r_packets r1)) :: u32) = unat start + k"
    unfolding len using w assms(4) t [unfolded assms(2)] by (intro unat_of_nat_u32) linarith
  then have "\<not> of_nat (length (r_packets r1)) \<ge> (ucast tot :: u32)"
    using w assms(2,4) by (simp add: word_le_nat_alt)
  moreover have "\<not> range_complete r1 start count"
    using open' w assms(2) t by (subst range_complete_got) auto
  ultimately have "receiver_on_content st now pn tot (chunk file (unat start + k)) r fs n = Some (r1, fs, n)"
    by (simp add: r1(1) after_store_def)
  moreover have "receiver_wf r1"
    using r1 w open' assms(2,4) by (auto simp: receiver_wf_def window_ok_def)
  ultimately show ?thesis
    using r1 assms(2,4) by (intro exI [of _ r1]) (simp add: awaiting_def)
qed

lemma next_packet_last:
  assumes "awaiting file (start, count) k r" and "tot = packet_count (length file)"
    and "pn = of_nat (unat start + k)" and "Suc k = unat count" and "unat start + unat count \<le> unat tot"
  shows "\<exists>r' w. receiver_on_content st now pn tot (chunk file (unat start + k)) r fs n
      = Some (r', fs, send_ack w now r' n)
    \<and> awaiting file w 0 r' \<and> unat (fst w) = unat start + unat count \<and> same_download r r'"
proof -
  note w = awaiting_window [OF assms(1)]
  from next_packet [OF assms(1-3), of st now fs n] obtain r1 where
    r1: "receiver_on_content st now pn tot (chunk file (unat start + k)) r fs n
      = after_store st now start count tot r1 fs n"
    "receiver_base r1" "r_outcome r1 = None" "r_total r1 = Some tot"
    "unat (r_retry_count r1) \<le> 8" "r_range r1 = Some (start, count)"
    "got r1 = {1..<unat start + Suc k}" "genuine file (r_packets r1)" "same_download r r1" by blast
  have g: "got r1 = {1..<unat start + unat count}" using r1(7) assms(4) by simp
  have len: "length (r_packets r1) = unat start + k"
    using card_got [of r1] r1(2,7) w by (simp add: receiver_base_def)
  have t: "unat tot \<le> 65535" by (rule unat_u16_le)
  have "unat (of_nat (length (r_packets r1)) :: u32) = unat start + k"
    unfolding len using assms(4,5) t by (intro unat_of_nat_u32) linarith
  then have "\<not> of_nat (length (r_packets r1)) \<ge> (ucast tot :: u32)"
    using assms(4,5) by (simp add: word_le_nat_alt)
  moreover have "range_complete r1 start count"
    using g w assms(5) t by (subst range_complete_got) auto
  ultimately have eq: "receiver_on_content st now pn tot (chunk file (unat start + k)) r fs n
      = receiver_advance st now start count tot r1 fs n"
    by (simp add: r1(1) after_store_def)
  have pos: "1 \<le> unat start" "0 < unat count" using w assms(4) by simp_all
  obtain r' w' where adv: "receiver_advance st now start count tot r1 fs n = Some (r', fs, send_ack w' now r' n)"
    "r_range r' = Some w'" "unat (fst w') = unat start + unat count" "1 \<le> unat (snd w')"
    "receiver_step r1 n r' (send_ack w' now r' n)" "r_outcome r' = None" "r_total r' = Some tot"
    "r_packets r' = r_packets r1"
    by (rule receiver_advance_step [OF r1(2-4,6) pos g assms(5), of st now fs n]) blast
  have "awaiting file w' 0 r'"
    using adv g r1(8) assms(2) by (simp add: awaiting_def receiver_step_def got_def)
  moreover have "same_download r r'"
    using adv(5) same_download_trans [OF r1(9)] by (simp add: receiver_step_def)
  ultimately show ?thesis
    using eq adv(1,3) by (intro exI [of _ r'] exI [of _ w']) simp
qed

lemma next_packet_final:
  assumes "awaiting file (start, count) k r" and "tot = packet_count (length file)"
    and "pn = of_nat (unat start + k)" and "Suc k = unat count" and "unat start + unat count = unat tot + 1"
    and "disk_ok fs"
  shows "\<exists>r' fs'. receiver_on_content st now pn tot (chunk file (unat start + k)) r fs n
      = Some (r', fs', send_complete now r' n)
    \<and> r_outcome r' = Some (Inr ()) \<and> fs_read fs' (final_path r) = Some (take 91749000 file)
    \<and> same_download r r'"
proof -
  note w = awaiting_window [OF assms(1)]
  from next_packet [OF assms(1-3), of st now fs n] obtain r1 where
    r1: "receiver_on_content st now pn tot (chunk file (unat start + k)) r fs n
      = after_store st now start count tot r1 fs n"
    "receiver_base r1" "r_outcome r1 = None" "r_total r1 = Some tot"
    "unat (r_retry_count r1) \<le> 8" "r_range r1 = Some (start, count)"
    "got r1 = {1..<unat start + Suc k}" "genuine file (r_packets r1)" "same_download r r1" by blast
  have len: "length (r_packets r1) = unat tot"
    using card_got [of r1] r1(2,7) assms(4,5) by (simp add: receiver_base_def)
  have t: "unat tot \<le> 65535" by (rule unat_u16_le)
  have "unat (of_nat (length (r_packets r1)) :: u32) = unat tot"
    unfolding len using t by (intro unat_of_nat_u32) linarith
  then have eq: "receiver_on_content st now pn tot (chunk file (unat start + k)) r fs n
      = receiver_complete now r1 fs n"
    by (simp add: r1(1) after_store_def word_le_nat_alt)
  have "fst ` set (r_packets r1) = {pn. 1 \<le> unat pn \<and> unat pn \<le> unat tot}"
    unfolding got_image r1(7) using assms(4,5) by auto
  from assemble_genuine [OF r1(8) arg_cong [OF assms(2), of unat] this]
  have asm: "assemble (unat tot) (r_packets r1) = Some (take 91749000 file)"
    by (simp add: assms(2) take_packets)
  let ?c = "take 91749000 file"
  let ?tmp = "path_join (r_data_dir r1) (r_filename r1 @ ''.tmp'')"
  let ?fs1 = "fs\<lparr>files := AList.update ?tmp ?c (files fs)\<rparr>"
  have wrote: "fs_write ?tmp ?c fs = (True, ?fs1)" using assms(6) by (simp add: fs_write_def disk_ok_def)
  have "fs_read ?fs1 ?tmp = Some ?c" by (simp add: fs_read_def AList.update_conv')
  then obtain fs2 where rename: "fs_rename ?tmp (final_path r1) ?fs1 = (True, fs2)"
    using assms(6) by (simp add: fs_rename_def disk_ok_def)
  let ?r' = "r1\<lparr>r_saved_bytes := Some (of_nat (length ?c)), r_outcome := Some (Inr ()),
                r_deadline := now + COMPLETE_GRACE\<rparr>"
  have "receiver_complete now r1 fs n = Some (?r', fs2, send_complete now ?r' n)"
    using rename by (simp add: receiver_complete_def r1(4) asm wrote Let_def final_path_def send_complete_def)
  moreover have "fs_read fs2 (final_path r) = Some ?c"
    using fs_write_rename [OF wrote rename] same_download_path [OF r1(9)] by simp
  moreover have "same_download r ?r'" using r1(9) by (simp add: same_download_def)
  ultimately show ?thesis using eq by (intro exI [of _ ?r'] exI [of _ fs2]) simp
qed

section \<open>A window of packets arrives\<close>

fun deliver_content ::
    "settings \<Rightarrow> instant \<Rightarrow> datagram list \<Rightarrow> receiver_transfer \<times> file_system \<times> net
      \<Rightarrow> (receiver_transfer \<times> file_system \<times> net) option" where
  "deliver_content st now [] v = Some v"
| "deliver_content st now ((d, dst) # ds) (r, fs, n) =
     (case decode d of
        Inr (SegmentContents tid pn tot data) \<Rightarrow>
          if tid = r_transfer_id r then
            (case receiver_on_content st now pn tot data r fs n of
               None \<Rightarrow> None
             | Some v \<Rightarrow> deliver_content st now ds v)
          else deliver_content st now ds (r, fs, n)
      | _ \<Rightarrow> deliver_content st now ds (r, fs, n))"

lemma window_arrives:
  assumes "awaiting file (start, count) k r" and "disk_ok fs"
    and "s_transfer_id s = r_transfer_id r" and "s_file s = file" and "s_total s = packet_count (length file)"
  shows "\<exists>r' fs' n'. deliver_content st now
        (map (packet_datagram s) [unat start + k..<unat start + unat count]) (r, fs, n) = Some (r', fs', n')
    \<and> same_download r r'
    \<and> ((\<exists>w. n' = send_ack w now r' n \<and> fs' = fs \<and> awaiting file w 0 r' \<and> unat (fst w) = unat start + unat count)
       \<or> n' = send_complete now r' n \<and> r_outcome r' = Some (Inr ())
         \<and> fs_read fs' (final_path r) = Some (take 91749000 file))"
  using assms(1,3)
proof (induction "unat count - k" arbitrary: k r)
  case 0
  then show ?case by (simp add: awaiting_def)
next
  case (Suc j)
  have k: "k < unat count" using Suc.prems(1) by (simp add: awaiting_def)
  let ?pn = "of_nat (unat start + k) :: u16" and ?c = "chunk file (unat start + k)"
  let ?tot = "packet_count (length file)"
  have list: "[unat start + k..<unat start + unat count]
      = (unat start + k) # [unat start + Suc k..<unat start + unat count]"
    using k by (simp add: upt_conv_Cons)
  have d: "decode (encode (SegmentContents (s_transfer_id s) ?pn ?tot ?c)) = Inr (SegmentContents (r_transfer_id r) ?pn ?tot ?c)"
    using Suc.prems(2) by (simp add: content_decodes length_chunk)
  show ?case
  proof (cases "Suc k = unat count")
    case False
    then have "Suc k < unat count" using k by simp
    from next_packet_middle [OF Suc.prems(1) refl refl this, of st now fs n] obtain r1 where
      r1: "receiver_on_content st now ?pn ?tot ?c r fs n = Some (r1, fs, n)"
      "awaiting file (start, count) (Suc k) r1" "same_download r r1" by blast
    have "j = unat count - Suc k" using Suc.hyps(2) by simp
    moreover have "s_transfer_id s = r_transfer_id r1" using Suc.prems(2) r1(3) by (simp add: same_download_def)
    ultimately obtain r' fs' n' where ih: "deliver_content st now
        (map (packet_datagram s) [unat start + Suc k..<unat start + unat count]) (r1, fs, n) = Some (r', fs', n')"
      "same_download r1 r'"
      "(\<exists>w. n' = send_ack w now r' n \<and> fs' = fs \<and> awaiting file w 0 r' \<and> unat (fst w) = unat start + unat count)
       \<or> n' = send_complete now r' n \<and> r_outcome r' = Some (Inr ())
         \<and> fs_read fs' (final_path r1) = Some (take 91749000 file)"
      using Suc.hyps(1) [of "Suc k" r1] r1(2) by blast
    have "deliver_content st now (map (packet_datagram s) [unat start + k..<unat start + unat count]) (r, fs, n)
        = Some (r', fs', n')"
      using d r1(1) ih(1) Suc.prems(2)
      by (simp add: list packet_datagram_def assms(4,5) del: of_nat_add)
    then show ?thesis
      using ih(2,3) same_download_trans [OF r1(3) ih(2)] same_download_path [OF r1(3)] by auto
  next
    case True
    have step: "deliver_content st now (map (packet_datagram s) [unat start + k..<unat start + unat count]) (r, fs, n)
        = receiver_on_content st now ?pn ?tot ?c r fs n"
      using d Suc.prems(2) True
      by (simp add: list packet_datagram_def assms(4,5) del: of_nat_add split: option.split)
    show ?thesis
    proof (cases "unat start + unat count \<le> unat ?tot")
      case more: True
      from next_packet_last [OF Suc.prems(1) refl refl True more, of st now fs n] show ?thesis
        unfolding step by blast
    next
      case False
      then have "unat start + unat count = unat ?tot + 1"
        using awaiting_window [OF Suc.prems(1)] by simp
      from next_packet_final [OF Suc.prems(1) refl refl True this assms(2), of st now n] show ?thesis
        unfolding step by blast
    qed
  qed
qed

section \<open>Rounds\<close>

text \<open>The acknowledgements arrive; the flag says whether the transfer ended.\<close>

fun deliver_acks :: "settings \<Rightarrow> instant \<Rightarrow> datagram list \<Rightarrow> sender_transfer \<Rightarrow> bool \<times> sender_transfer" where
  "deliver_acks st now [] s = (False, s)"
| "deliver_acks st now ((d, dst) # ds) s =
     (case decode d of
        Inr (Ack tid at a c) \<Rightarrow>
          if tid = s_transfer_id s then
            (case sender_on_ack st now at a c s of
               (True, s') \<Rightarrow> (True, s')
             | (False, s') \<Rightarrow> deliver_acks st now ds s')
          else deliver_acks st now ds s
      | _ \<Rightarrow> deliver_acks st now ds s)"

text \<open>The sender's wake-ups for its window: at its send deadline, then every eight pacing periods.\<close>

fun every :: "duration \<Rightarrow> instant \<Rightarrow> nat \<Rightarrow> instant list" where
  "every gap t 0 = []"
| "every gap t (Suc k) = t # every gap (t + gap) k"

definition window_times :: "settings \<Rightarrow> sender_transfer \<Rightarrow> instant list" where
  "window_times st s =
     every (from_millis (unat (pace_ms st)) * 8) (s_send_deadline s) ((unat (snd (s_range s)) + 7) div 8)"

definition new_datagrams :: "net \<Rightarrow> net \<Rightarrow> datagram list" where
  "new_datagrams before after = drop (length (wire (snd before))) (wire (snd after))"

definition exchange_round :: "settings \<Rightarrow> exchange \<Rightarrow> (bool \<times> exchange) option" where
  "exchange_round st x =
     (let ts = window_times st (x_sender x); now = last ts in
      case sender_ticks st ts (x_sender x) (x_snet x) of
        None \<Rightarrow> None
      | Some (s, ns) \<Rightarrow>
          (case deliver_content st now (new_datagrams (x_snet x) ns) (x_receiver x, x_fs x, x_rnet x) of
             None \<Rightarrow> None
           | Some (r, fs, nr) \<Rightarrow>
               (case deliver_acks st now (new_datagrams (x_rnet x) nr) s of
                  (fin, s) \<Rightarrow>
                    Some (fin, \<lparr>x_sender = s, x_snet = ns, x_receiver = r, x_fs = fs, x_rnet = nr\<rparr>))))"

fun lossless_run :: "settings \<Rightarrow> nat \<Rightarrow> exchange \<Rightarrow> exchange option" where
  "lossless_run st 0 x = None"
| "lossless_run st (Suc fuel) x =
     (case exchange_round st x of
        None \<Rightarrow> None
      | Some (True, x') \<Rightarrow> Some x'
      | Some (False, x') \<Rightarrow> lossless_run st fuel x')"

lemma length_every [simp]: "length (every gap t k) = k"
  by (induction k arbitrary: t) simp_all

lemma paced_every: "d \<le> t \<Longrightarrow> paced gap d (every gap t k)"
  by (induction k arbitrary: d t) simp_all

lemma ack_decodes:
  "decode (encode (Ack tid Progress a c)) = Inr (Ack tid Progress a c)"
  "decode (encode (Ack tid Complete 0 0)) = Inr (Ack tid Complete 0 0)"
  using wire.dec_enc_exact [of "Ack tid Progress a c"] wire.dec_enc_exact [of "Ack tid Complete 0 0"]
  by (simp_all add: msg_ok_def)

lemma clean_fault_send:
  "clean n \<Longrightarrow> clean (fault_send bs dst now n) \<and> wire (snd (fault_send bs dst now n)) = wire (snd n) @ [(bs, dst)]"
  using clean_send_all [of n "[(bs, dst)]" now] by (simp add: injector.send_all_def)

text \<open>Between rounds: both sides agree on the window, of which nothing is sent.\<close>

definition synced :: "bytes \<Rightarrow> u16 \<times> u16 \<Rightarrow> exchange \<Rightarrow> bool" where
  "synced file window x \<longleftrightarrow>
     sender_ok (x_sender x) \<and> s_file (x_sender x) = file \<and> s_range (x_sender x) = window
     \<and> s_range_sent (x_sender x) = 0 \<and> s_transfer_id (x_sender x) = r_transfer_id (x_receiver x)
     \<and> clean (x_snet x) \<and> clean (x_rnet x) \<and> disk_ok (x_fs x)
     \<and> awaiting file window 0 (x_receiver x)"

lemma progress_ack_follows:
  assumes "sender_ok s" and "s_total s = packet_count (length file)" and "awaiting file (a, c) 0 r"
    and "sender_on_ack st now Progress a c s = (fin, s')"
  shows "\<not> fin \<and> sender_ok s' \<and> same_service s s' \<and> s_range s' = (a, c) \<and> s_range_sent s' = 0"
proof -
  note w = awaiting_window [OF assms(3)]
  have c: "0 < unat c" using assms(3) by (simp add: awaiting_def)
  have m: "min (unat c) (unat (packet_count (length file)) - unat a + 1) = unat c" using w by linarith
  have "unat (snd (s_range s')) = unat c" "fst (s_range s') = a"
    using sender_ack_step [OF assms(1,4), unfolded assms(2) m] w c by simp_all
  then show ?thesis
    using sender_ack_step [OF assms(1,4), unfolded assms(2) m] w c
    by (cases "s_range s'") (simp add: assms(2) word_unat_eq_iff)
qed

lemma round:
  assumes "synced file (start, count) x"
  shows "\<exists>fin x'. exchange_round st x = Some (fin, x')
    \<and> same_download (x_receiver x) (x_receiver x')
    \<and> (if fin then r_outcome (x_receiver x') = Some (Inr ())
           \<and> fs_read (x_fs x') (final_path (x_receiver x)) = Some (take 91749000 file)
       else \<exists>w. synced file w x' \<and> unat (fst w) = unat start + unat count)"
proof -
  from assms have ok: "sender_ok (x_sender x)" and rng: "s_range (x_sender x) = (start, count)"
    and f: "s_file (x_sender x) = file" and sent: "s_range_sent (x_sender x) = 0"
    and tid: "s_transfer_id (x_sender x) = r_transfer_id (x_receiver x)"
    and cs: "clean (x_snet x)" and cr: "clean (x_rnet x)" and disk: "disk_ok (x_fs x)"
    and aw: "awaiting file (start, count) 0 (x_receiver x)"
    by (simp_all add: synced_def)
  have tot: "s_total (x_sender x) = packet_count (length file)"
    using ok f by (simp add: sender_ok_def)
  let ?ts = "window_times st (x_sender x)"
  let ?now = "last ?ts"
  obtain s ns where ticks: "sender_ticks st ?ts (x_sender x) (x_snet x) = Some (s, ns)"
    and w: "wire (snd ns) = wire (snd (x_snet x))
        @ map (packet_datagram (x_sender x)) [unat start + 0..<unat start + unat count]"
    and same: "same_service (x_sender x) s" "s_range s = (start, count)"
    and cns: "clean ns" and oks: "sender_ok s"
    using window_ticks [OF ok rng cs, of st ?ts] sent rng
    by (auto simp: window_times_def paced_every)
  have new1: "new_datagrams (x_snet x) ns = map (packet_datagram (x_sender x)) [unat start + 0..<unat start + unat count]"
    by (simp add: new_datagrams_def w)
  obtain r fs nr where arrive: "deliver_content st ?now (new_datagrams (x_snet x) ns)
      (x_receiver x, x_fs x, x_rnet x) = Some (r, fs, nr)" and sd: "same_download (x_receiver x) r"
    and alt: "(\<exists>w. nr = send_ack w ?now r (x_rnet x) \<and> fs = x_fs x \<and> awaiting file w 0 r
          \<and> unat (fst w) = unat start + unat count)
       \<or> nr = send_complete ?now r (x_rnet x) \<and> r_outcome r = Some (Inr ())
         \<and> fs_read fs (final_path (x_receiver x)) = Some (take 91749000 file)"
    using window_arrives [OF aw disk tid f tot, of st ?now "x_rnet x"] unfolding new1 by blast
  have tids: "s_transfer_id s = r_transfer_id r"
    using tid same(1) sd by (simp add: same_service_def same_download_def)
  from alt show ?thesis
  proof
    assume "\<exists>w. nr = send_ack w ?now r (x_rnet x) \<and> fs = x_fs x \<and> awaiting file w 0 r
          \<and> unat (fst w) = unat start + unat count"
    then obtain a c where nr: "nr = send_ack (a, c) ?now r (x_rnet x)" and fs: "fs = x_fs x"
      and aw': "awaiting file (a, c) 0 r" and a: "unat a = unat start + unat count" by auto
    have cnr: "clean nr" and new2: "new_datagrams (x_rnet x) nr
        = [(encode (Ack (r_transfer_id r) Progress a c), r_remote r)]"
      using clean_fault_send [OF cr] by (simp_all add: nr send_ack_def new_datagrams_def)
    obtain fin s' where ack: "sender_on_ack st ?now Progress a c s = (fin, s')"
      by (cases "sender_on_ack st ?now Progress a c s")
    have "s_total s = packet_count (length file)" using same(1) tot by (simp add: same_service_def)
    note p = progress_ack_follows [OF oks this aw' ack]
    have "deliver_acks st ?now (new_datagrams (x_rnet x) nr) s = (False, s')"
      using p ack tids by (simp add: new2 ack_decodes)
    then have "exchange_round st x = Some (False,
        \<lparr>x_sender = s', x_snet = ns, x_receiver = r, x_fs = fs, x_rnet = nr\<rparr>)"
      using ticks arrive by (simp add: exchange_round_def Let_def)
    moreover have "synced file (a, c) \<lparr>x_sender = s', x_snet = ns, x_receiver = r, x_fs = fs, x_rnet = nr\<rparr>"
      using p same(1) f tids cns cnr disk aw' fs by (simp add: synced_def same_service_def)
    ultimately show ?thesis using sd a
      by (intro exI [of _ False] exI [of _ "\<lparr>x_sender = s', x_snet = ns, x_receiver = r, x_fs = fs, x_rnet = nr\<rparr>"])
        (force intro: exI [of _ "(a, c)"])
  next
    assume fin: "nr = send_complete ?now r (x_rnet x) \<and> r_outcome r = Some (Inr ())
         \<and> fs_read fs (final_path (x_receiver x)) = Some (take 91749000 file)"
    have new2: "new_datagrams (x_rnet x) nr = [(encode (Ack (r_transfer_id r) Complete 0 0), r_remote r)]"
      using clean_fault_send [OF cr] fin by (simp add: send_complete_def new_datagrams_def)
    have "deliver_acks st ?now (new_datagrams (x_rnet x) nr) s = (True, s)"
      using tids by (simp add: new2 ack_decodes sender_on_ack_def)
    then have "exchange_round st x = Some (True,
        \<lparr>x_sender = s, x_snet = ns, x_receiver = r, x_fs = fs, x_rnet = nr\<rparr>)"
      using ticks arrive by (simp add: exchange_round_def Let_def)
    then show ?thesis using sd fin by auto
  qed
qed

lemma lossless_run_completes:
  assumes "synced file window x" and "unat (packet_count (length file)) + 1 - unat (fst window) \<le> fuel"
  shows "\<exists>x'. lossless_run st fuel x = Some x' \<and> r_outcome (x_receiver x') = Some (Inr ())
    \<and> fs_read (x_fs x') (final_path (x_receiver x)) = Some (take 91749000 file)"
  using assms
proof (induction fuel arbitrary: x window)
  case 0
  obtain start count where window: "window = (start, count)" by (cases window)
  with 0 have "awaiting file (start, count) 0 (x_receiver x)" by (simp add: synced_def)
  from awaiting_window [OF this] this 0(2) show ?case by (simp add: window awaiting_def)
next
  case (Suc fuel)
  obtain start count where window: "window = (start, count)" by (cases window)
  have pos: "0 < unat count" using Suc.prems(1) by (simp add: synced_def window awaiting_def)
  obtain fin x1 where r: "exchange_round st x = Some (fin, x1)"
    "same_download (x_receiver x) (x_receiver x1)"
    "if fin then r_outcome (x_receiver x1) = Some (Inr ())
           \<and> fs_read (x_fs x1) (final_path (x_receiver x)) = Some (take 91749000 file)
       else \<exists>w. synced file w x1 \<and> unat (fst w) = unat start + unat count"
    using round [OF Suc.prems(1) [unfolded window], of st] by blast
  show ?case
  proof (cases fin)
    case True
    with r show ?thesis by simp
  next
    case False
    with r(3) obtain w where w: "synced file w x1" "unat (fst w) = unat start + unat count" by auto
    have "unat (packet_count (length file)) + 1 - unat (fst w) \<le> fuel"
      using Suc.prems(2) pos by (simp add: w(2) window)
    from Suc.IH [OF w(1) this] False r(1) same_download_path [OF r(2)] show ?thesis by simp
  qed
qed

lemma exchange_start_synced:
  assumes "clean ns" and "clean nr" and "disk_ok fs"
  shows "synced file (1, min INITIAL_WINDOW (packet_count (length file)))
    (exchange_start st tid file name dir here there t0 t1 ns fs nr)"
proof -
  have "0 < unat (min INITIAL_WINDOW (packet_count (length file)))"
    using packet_count_pos [of "length file"] by (simp add: unat_min INITIAL_WINDOW_def)
  then show ?thesis
    using assms sender_new_ok [of tid here "file" t1] receiver_new_wf [of st tid there name dir t0]
    by (simp add: synced_def exchange_start_def awaiting_def sender_new_def receiver_new_def Let_def
        genuine_def got_def)
qed

text \<open>C4: When nothing is lost, the protocol delivers: for every file, after at most as many
  rounds as it has packets the receiver reports success with the file on its disk and the
  sender has been told it is complete. No exchange of windows gets stuck and no window is
  requested that the sender does not serve.\<close>

theorem lossless_download_completes:
  assumes "clean ns" and "clean nr" and "disk_ok fs"
  shows "\<exists>x'. lossless_run st (unat (packet_count (length file)))
      (exchange_start st tid file name dir here there t0 t1 ns fs nr) = Some x'
    \<and> r_outcome (x_receiver x') = Some (Inr ())
    \<and> fs_read (x_fs x') (path_join dir name) = Some (take 91749000 file)"
  using lossless_run_completes [OF exchange_start_synced [OF assms], of _ "unat (packet_count (length file))" st]
  by (simp add: exchange_start_def receiver_new_def final_path_def)

theorem lossless_download_completes_witness:
  "\<exists>x'. lossless_run (settings_from_env (\<lambda>_. None)) (unat (packet_count 9000))
      (exchange_start (settings_from_env (\<lambda>_. None)) 7 (replicate 9000 42) ''seg_1.ts'' ''/d'' (V4 1 2) (V4 3 4) 0 0
        (fault_from_env (\<lambda>_. None) None 0, \<lparr>accepts = \<lambda>_. True, wire = []\<rparr>)
        \<lparr>files = [], write_failure = (\<lambda>_ _. None), rename_ok = (\<lambda>_ _. True), dir_readable = (\<lambda>_. True)\<rparr>
        (fault_from_env (\<lambda>_. None) None 0, \<lparr>accepts = \<lambda>_. True, wire = []\<rparr>)) = Some x'
    \<and> fs_read (x_fs x') ''/d/seg_1.ts'' = Some (replicate 9000 42)"
proof -
  have c: "clean (fault_from_env (\<lambda>_. None) None 0, \<lparr>accepts = \<lambda>_. True, wire = []\<rparr>)"
    by (simp add: clean_def fault_from_env_def fault_enabled_def accepting_def)
  have d: "disk_ok \<lparr>files = [], write_failure = (\<lambda>_ _. None), rename_ok = (\<lambda>_ _. True), dir_readable = (\<lambda>_. True)\<rparr>"
    by (simp add: disk_ok_def)
  have "path_join ''/d'' ''seg_1.ts'' = ''/d/seg_1.ts''"
    by (simp add: path_join_def starts_with_def ends_with_def suffix_def)
  with lossless_download_completes [OF c c d, of "settings_from_env (\<lambda>_. None)" "replicate 9000 42" 7
      "''seg_1.ts''" "''/d''" "V4 1 2" "V4 3 4" 0 0]
  show ?thesis by auto
qed

section \<open>A concrete exchange\<close>

theorem exchange_integrity_witness:
  "\<exists>x. (exchange_step (settings_from_env (\<lambda>_. None)))\<^sup>*\<^sup>*
      (exchange_start (settings_from_env (\<lambda>_. None)) 7 [1, 2, 3] ''seg_1.ts'' ''/d'' (V4 1 2) (V4 3 4) 0 0
        (fault_from_env (\<lambda>_. None) None 0, \<lparr>accepts = \<lambda>_. True, wire = []\<rparr>)
        \<lparr>files = [], write_failure = (\<lambda>_ _. None), rename_ok = (\<lambda>_ _. True), dir_readable = (\<lambda>_. True)\<rparr>
        (fault_from_env (\<lambda>_. None) None 0, \<lparr>accepts = \<lambda>_. True, wire = []\<rparr>)) x
    \<and> r_outcome (x_receiver x) = Some (Inr ()) \<and> fs_read (x_fs x) ''/d/seg_1.ts'' = Some [1, 2, 3]"
proof -
  let ?st = "settings_from_env (\<lambda>_. None)"
  let ?n = "(fault_from_env (\<lambda>_. None) None 0, \<lparr>accepts = \<lambda>_. True, wire = []\<rparr>)"
  let ?fs = "\<lparr>files = [], write_failure = (\<lambda>_ _. None), rename_ok = (\<lambda>_ _. True), dir_readable = (\<lambda>_. True)\<rparr>"
  let ?file = "[1, 2, 3] :: bytes"
  let ?x = "exchange_start ?st 7 ?file ''seg_1.ts'' ''/d'' (V4 1 2) (V4 3 4) 0 0 ?n ?fs ?n"
  let ?s = "sender_new 7 (V4 1 2) ?file 0" and ?r = "receiver_new ?st 7 (V4 3 4) ''seg_1.ts'' ''/d'' 0"
  have clean: "clean ?n" by (simp add: clean_def fault_from_env_def fault_enabled_def accepting_def)
  have known: "net_known ?n = {}" by (simp add: net_known_def fault_from_env_def Let_def)
  have disk: "disk_ok ?fs" by (simp add: disk_ok_def)
  have pc: "packet_count (length ?file) = 1" by (simp add: word_unat_eq_iff unat_packet_count)
  then have rng: "s_range ?s = (1, 1)" and sent: "s_range_sent ?s < 1" "s_send_deadline ?s \<le> 0"
    and np: "next_packets 0 ?s = [1]"
    by (simp_all add: sender_new_def Let_def INITIAL_WINDOW_def min_def word_le_nat_alt next_packets_def)
  obtain s' where t: "sender_tick ?st 0 ?s ?n
      = Some (Inr (), s', injector.send_all (map (packet_datagram ?s) (next_packets 0 ?s)) 0 ?n)"
    by (rule tick_chunk [OF sender_new_ok rng sent, of ?st ?n])
  let ?n1 = "injector.send_all [packet_datagram ?s 1] 0 ?n"
  let ?x1 = "?x\<lparr>x_sender := s', x_snet := ?n1\<rparr>"
  have step1: "exchange_step ?st ?x ?x1"
    by (rule exchange_step.sender_ticks [of _ 0]) (use t np in \<open>simp add: exchange_start_def\<close>)
  have onwire: "packet_datagram ?s 1 \<in> net_wire (x_snet ?x1)"
    using clean_send_all [OF clean, of "[packet_datagram ?s 1]" 0] by (simp add: net_wire_def)
  have chunk: "chunk ?file 1 = ?file" by (simp add: chunk_def SEGMENT_PACKET_SIZE_def)
  have "s_total ?s = 1" using pc by (simp add: sender_new_def Let_def)
  then have pd: "packet_datagram ?s 1 = (encode (SegmentContents 7 1 1 ?file), V4 1 2)"
    unfolding packet_datagram_def using chunk by (simp add: sender_new_def Let_def)
  have onwire': "(encode (SegmentContents 7 1 1 ?file), V4 1 2) \<in> net_wire (x_snet ?x1)"
    by (rule subst [OF pd, of "\<lambda>d. d \<in> net_wire (x_snet ?x1)"]) (rule onwire)
  have dec: "decode (encode (SegmentContents 7 1 1 ?file)) = Inr (SegmentContents 7 1 1 ?file)"
    by (rule content_decodes) simp
  have "min INITIAL_WINDOW 1 = 1" by (simp add: INITIAL_WINDOW_def min_def word_le_nat_alt)
  then have "synced ?file (1, 1) ?x"
    using exchange_start_synced [OF clean clean disk, of "?file" ?st 7 "''seg_1.ts''" "''/d''" "V4 1 2" "V4 3 4" 0 0]
    by (simp only: pc)
  then have aw: "awaiting ?file (1, 1) 0 ?r"
    by (simp only: synced_def exchange_start_def exchange.simps)
  have one: "(1 :: u16) = of_nat (unat (1 :: u16) + 0)" "Suc 0 = unat (1 :: u16)"
    "unat (1 :: u16) + unat (1 :: u16) = unat (1 :: u16) + 1" "chunk ?file (unat (1 :: u16) + 0) = ?file"
    using chunk by simp_all
  obtain r' fs' where content: "receiver_on_content ?st 0 1 1 ?file ?r ?fs ?n = Some (r', fs', send_complete 0 r' ?n)"
    and fin: "r_outcome r' = Some (Inr ())"
    using next_packet_final [OF aw pc [symmetric] one(1-3) disk, of ?st 0 ?n, unfolded one(4)] by blast
  let ?x2 = "?x1\<lparr>x_receiver := r', x_fs := fs', x_rnet := send_complete 0 r' ?n\<rparr>"
  have step2: "exchange_step ?st ?x1 ?x2"
    by (rule exchange_step.content_arrives [where now = 0, OF onwire' dec])
       (use content in \<open>simp_all add: exchange_start_def receiver_new_def\<close>)
  from step1 step2 have reach: "(exchange_step ?st)\<^sup>*\<^sup>* ?x ?x2"
    by (rule converse_rtranclp_into_rtranclp [OF _ r_into_rtranclp])
  have ok: "r_outcome (x_receiver ?x2) = Some (Inr ())" using fin by simp
  have path: "path_join ''/d'' ''seg_1.ts'' = ''/d/seg_1.ts''"
    by (simp add: path_join_def starts_with_def ends_with_def suffix_def)
  have cut: "take 91749000 ?file = ?file" by simp
  have "fs_read (x_fs ?x2) ''/d/seg_1.ts'' = Some ?file"
    using exchange_integrity [OF reach known known, unfolded path cut] ok by blast
  with reach ok show ?thesis by blast
qed

end
