(* ===== verification/Relay.thy ===== *)
theory Relay
  imports Registry
begin

text \<open>
  Integrity from hop to hop. A peer serves the directory it downloads into; this theory
  follows its registry (\<open>src/src/transfer.rs\<close>) together with that directory and with a record
  of the names the running transfers were asked for under. \<open>published\<close> gives the contents of
  every segment name; a segment name is never reused for other contents, which is not so for
  playlists, and those are no segments here. If every packet that reaches a running download
  of a segment belongs to that segment, which the code does not check, the directory only ever
  holds published contents under segment names, so the segments served from it satisfy the
  same assumption at the next peer.
\<close>

section \<open>What a content packet does to the disk\<close>

definition temp_path :: "receiver_transfer \<Rightarrow> string" where
  "temp_path r = path_join (r_data_dir r) (r_filename r @ ''.tmp'')"

lemma update_other: "p \<noteq> a \<Longrightarrow> map_of (AList.update a v xs) p = map_of xs p"
  by (simp add: AList.update_conv')

lemma delete_other: "p \<noteq> a \<Longrightarrow> map_of (AList.delete a xs) p = map_of xs p"
  by (simp add: AList.delete_conv')

lemma fs_write_other: "fs_write a data fs = (b, fs') \<Longrightarrow> p \<noteq> a \<Longrightarrow> fs_read fs' p = fs_read fs p"
  by (auto simp: fs_write_def fs_read_def update_other split: option.splits)

lemma fs_rename_other:
  "fs_rename a b fs = (ok, fs') \<Longrightarrow> p \<noteq> a \<Longrightarrow> ok \<longrightarrow> p \<noteq> b \<Longrightarrow> fs_read fs' p = fs_read fs p"
  by (auto simp: fs_rename_def fs_read_def update_other delete_other split: option.splits if_splits)

lemma complete_frame:
  assumes "receiver_complete now r fs n = Some (r', fs', n')" and "p \<noteq> temp_path r"
    and "r_outcome r' = Some (Inr ()) \<longrightarrow> p \<noteq> final_path r"
  shows "fs_read fs' p = fs_read fs p"
proof -
  obtain contents where c: "assemble (unat (case r_total r of Some t \<Rightarrow> t | None \<Rightarrow> 0)) (r_packets r) = Some contents"
    using assms(1) by (auto simp: receiver_complete_def split: option.splits)
  obtain b fs1 where w: "fs_write (temp_path r) contents fs = (b, fs1)" by (cases "fs_write (temp_path r) contents fs")
  note w' = fs_write_other [OF w assms(2)]
  show ?thesis
  proof (cases b)
    case False
    with assms(1) c w w' show ?thesis by (auto simp: receiver_complete_def temp_path_def Let_def)
  next
    case True
    obtain ok fs2 where rn: "fs_rename (temp_path r) (final_path r) fs1 = (ok, fs2)"
      by (cases "fs_rename (temp_path r) (final_path r) fs1")
    have "fs' = fs2" "ok \<longrightarrow> r_outcome r' = Some (Inr ())"
      using assms(1) c w True rn by (auto simp: receiver_complete_def temp_path_def final_path_def Let_def split: if_splits)
    with w' fs_rename_other [OF rn assms(2)] assms(3) show ?thesis by auto
  qed
qed

lemma same_download_temp: "same_download r r' \<Longrightarrow> temp_path r' = temp_path r"
  by (simp add: same_download_def temp_path_def)

lemma advance_frame:
  assumes "receiver_advance st now start count tot r fs n = Some (r', fs', n')" and "p \<noteq> temp_path r"
    and "r_outcome r' = Some (Inr ()) \<longrightarrow> p \<noteq> final_path r"
  shows "fs_read fs' p = fs_read fs p"
  using assms complete_frame [OF _ assms(2,3)]
  by (auto simp: receiver_advance_def Let_def split: if_splits)

lemma content_frame:
  assumes "receiver_on_content st now pn tot data r fs n = Some (r', fs', n')" and "p \<noteq> temp_path r"
    and "r_outcome r = None" and "r_outcome r' = Some (Inr ()) \<longrightarrow> p \<noteq> final_path r"
  shows "fs_read fs' p = fs_read fs p"
proof -
  let ?r1 = "first_content st now tot r"
  let ?r2 = "store_packet st now pn data ?r1"
  have same: "same_download r ?r2"
    using same_download_trans [OF first_content_fields(6) store_packet_fields(8)] .
  note paths = same_download_temp [OF same] same_download_path [OF same]
  show ?thesis
    using assms complete_frame [of now ?r2 fs n r' fs' n' p]
      advance_frame [of st now _ _ _ ?r2 fs n r' fs' n' p]
    by (auto simp: receiver_on_content_def Let_def paths simp del: first_content_fields(7)
        split: option.splits if_splits prod.splits)
qed

section \<open>A relaying node\<close>

text \<open>
  Names of segments: valid, not those of unfinished downloads and not those of playlists,
  whose contents change.
\<close>

definition segment_name :: "string \<Rightarrow> bool" where
  "segment_name f \<longleftrightarrow> valid_filename f \<and> \<not> ends_with f ''.tmp'' \<and> \<not> ends_with f ''.m3u8''"

definition disk_genuine :: "(string \<Rightarrow> bytes) \<Rightarrow> string \<Rightarrow> file_system \<Rightarrow> bool" where
  "disk_genuine published dir fs \<longleftrightarrow>
     (\<forall>f data. segment_name f \<longrightarrow> fs_read fs (path_join dir f) = Some data \<longrightarrow> data = published f)"

definition pulls :: "(string \<Rightarrow> bytes) \<Rightarrow> string \<Rightarrow> receiver_transfer \<Rightarrow> bool" where
  "pulls published dir r \<longleftrightarrow>
     r_data_dir r = dir \<and> valid_filename (r_filename r)
     \<and> (r_outcome r = None \<and> segment_name (r_filename r) \<longrightarrow>
          genuine (published (r_filename r)) (r_packets r)
          \<and> (\<forall>t. r_total r = Some t \<longrightarrow> t = packet_count (length (published (r_filename r)))))"

text \<open>The names under which the senders were started, by transfer id.\<close>

type_synonym served_names = "u16 \<Rightarrow> string option"

definition serves :: "(string \<Rightarrow> bytes) \<Rightarrow> served_names \<Rightarrow> u16 \<times> sender_transfer \<Rightarrow> bool" where
  "serves published names e \<longleftrightarrow>
     (case e of (tid, s) \<Rightarrow> \<exists>f. names tid = Some f \<and> (segment_name f \<longrightarrow> s_file s = published f))"

type_synonym relay_state = "registry \<times> file_system \<times> served_names"

definition relay_ok :: "(string \<Rightarrow> bytes) \<Rightarrow> string \<Rightarrow> relay_state \<Rightarrow> bool" where
  "relay_ok published dir w \<longleftrightarrow>
     (case w of (reg, fs, names) \<Rightarrow>
        registry_ok reg \<and> segment_root reg = dir \<and> disk_genuine published dir fs
        \<and> (\<forall>(tid, r) \<in> set (receivers reg). pulls published dir r)
        \<and> (\<forall>e \<in> set (senders reg). serves published names e))"

text \<open>A packet that belongs to the segment its transfer id is downloading, if it is.\<close>

definition honest_packet :: "(string \<Rightarrow> bytes) \<Rightarrow> registry \<Rightarrow> u16 \<Rightarrow> u16 \<Rightarrow> u16 \<Rightarrow> bytes \<Rightarrow> bool" where
  "honest_packet published reg tid pn tot data \<longleftrightarrow>
     (case map_of (receivers reg) tid of
        None \<Rightarrow> True
      | Some r \<Rightarrow> segment_name (r_filename r) \<longrightarrow>
          tot = packet_count (length (published (r_filename r)))
          \<and> data = chunk (published (r_filename r)) (unat pn))"

text \<open>
  The registry's operations: requests for any name whatever, downloads of any valid name into
  \<open>dir\<close>, honest packets. Other processes may change the files of the directory in any way
  that leaves published contents under segment names.
\<close>

inductive relay_step :: "(string \<Rightarrow> bytes) \<Rightarrow> string \<Rightarrow> settings \<Rightarrow> relay_state \<Rightarrow> relay_state \<Rightarrow> bool"
  for published dir st where
  serve: "registry_serve fs now tid filename src reg n = (reg', n')
    \<Longrightarrow> relay_step published dir st (reg, fs, names)
          (reg', fs, if senders reg' = senders reg then names else names(tid \<mapsto> filename))"
| reject: "reject_not_found fs now tid src retryable reg n = (reg', n')
    \<Longrightarrow> relay_step published dir st (reg, fs, names) (reg', fs, names)"
| start: "start_receiver st clocks now dst dir filename reg n = Some (res, reg', n') \<Longrightarrow> valid_filename filename
    \<Longrightarrow> relay_step published dir st (reg, fs, names) (reg', fs, names)"
| content: "registry_on_content st now tid pn tot data src reg fs n = Some (reg', fs', n')
    \<Longrightarrow> honest_packet published reg tid pn tot data
    \<Longrightarrow> relay_step published dir st (reg, fs, names) (reg', fs', names)"
| ack: "relay_step published dir st (reg, fs, names) (registry_on_ack st now tid at a c src reg, fs, names)"
| not_found: "relay_step published dir st (reg, fs, names) (snd (registry_on_not_found now tid retryable reg), fs, names)"
| remove: "relay_step published dir st (reg, fs, names) (remove_receiver tid reg, fs, names)"
| drain: "relay_step published dir st (reg, fs, names) (snd (drain_events reg), fs, names)"
| tick: "registry_tick st now reg n = Some (reg', n')
    \<Longrightarrow> relay_step published dir st (reg, fs, names) (reg', fs, names)"
| disk: "disk_genuine published dir fs' \<Longrightarrow> relay_step published dir st (reg, fs, names) (reg, fs', names)"

lemma relay_is_reg_step:
  "relay_step published dir st (reg, fs, names) (reg', fs', names') \<Longrightarrow> \<exists>n n'. reg_step st (reg, fs, n) (reg', fs', n')"
  by (cases rule: relay_step.cases) (blast intro: reg_step.intros)+

section \<open>Every step keeps the directory genuine\<close>

lemma valid_not_absolute: "valid_filename f \<Longrightarrow> \<not> starts_with f ''/''"
  by (cases f) (auto simp: valid_filename_def starts_with_def)

lemma segment_paths:
  assumes "segment_name f" "valid_filename g"
  shows "path_join dir f = path_join dir g \<longleftrightarrow> f = g" "path_join dir f \<noteq> path_join dir (g @ ''.tmp'')"
proof -
  have f: "\<not> starts_with f ''/''" and g: "\<not> starts_with g ''/''"
    using assms valid_not_absolute by (simp_all add: segment_name_def)
  then have gt: "\<not> starts_with (g @ ''.tmp'') ''/''" by (cases g) (auto simp: starts_with_def)
  show "path_join dir f = path_join dir g \<longleftrightarrow> f = g" using f g by (rule path_join_inj)
  have "f \<noteq> g @ ''.tmp''" using assms(1) by (auto simp: segment_name_def ends_with_def suffix_def)
  then show "path_join dir f \<noteq> path_join dir (g @ ''.tmp'')" using path_join_inj [OF f gt] by simp
qed

lemma relay_content:
  assumes ok: "relay_ok published dir (reg, fs, names)" and short: "\<And>f. length (published f) \<le> 91749000"
    and step: "registry_on_content st now tid pn tot data src reg fs n = Some (reg', fs', n')"
    and honest: "honest_packet published reg tid pn tot data"
  shows "disk_genuine published dir fs' \<and> (\<forall>(tid, r) \<in> set (receivers reg'). pulls published dir r)
    \<and> senders reg' = senders reg \<and> segment_root reg' = segment_root reg"
proof (cases "map_of (receivers reg) tid")
  case None
  with ok step show ?thesis by (auto simp: registry_on_content_def relay_ok_def)
next
  case (Some r)
  obtain r' where c: "receiver_on_content st now pn tot data r fs n = Some (r', fs', n')"
    "reg' = reg\<lparr>receivers := AList.update tid r' (receivers reg)\<rparr>"
    using step Some by (auto simp: registry_on_content_def split: option.splits)
  have r: "pulls published dir r" "receiver_wf r"
    using ok map_of_SomeD [OF Some] by (auto simp: relay_ok_def registry_ok_def table_ok_def receiver_entry_def)
  let ?f = "r_filename r"
  have v: "valid_filename ?f" "r_data_dir r = dir" using r(1) by (simp_all add: pulls_def)
  have "pulls published dir r' \<and> disk_genuine published dir fs'"
  proof (cases "r_outcome r")
    case (Some x)
    with c(1) r(1) ok show ?thesis by (auto simp: receiver_on_content_def relay_ok_def)
  next
    case None
    have same: "same_download r r'"
      using receiver_on_content_step [OF r(2) None, of st now pn tot data fs n] c(1) by (auto simp: receiver_step_def)
    have g: "genuine (published ?f) (r_packets r')" "r_total r' = Some (packet_count (length (published ?f)))"
      "r_outcome r' = Some (Inr ()) \<longrightarrow> fs_read fs' (final_path r) = Some (take 91749000 (published ?f))"
      if "segment_name ?f"
    proof -
      have t: "total_after tot r = packet_count (length (published ?f))" "data = chunk (published ?f) (unat pn)"
        using honest \<open>map_of (receivers reg) tid = Some r\<close> r(1) None that
        by (auto simp: honest_packet_def pulls_def total_after_def split: option.split)
      show "genuine (published ?f) (r_packets r')" "r_total r' = Some (packet_count (length (published ?f)))"
        "r_outcome r' = Some (Inr ()) \<longrightarrow> fs_read fs' (final_path r) = Some (take 91749000 (published ?f))"
        using content_genuine [OF r(2) None _ t c(1)] r(1) None that by (auto simp: pulls_def)
    qed
    have "data' = published f'" if "segment_name f'" "fs_read fs' (path_join dir f') = Some data'" for f' data'
    proof (cases "path_join dir f' = final_path r \<and> r_outcome r' = Some (Inr ())")
      case True
      then have "f' = ?f" using v segment_paths(1) [OF that(1) v(1), of dir] by (auto simp: final_path_def)
      with True that g(3) short [of ?f] show ?thesis by simp
    next
      case False
      moreover have "path_join dir f' \<noteq> temp_path r"
        using v segment_paths(2) [OF that(1) v(1), of dir] by (auto simp: temp_path_def)
      ultimately have "fs_read fs' (path_join dir f') = fs_read fs (path_join dir f')"
        using content_frame [OF c(1) _ None] by blast
      with that ok show ?thesis by (auto simp: relay_ok_def disk_genuine_def)
    qed
    moreover have "pulls published dir r'" using same g v by (auto simp: pulls_def same_download_def)
    ultimately show ?thesis by (simp add: disk_genuine_def)
  qed
  with ok c(2) set_update_sub [of tid r' "receivers reg"] show ?thesis by (fastforce simp: relay_ok_def)
qed

lemma tick_receivers_kept:
  assumes "table_ok receiver_entry rs" and "tick_receivers st now rs n = (rs', dead, n')"
    and "\<forall>(tid, r) \<in> set rs. pulls published dir r"
  shows "\<forall>(tid, r) \<in> set rs'. pulls published dir r"
  using assms
proof (induction rs arbitrary: n rs' dead n')
  case (Cons e rs)
  obtain tid r where e: "e = (tid, r)" by (cases e)
  obtain r1 n1 where t: "(if r_outcome r \<noteq> None then (r, n) else receiver_on_tick st now r n) = (r1, n1)"
    by (meson surj_pair)
  obtain rs1 dead1 n2 where rest: "tick_receivers st now rs n1 = (rs1, dead1, n2)"
    by (cases "tick_receivers st now rs n1")
  from Cons.prems e have r: "receiver_wf r" "pulls published dir r" and rs: "table_ok receiver_entry rs"
    by (auto simp: table_ok_def receiver_entry_def)
  have "pulls published dir r1"
    using r t receiver_tick_step [OF r(1), of st now n r1 n1]
    by (auto simp: pulls_def same_download_def split: if_splits)
  moreover have "rs' = (tid, r1) # rs1"
    using Cons.prems(2) t rest by (auto simp: e split: if_splits prod.splits)
  ultimately show ?case using Cons.IH [OF rs rest] Cons.prems(3) by (auto simp: e)
qed simp

lemma serves_same: "serves published names (tid, s) \<Longrightarrow> same_service s s' \<Longrightarrow> serves published names (tid, s')"
  by (auto simp: serves_def same_service_def)

lemma tick_senders_kept:
  assumes "table_ok sender_entry ss" and "tick_senders st now ss n = Some (ss', evs, expired, n')"
    and "\<forall>e \<in> set ss. serves published names e"
  shows "\<forall>e \<in> set ss'. serves published names e"
  using assms
proof (induction ss arbitrary: n ss' evs expired n')
  case (Cons e ss)
  obtain tid s where e: "e = (tid, s)" by (cases e)
  with Cons.prems have s: "sender_ok s" "serves published names (tid, s)" and ss: "table_ok sender_entry ss"
    by (auto simp: table_ok_def sender_entry_def)
  obtain res s1 where t: "sender_tick st now s n
      = Some (res, s1, injector.send_all (map (packet_datagram s) (next_packets now s)) now n)" "same_service s s1"
    by (rule sender_tick_step [OF s(1), of st now n])
  obtain ss1 evs1 ex1 n2 where rest: "tick_senders st now ss
      (injector.send_all (map (packet_datagram s) (next_packets now s)) now n) = Some (ss1, evs1, ex1, n2)"
    "ss' = (tid, s1) # ss1"
    using Cons.prems(2) t(1) by (auto simp: e split: option.splits sum.splits)
  have "serves published names (tid, s1)" using s(2) t(2) by (rule serves_same)
  with Cons.IH [OF ss rest(1)] Cons.prems(3) rest(2) show ?case by (auto simp: e)
qed simp

lemma relay_ack:
  assumes "relay_ok published dir (reg, fs, names)" and "reg' = registry_on_ack st now tid at a c src reg"
  shows "(\<forall>e \<in> set (senders reg'). serves published names e) \<and> receivers reg' = receivers reg
    \<and> segment_root reg' = segment_root reg"
proof (cases "map_of (senders reg) tid")
  case None
  with assms show ?thesis by (simp add: registry_on_ack_def relay_ok_def)
next
  case (Some s)
  obtain fin s1 where a: "sender_on_ack st now at a c s = (fin, s1)" by (cases "sender_on_ack st now at a c s")
  have s: "sender_ok s" "serves published names (tid, s)"
    using assms(1) map_of_SomeD [OF Some] by (auto simp: relay_ok_def registry_ok_def table_ok_def sender_entry_def)
  then have "serves published names (tid, s1)" using sender_ack_step [OF s(1) a] serves_same by blast
  then show ?thesis
    using assms Some a set_update_sub [of tid s1 "senders reg"] set_delete_sub [of tid "senders reg"]
    by (cases fin) (fastforce simp: registry_on_ack_def relay_ok_def)+
qed

lemma update_entries:
  "distinct (map fst xs) \<Longrightarrow> e \<in> set (AList.update k v xs) \<Longrightarrow> e = (k, v) \<or> e \<in> set xs \<and> fst e \<noteq> k"
  by (induction xs) (auto simp: image_iff split: if_splits)

text \<open>A request that starts a transfer notes the name it was made under.\<close>

lemma relay_serve:
  assumes ok: "relay_ok published dir (reg, fs, names)" and step: "registry_serve fs now tid filename src reg n = (reg', n')"
  shows "\<forall>e \<in> set (senders reg'). serves published (if senders reg' = senders reg then names else names(tid \<mapsto> filename)) e"
    and "receivers reg' = receivers reg \<and> segment_root reg' = segment_root reg"
proof -
  show "receivers reg' = receivers reg \<and> segment_root reg' = segment_root reg"
    using step by (auto simp: registry_serve_def split: if_splits option.splits)
  show "\<forall>e \<in> set (senders reg'). serves published (if senders reg' = senders reg then names else names(tid \<mapsto> filename)) e"
  proof (cases "senders reg' = senders reg")
    case True
    with ok show ?thesis by (simp add: relay_ok_def)
  next
    case False
    then obtain data where f: "valid_filename filename" "fs_read fs (path_join (segment_root reg) filename) = Some data"
      "reg' = reg\<lparr>senders := AList.update tid (sender_new tid src data now) (senders reg)\<rparr>"
      using step by (auto simp: registry_serve_def split: if_splits option.splits)
    have new: "serves published (names(tid \<mapsto> filename)) (tid, sender_new tid src data now)"
      using f ok by (auto simp: serves_def sender_new_def Let_def relay_ok_def disk_genuine_def)
    have d: "distinct (map fst (senders reg))" using ok by (simp add: relay_ok_def registry_ok_def table_ok_def)
    have "serves published (names(tid \<mapsto> filename)) e" if e: "e \<in> set (senders reg')" for e
    proof -
      from e have "e \<in> set (AList.update tid (sender_new tid src data now) (senders reg))" by (simp add: f(3))
      from update_entries [OF d this] show ?thesis
      proof
        assume "e \<in> set (senders reg) \<and> fst e \<noteq> tid"
        with ok show ?thesis by (auto simp: relay_ok_def serves_def split: prod.splits)
      qed (simp add: new)
    qed
    with False show ?thesis by simp
  qed
qed

lemma relay_step_ok:
  assumes "relay_step published dir st w w'" and "relay_ok published dir w" and short: "\<And>f. length (published f) \<le> 91749000"
  shows "relay_ok published dir w'"
proof -
  obtain reg0 fs0 names0 reg1 fs1 names1 where w: "w = (reg0, fs0, names0)" "w' = (reg1, fs1, names1)"
    by (metis prod_cases3)
  obtain n n' where "reg_step st (reg0, fs0, n) (reg1, fs1, n')"
    using relay_is_reg_step assms(1) unfolding w by blast
  from reg_step_ok [OF this] assms(2) have reg: "registry_ok reg1" by (simp add: relay_ok_def w)
  from assms(1,2) have "segment_root reg1 = dir \<and> disk_genuine published dir fs1
    \<and> (\<forall>(tid, r) \<in> set (receivers reg1). pulls published dir r)
    \<and> (\<forall>e \<in> set (senders reg1). serves published names1 e)"
    unfolding w
  proof (cases rule: relay_step.cases)
    case (serve now tid filename src n n')
    with relay_serve [OF _ serve(3), of published dir names0] assms(2) show ?thesis by (auto simp: relay_ok_def w)
  next
    case (start clocks now dst filename n res n')
    have new: "pulls published dir (receiver_new st t dst filename dir now)" for t
      using start(4) by (simp add: pulls_def receiver_new_def genuine_def)
    then show ?thesis
      using start assms(2) set_update_sub
      by (fastforce simp: relay_ok_def w start_receiver_def Let_def split: if_splits option.splits)
  next
    case (content now tid pn tot data src n n')
    with relay_content [OF _ short content(2,3), of dir names0] assms(2) show ?thesis
      by (auto simp: relay_ok_def w)
  next
    case (ack now tid ty a c src)
    with relay_ack [OF assms(2) [unfolded w] ack(1)] assms(2) show ?thesis by (simp add: relay_ok_def w)
  next
    case (not_found now tid retryable)
    have "pulls published dir (receiver_fail e now (mark_not_found retryable r))" if "pulls published dir r" for r e
      using that by (simp add: pulls_def receiver_fail_def mark_not_found_def)
    then show ?thesis
      using not_found assms(2) set_update_sub map_of_SomeD
      by (fastforce simp: relay_ok_def w registry_on_not_found_def Let_def split: option.splits)
  next
    case (tick now n n')
    obtain ss evs expired n1 where s: "tick_senders st now (senders reg0) n = Some (ss, evs, expired, n1)"
      using tick(3) by (auto simp: registry_tick_def split: option.splits prod.splits)
    obtain rs dead n2 where r: "tick_receivers st now (receivers reg0) n1 = (rs, dead, n2)"
      by (cases "tick_receivers st now (receivers reg0) n1")
    have ok: "table_ok sender_entry (senders reg0)" "table_ok receiver_entry (receivers reg0)"
      "\<forall>e \<in> set (senders reg0). serves published names0 e" "\<forall>(tid, r) \<in> set (receivers reg0). pulls published dir r"
      using assms(2) by (auto simp: relay_ok_def w registry_ok_def)
    show ?thesis
      using tick s r assms(2) tick_senders_kept [OF ok(1) s ok(3)] tick_receivers_kept [OF ok(2) r ok(4)]
      by (auto simp: registry_tick_def relay_ok_def w fold_delete_filter)
  next
    case (remove tid)
    with assms(2) set_delete_sub [of tid "receivers reg0"] show ?thesis
      by (fastforce simp: relay_ok_def w remove_receiver_def)
  qed (use assms(2) in \<open>auto simp: relay_ok_def w reject_not_found_def drain_events_def\<close>)
  with reg show ?thesis by (simp add: relay_ok_def w)
qed

lemma relay_reachable:
  assumes "(relay_step published dir st)\<^sup>*\<^sup>* (registry_new dir, fs0, Map.empty) w" and "disk_genuine published dir fs0"
    and "\<And>f. length (published f) \<le> 91749000"
  shows "relay_ok published dir w"
  using assms(1)
proof (induction rule: rtranclp_induct)
  case base
  have "registry_ok (registry_new dir)" by (rule registry_new_ok)
  with assms(2) show ?case by (simp add: relay_ok_def registry_new_def)
next
  case (step w1 w2)
  with relay_step_ok assms(3) show ?case by blast
qed

text \<open>C3: Integrity passes from hop to hop, as far as the packets that come in allow. Assume
  that the contents of a segment name never change and have at most 91,749,000 bytes, that
  the peer's directory starts out with published contents under segment names and other
  processes keep it so, and that every packet reaching a running download of a segment belongs
  to that segment. Then, whatever requests for whatever names, repetitions, failures of
  the disk and other downloads happen, the directory only holds published contents under
  segment names; every running transfer was started under some name, and if that is a
  segment's, every packet it sends carries the number, the total and the bytes of that very
  segment, which is what the next peer needs.\<close>

theorem relay_keeps_genuine:
  assumes "(relay_step published dir st)\<^sup>*\<^sup>* (registry_new dir, fs0, Map.empty) (reg, fs, names)"
    and "disk_genuine published dir fs0" and "\<And>f. length (published f) \<le> 91749000"
  shows "(\<forall>f data. segment_name f \<longrightarrow> fs_read fs (path_join dir f) = Some data \<longrightarrow> data = published f)
    \<and> (\<forall>(tid, s) \<in> set (senders reg). \<exists>f. names tid = Some f \<and> (segment_name f \<longrightarrow>
         (\<forall>pn. 1 \<le> unat pn \<longrightarrow> unat pn \<le> unat (s_total s) \<longrightarrow>
            packet_message s pn
              = Some (SegmentContents tid pn (packet_count (length (published f))) (chunk (published f) (unat pn))))))"
proof -
  note ok = relay_reachable [OF assms]
  have "\<exists>f. names tid = Some f \<and> (segment_name f \<longrightarrow> (\<forall>pn. 1 \<le> unat pn \<longrightarrow> unat pn \<le> unat (s_total s) \<longrightarrow> packet_message s pn
      = Some (SegmentContents tid pn (packet_count (length (published f))) (chunk (published f) (unat pn)))))"
    if "(tid, s) \<in> set (senders reg)" for tid s
  proof -
    have s: "sender_ok s" "s_transfer_id s = tid" "serves published names (tid, s)"
      using ok that by (auto simp: relay_ok_def registry_ok_def table_ok_def sender_entry_def)
    then obtain f where f: "names tid = Some f" "segment_name f \<Longrightarrow> s_file s = published f" by (auto simp: serves_def)
    have t: "s_total s = packet_count (length (s_file s))" using s(1) by (simp add: sender_ok_def)
    show ?thesis using f s(2) t packet_message_genuine [OF t] by auto
  qed
  with ok show ?thesis by (auto simp: relay_ok_def disk_genuine_def)
qed

theorem relay_keeps_genuine_witness:
  "let reg = fst (registry_serve (demo_disk\<lparr>files := [(''/d/seg_1.ts'', [1, 2, 3])]\<rparr>) 5 7 ''seg_1.ts'' (V4 1 2)
     (registry_new ''/d'') demo_net) in
   map fst (senders reg) = [7]
   \<and> (\<forall>(tid, s) \<in> set (senders reg). packet_message s 1 = Some (SegmentContents tid 1 1 [1, 2, 3]))"
proof -
  define fs where "fs = demo_disk\<lparr>files := [(''/d/seg_1.ts'', [1, 2, 3 :: u8])]\<rparr>"
  define reg where "reg = fst (registry_serve fs 5 7 ''seg_1.ts'' (V4 1 2) (registry_new ''/d'') demo_net)"
  have v: "valid_filename ''seg_1.ts''"
    by (simp add: valid_filename_def starts_with_def is_ascii_graphic_def)
  then have seg: "segment_name ''seg_1.ts''" by (simp add: segment_name_def ends_with_def suffix_def)
  let ?s = "sender_new 7 (V4 1 2) [1, 2, 3 :: u8] 5"
  have reg: "reg = (registry_new ''/d'')\<lparr>senders := [(7, ?s)]\<rparr>"
    using v by (simp add: reg_def registry_serve_def active_count_def registry_new_def MAX_CONCURRENT_TRANSFERS_def
      fs_def fs_read_def path_join_def starts_with_def ends_with_def suffix_def)
  then have started: "senders reg \<noteq> senders (registry_new ''/d'')" by (simp add: registry_new_def)
  have "relay_step (\<lambda>_. [1, 2, 3]) ''/d'' (settings_from_env (\<lambda>_. None)) (registry_new ''/d'', fs, Map.empty)
      (reg, fs, if senders reg = senders (registry_new ''/d'') then Map.empty else [7 \<mapsto> ''seg_1.ts''])"
    by (rule relay_step.serve [of fs 5 7 "''seg_1.ts''" "V4 1 2" "registry_new ''/d''" demo_net reg
          "snd (registry_serve fs 5 7 ''seg_1.ts'' (V4 1 2) (registry_new ''/d'') demo_net)"])
      (simp add: reg_def)
  then have reach: "(relay_step (\<lambda>_. [1, 2, 3]) ''/d'' (settings_from_env (\<lambda>_. None)))\<^sup>*\<^sup>*
      (registry_new ''/d'', fs, Map.empty) (reg, fs, [7 \<mapsto> ''seg_1.ts''])"
    using started by auto
  have disk: "disk_genuine (\<lambda>_. [1, 2, 3]) ''/d'' fs" by (auto simp: disk_genuine_def fs_def fs_read_def split: if_splits)
  have count: "packet_count (length [1, 2, 3 :: u8]) = 1" by (simp add: packet_count_def SEGMENT_PACKET_SIZE_def)
  have entry: "(7, ?s) \<in> set (senders reg)" by (simp add: reg)
  have "\<forall>pn. 1 \<le> unat pn \<longrightarrow> unat pn \<le> unat (s_total ?s)
      \<longrightarrow> packet_message ?s pn = Some (SegmentContents 7 pn 1 (chunk [1, 2, 3] (unat pn)))"
    using relay_keeps_genuine [OF reach disk] entry seg unfolding count by fastforce
  moreover have "s_total ?s = 1" using count by (simp add: sender_new_def Let_def)
  ultimately have "packet_message ?s 1 = Some (SegmentContents 7 1 1 (chunk [1, 2, 3] 1))"
    by (metis order_refl unat_1)
  moreover have "chunk [1, 2, 3 :: u8] 1 = [1, 2, 3]" by (simp add: chunk_def SEGMENT_PACKET_SIZE_def)
  ultimately have "packet_message ?s 1 = Some (SegmentContents 7 1 1 [1, 2, 3])" by simp
  then show ?thesis by (simp add: reg reg_def [unfolded fs_def, symmetric] Let_def)
qed

end
