(* ===== verification/Format.thy ===== *)
theory Format
  imports Text Address
begin

text \<open>
  The texts \<open>format!\<close> makes of numbers and socket addresses: decimal and lower-case
  hexadecimal numbers, padding with zeros, and the \<open>Display\<close> form of \<open>std::net\<close>'s addresses
  (an IPv6 address with its longest run of zero groups compressed).
\<close>

section \<open>Numbers\<close>

definition hex_digit :: "nat \<Rightarrow> char" where
  "hex_digit d = (if d < 10 then char_of (48 + d) else char_of (87 + d))"

fun show_hex :: "nat \<Rightarrow> string" where
  "show_hex n =
     (if n < 16 then [hex_digit n] else show_hex (n div 16) @ [hex_digit (n mod 16)])"

declare show_hex.simps [simp del]

definition pad_zeros :: "nat \<Rightarrow> string \<Rightarrow> string" where
  "pad_zeros w s = replicate (w - length s) (CHR ''0'') @ s"

definition show_word :: "'a::len word \<Rightarrow> string" where
  "show_word w = show_nat (unat w)"

fun join_with :: "string \<Rightarrow> string list \<Rightarrow> string" where
  "join_with sep [] = []"
| "join_with sep [s] = s"
| "join_with sep (s # ss) = s @ sep @ join_with sep ss"

text \<open>Which characters the printers use.\<close>

lemma show_nat_chars: "set (show_nat n) \<subseteq> char_of ` {48..57 :: nat}"
proof (induction n rule: show_nat.induct)
  case (1 n)
  then show ?case by (cases "n < 10") (auto simp: show_nat.simps [of n])
qed

lemma show_hex_chars: "set (show_hex n) \<subseteq> char_of ` ({48..57} \<union> {97..102} :: nat set)"
proof (induction n rule: show_hex.induct)
  case (1 n)
  have d: "hex_digit d \<in> char_of ` ({48..57} \<union> {97..102} :: nat set)" if "d < 16" for d
    using that by (auto simp: hex_digit_def)
  show ?case
  proof (cases "n < 16")
    case True
    with d [of n] show ?thesis by (simp add: show_hex.simps [of n])
  next
    case False
    with 1 d [of "n mod 16"] show ?thesis by (simp add: show_hex.simps [of n])
  qed
qed

lemma join_with_chars: "set (join_with sep ss) \<subseteq> set sep \<union> \<Union> (set ` set ss)"
  by (induction sep ss rule: join_with.induct) auto

text \<open>How long they are, and that padding reads back.\<close>

lemma length_show_nat: "n < 10 ^ w \<Longrightarrow> 0 < w \<Longrightarrow> length (show_nat n) \<le> w"
proof (induction w arbitrary: n)
  case (Suc w)
  show ?case
  proof (cases "n < 10")
    case False
    with Suc have "n div 10 < 10 ^ w" "0 < w" by (auto intro: gr0I)
    with Suc have "length (show_nat (n div 10)) \<le> w" by blast
    with False show ?thesis by (simp add: show_nat.simps [of n])
  qed (simp add: show_nat.simps [of n])
qed simp

lemma length_pad: "n < 10 ^ w \<Longrightarrow> 0 < w \<Longrightarrow> length (pad_zeros w (show_nat n)) = w"
  using length_show_nat [of n w] by (simp add: pad_zeros_def)

lemma parse_pad: "n < b \<Longrightarrow> parse_uint b (pad_zeros w (show_nat n)) = Some n"
proof -
  assume n: "n < b"
  have zeros: "parse_digits b 0 (replicate k CHR ''0'') = Some 0" for k
    using n by (induction k) (simp_all add: digit_of_def)
  then have "parse_digits b 0 (pad_zeros w (show_nat n)) = Some n"
    by (simp add: pad_zeros_def parse_digits_append parse_digits_show [OF n])
  moreover have "pad_zeros w (show_nat n) \<noteq> []"
    using show_nat_head [of n] by (auto simp: pad_zeros_def)
  ultimately show ?thesis
    by (cases "pad_zeros w (show_nat n)") (auto simp: parse_uint_def digit_of_def)
qed

section \<open>Words of a line\<close>

text \<open>
  \<open>str::split_whitespace\<close>. The fuel is the text's length: every step takes at least a byte.
\<close>

definition flush_word :: "string \<Rightarrow> string list" where
  "flush_word cur = (if cur = [] then [] else [rev cur])"

fun split_ws :: "nat \<Rightarrow> string \<Rightarrow> string \<Rightarrow> string list" where
  "split_ws n cur [] = flush_word cur"
| "split_ws 0 cur s = flush_word cur"
| "split_ws (Suc n) cur (c # cs) =
     (case find (\<lambda>w. starts_with (c # cs) w) white_space of
        None \<Rightarrow> split_ws n (c # cur) cs
      | Some w \<Rightarrow> flush_word cur @ split_ws n [] (drop (length w) (c # cs)))"

definition split_whitespace :: "string \<Rightarrow> string list" where
  "split_whitespace s = split_ws (length s) [] s"

section \<open>Addresses\<close>

definition show_v4 :: "ipv4 \<Rightarrow> string" where
  "show_v4 a = join_with ''.'' (map show_word (v4_octets a))"

definition v6_groups :: "ipv6 \<Rightarrow> u16 list" where
  "v6_groups a = map (\<lambda>i. ucast (drop_bit (16 * i) a)) [7, 6, 5, 4, 3, 2, 1, 0]"

text \<open>The first longest run of zero groups, as its start and length.\<close>

fun zero_span :: "nat \<Rightarrow> u16 list \<Rightarrow> nat \<times> nat \<Rightarrow> nat \<times> nat \<Rightarrow> nat \<times> nat" where
  "zero_span i [] current longest = longest"
| "zero_span i (g # gs) (start, len) longest =
     (if g = 0 then
        let current = (if len = 0 then i else start, len + 1);
            longest = (if len + 1 > snd longest then current else longest) in
        zero_span (i + 1) gs current longest
      else zero_span (i + 1) gs (0, 0) longest)"

definition show_groups :: "u16 list \<Rightarrow> string" where
  "show_groups gs = join_with '':'' (map (\<lambda>g. show_hex (unat g)) gs)"

definition show_v6 :: "ipv6 \<Rightarrow> string" where
  "show_v6 a =
     (let gs = v6_groups a in
      if take 6 gs = [0, 0, 0, 0, 0, 0xFFFF] then ''::ffff:'' @ show_v4 (ucast a)
      else case zero_span 0 gs (0, 0) (0, 0) of
        (start, len) \<Rightarrow>
          if len > 1
          then show_groups (take start gs) @ ''::'' @ show_groups (drop (start + len) gs)
          else show_groups gs)"

fun show_addr :: "socket_addr \<Rightarrow> string" where
  "show_addr (V4 ip port) = show_v4 ip @ '':'' @ show_word port"
| "show_addr (V6 ip port flow scope) =
     ''['' @ show_v6 ip @ (if scope = 0 then [] else ''%'' @ show_word scope) @ '']:'' @ show_word port"

text \<open>An address is printed with digits, lower-case letters \<open>a\<close> to \<open>f\<close> and \<open>. : [ ] %\<close> only.\<close>

definition addr_chars :: "char set" where
  "addr_chars = char_of ` ({48..57} \<union> {97..102} :: nat set) \<union> set ''.:[]%f''"

lemma show_word_addr_chars: "set (show_word w) \<subseteq> addr_chars"
  using show_nat_chars [of "unat w"] by (auto simp: show_word_def addr_chars_def)

lemma join_words_addr_chars: "set (join_with ''.'' (map show_word ws)) \<subseteq> addr_chars"
  using join_with_chars [of "''.''" "map show_word ws"] show_word_addr_chars
  by (fastforce simp: addr_chars_def)

lemma show_groups_addr_chars: "set (show_groups gs) \<subseteq> addr_chars"
proof -
  have "set (show_hex n) \<subseteq> addr_chars" for n
    using show_hex_chars [of n] by (auto simp: addr_chars_def)
  then show ?thesis
    using join_with_chars [of "'':''" "map (\<lambda>g. show_hex (unat g)) gs"]
    by (fastforce simp: show_groups_def addr_chars_def)
qed

lemma show_v6_addr_chars: "set (show_v6 a) \<subseteq> addr_chars"
proof -
  have p: "set '':'' \<subseteq> addr_chars" "set ''::ffff:'' \<subseteq> addr_chars"
    by (simp_all add: addr_chars_def)
  show ?thesis
    using show_groups_addr_chars p
    by (auto simp: show_v6_def show_v4_def Let_def intro: subsetD [OF join_words_addr_chars] split: prod.split)
qed

lemma show_addr_chars: "set (show_addr a) \<subseteq> addr_chars"
proof -
  have p: "set ''.:[]%'' \<subseteq> addr_chars" by (simp add: addr_chars_def)
  show ?thesis
    using p show_v6_addr_chars
    by (cases a) (auto simp: show_v4_def intro: subsetD [OF show_word_addr_chars] subsetD [OF join_words_addr_chars])
qed

end
