(* ===== verification/Node.thy ===== *)
theory Node
  imports Registry Format
begin

text \<open>
  The state of a node, \<open>src/src/node.rs\<close>: peers with their quality statistics and paths, the
  segment inventories learned from them, the origin's seed leases, and the operations that
  record what happened. A \<open>HashMap\<close> is an association list, whose order stands for the
  unspecified iteration order; a \<open>HashSet\<close> of addresses is a list without duplicates. Every
  operation takes one reading of the clock; counters wrap at their width, as in a release
  build. The network is the node's injector and socket, the file system is an argument.
\<close>

section \<open>Data\<close>

definition PING_INTERVAL :: duration where
  "PING_INTERVAL = from_secs 10"

definition BEACON_INTERVAL :: duration where
  "BEACON_INTERVAL = from_secs 5"

definition PATH_FRESH :: duration where
  "PATH_FRESH = from_secs 30"

datatype event =
    HandshakeResponseEvent socket_addr string
  | ManifestResponseEvent bytes
  | PeerlistResponseEvent "(socket_addr \<times> u8) list"
  | NoEvent

record peer_info =
  pi_name :: string
  pi_last_seen :: instant

datatype pull_result = PullOk | PullNotFound | PullRetryableNotFound | PullTimeout | PullOther

datatype serve_result = ServeServed | ServeNotFound | ServeSenderFailed

record peer_stat =
  ps_name :: string
  ps_pulls :: u32
  ps_downloaded_bytes :: u64
  ps_nf_pulls :: u32
  ps_timeouts :: u32
  ps_other_fails :: u32
  ps_served :: u32
  ps_nf_served :: u32
  ps_sender_fails :: u32
  ps_uploaded_bytes :: u64
  ps_latency_ms :: u32
  ps_score :: u32
  ps_last_seen :: instant

definition peer_stat_new :: "string \<Rightarrow> instant \<Rightarrow> peer_stat" where
  "peer_stat_new name now =
     \<lparr>ps_name = name, ps_pulls = 0, ps_downloaded_bytes = 0, ps_nf_pulls = 0, ps_timeouts = 0,
      ps_other_fails = 0, ps_served = 0, ps_nf_served = 0, ps_sender_fails = 0,
      ps_uploaded_bytes = 0, ps_latency_ms = 0, ps_score = 50, ps_last_seen = now\<rparr>"

text \<open>The sum is one of \<open>i32\<close>.\<close>

definition adjust :: "u32 \<Rightarrow> peer_stat \<Rightarrow> peer_stat" where
  "adjust delta s = s\<lparr>ps_score := word_of_int (max 0 (min 100 (sint (ps_score s + delta))))\<rparr>"

record stats_snapshot =
  snap_lines :: "string list"
  snap_json :: string
  snap_metrics :: string

record path_state =
  path_last_ping :: instant
  path_last_pong :: "instant option"
  path_lan :: bool

definition path_state_fresh :: "instant \<Rightarrow> path_state \<Rightarrow> bool" where
  "path_state_fresh now p =
     (case path_last_pong p of Some t \<Rightarrow> duration_since now t < PATH_FRESH | None \<Rightarrow> False)"

record node =
  n_socket :: udp_socket
  n_name :: string
  n_role :: string
  n_manifest_path :: string
  n_registry :: registry
  n_peers :: "(socket_addr \<times> peer_info) list"
  n_peer_stats :: "(socket_addr \<times> peer_stat) list"
  n_fault :: fault_injector
  n_my_public :: "socket_addr option"
  n_claimed :: "socket_addr option"
  n_beacon_nonce :: u32
  n_claims :: "(socket_addr \<times> socket_addr) list"
  n_paths :: "(socket_addr \<times> path_state) list"
  n_availability :: "(socket_addr \<times> segment_availability \<times> instant) list"
  n_missing :: "((socket_addr \<times> u64) \<times> instant) list"
  n_origin_seeders :: "(string \<times> socket_addr list) list"
  n_origin_assignments :: u64
  n_origin_denials :: u64
  n_local_addr :: socket_addr
  n_next_ping :: instant
  n_next_beacon :: instant
  n_started :: instant
  n_downloaded_total :: u64
  n_downloaded_bytes :: u64
  n_served_total :: u64
  n_served_bytes :: u64
  n_queue_depth :: u64
  n_inflight :: u64
  n_retention_secs :: u64
  n_next_snapshot :: instant
  n_next_rank_log :: instant
  n_next_prune :: instant
  n_stats_sink :: "stats_snapshot option"

text \<open>
  \<open>local_addr\<close> is the socket's answer to \<open>local_addr()\<close>, \<open>clock\<close> the wall clock the nonce is
  drawn from.
\<close>

definition node_new ::
    "(string \<Rightarrow> string option) \<Rightarrow> nat option \<Rightarrow> instant \<Rightarrow> socket_addr option \<Rightarrow> udp_socket \<Rightarrow> string
      \<Rightarrow> string \<Rightarrow> string \<Rightarrow> string \<Rightarrow> fault_injector \<Rightarrow> stats_snapshot option \<Rightarrow> node" where
  "node_new env clock now local_addr sock name role manifest_path root flt sink =
     \<lparr>n_socket = sock,
      n_name = name,
      n_role = role,
      n_manifest_path = manifest_path,
      n_registry = registry_new root,
      n_peers = [],
      n_peer_stats = [],
      n_fault = flt,
      n_my_public = None,
      n_claimed = None,
      n_beacon_nonce = ucast (fst (rng_next (rng_new 0 clock))),
      n_claims = [],
      n_paths = [],
      n_availability = [],
      n_missing = [],
      n_origin_seeders = [],
      n_origin_assignments = 0,
      n_origin_denials = 0,
      n_local_addr = (case local_addr of Some a \<Rightarrow> a | None \<Rightarrow> V4 0x7F000001 0),
      n_next_ping = now + PING_INTERVAL,
      n_next_beacon = now + BEACON_INTERVAL,
      n_started = now,
      n_downloaded_total = 0,
      n_downloaded_bytes = 0,
      n_served_total = 0,
      n_served_bytes = 0,
      n_queue_depth = 0,
      n_inflight = 0,
      n_retention_secs = env_u64 env ''QSTREAM_RETENTION_SECS'' 0,
      n_next_snapshot = now + from_secs 5,
      n_next_rank_log = now + from_secs 60,
      n_next_prune = now + from_secs 30,
      n_stats_sink = sink\<rparr>"

definition set_claimed :: "socket_addr \<Rightarrow> node \<Rightarrow> node" where
  "set_claimed addr nd = nd\<lparr>n_claimed := Some addr\<rparr>"

definition is_lan_path :: "node \<Rightarrow> socket_addr \<Rightarrow> bool" where
  "is_lan_path nd addr = (case map_of (n_paths nd) addr of Some p \<Rightarrow> path_lan p | None \<Rightarrow> False)"

definition path_fresh :: "node \<Rightarrow> socket_addr \<Rightarrow> instant \<Rightarrow> bool" where
  "path_fresh nd addr now =
     (case map_of (n_paths nd) addr of Some p \<Rightarrow> path_state_fresh now p | None \<Rightarrow> False)"

definition known_peer :: "node \<Rightarrow> socket_addr \<Rightarrow> bool" where
  "known_peer nd addr \<longleftrightarrow> map_of (n_peers nd) addr \<noteq> None"

section \<open>The network of a node\<close>

text \<open>An operation on the injector and the socket, with the other state it computes.\<close>

definition node_net :: "node \<Rightarrow> net" where
  "node_net nd = (n_fault nd, n_socket nd)"

definition with_net :: "net \<Rightarrow> node \<Rightarrow> node" where
  "with_net n nd = nd\<lparr>n_fault := fst n, n_socket := snd n\<rparr>"

definition node_send :: "bytes \<Rightarrow> socket_addr \<Rightarrow> instant \<Rightarrow> node \<Rightarrow> node" where
  "node_send bs dst now nd = with_net (fault_send bs dst now (node_net nd)) nd"

section \<open>Inventories\<close>

definition saturating_sub :: "u64 \<Rightarrow> u64 \<Rightarrow> u64" where
  "saturating_sub a b = (if b \<le> a then a - b else 0)"

fun clear_missing ::
    "socket_addr \<Rightarrow> segment_availability \<Rightarrow> nat list \<Rightarrow> ((socket_addr \<times> u64) \<times> instant) list
      \<Rightarrow> ((socket_addr \<times> u64) \<times> instant) list" where
  "clear_missing peer a [] ms = ms"
| "clear_missing peer a (i # is) ms =
     clear_missing peer a is
       (if mask a AND push_bit i 1 \<noteq> 0
        then AList.delete (peer, saturating_sub (newest a) (of_nat i)) ms else ms)"

definition record_availability ::
    "instant \<Rightarrow> socket_addr \<Rightarrow> segment_availability \<Rightarrow> node \<Rightarrow> node" where
  "record_availability now peer a nd =
     nd\<lparr>n_missing := clear_missing peer a [0..<AVAILABILITY_MASK_BITS] (n_missing nd),
        n_availability := AList.update peer (a, now) (n_availability nd)\<rparr>"

definition record_missing :: "instant \<Rightarrow> socket_addr \<Rightarrow> string \<Rightarrow> node \<Rightarrow> node" where
  "record_missing now peer filename nd =
     (case segment_number filename of
        Some number \<Rightarrow>
          nd\<lparr>n_missing := AList.update (peer, number) (now + from_secs 15) (n_missing nd)\<rparr>
      | None \<Rightarrow> nd)"

definition peer_availability :: "node \<Rightarrow> socket_addr \<Rightarrow> string \<Rightarrow> instant \<Rightarrow> bool option" where
  "peer_availability nd peer filename now =
     (case segment_number filename of
        None \<Rightarrow> None
      | Some number \<Rightarrow>
          if (case map_of (n_missing nd) (peer, number) of
                Some expires_at \<Rightarrow> now < expires_at | None \<Rightarrow> False)
          then Some False
          else
            (case map_of (n_availability nd) peer of
               None \<Rightarrow> None
             | Some (a, observed_at) \<Rightarrow>
                 if duration_since now observed_at > from_secs 15 then None
                 else avail_contains a number))"

definition peer_may_have :: "node \<Rightarrow> socket_addr \<Rightarrow> string \<Rightarrow> instant \<Rightarrow> bool" where
  "peer_may_have nd peer filename now \<longleftrightarrow> peer_availability nd peer filename now \<noteq> Some False"

definition announce_availability :: "file_system \<Rightarrow> instant \<Rightarrow> node \<Rightarrow> node" where
  "announce_availability fs now nd =
     (let pong = Pong (segment_availability fs (segment_root (n_registry nd))) in
      fold (\<lambda>peer. node_send (encode pong) peer now) (map fst (n_peers nd)) nd)"

section \<open>Origin seed leases\<close>

definition seed_lease_allowed :: "socket_addr list \<Rightarrow> socket_addr \<Rightarrow> nat \<Rightarrow> bool" where
  "seed_lease_allowed seeders peer limit \<longleftrightarrow> peer \<in> set seeders \<or> length seeders < limit"

definition lease_holders :: "node \<Rightarrow> string \<Rightarrow> socket_addr list" where
  "lease_holders nd filename =
     (case map_of (n_origin_seeders nd) filename of Some seeders \<Rightarrow> seeders | None \<Rightarrow> [])"

definition viable_seeders :: "node \<Rightarrow> string \<Rightarrow> instant \<Rightarrow> socket_addr list" where
  "viable_seeders nd filename now =
     filter (\<lambda>c. known_peer nd c \<and> path_fresh nd c now
         \<and> peer_availability nd c filename now \<noteq> Some False)
       (lease_holders nd filename)"

definition peer_source_exists :: "node \<Rightarrow> string \<Rightarrow> socket_addr \<Rightarrow> instant \<Rightarrow> bool" where
  "peer_source_exists nd filename peer now \<longleftrightarrow>
     list_ex (\<lambda>c. c \<noteq> peer \<and> remote_public c = remote_public peer \<and> path_fresh nd c now
         \<and> peer_availability nd c filename now = Some True)
       (map fst (n_peers nd))"

definition origin_limit :: "(string \<Rightarrow> string option) \<Rightarrow> nat" where
  "origin_limit env = unat (env_u64 env ''QSTREAM_ORIGIN_SEEDERS'' 2)"

definition origin_seed_allowed ::
    "(string \<Rightarrow> string option) \<Rightarrow> file_system \<Rightarrow> instant \<Rightarrow> string \<Rightarrow> socket_addr \<Rightarrow> node \<Rightarrow> bool \<times> node" where
  "origin_seed_allowed env fs now filename peer nd =
     (if n_role nd \<noteq> ''master'' \<or> \<not> has_segment fs filename (n_registry nd) then (True, nd)
      else
        let limit = origin_limit env;
            seeders = viable_seeders nd filename now;
            reachable = filter (\<lambda>c. remote_public c = remote_public peer) seeders;
            nd1 = nd\<lparr>n_origin_seeders := AList.update filename seeders (n_origin_seeders nd)\<rparr>;
            lease = (\<lambda>s. nd\<lparr>n_origin_seeders := AList.update filename s (n_origin_seeders nd),
                            n_origin_assignments := n_origin_assignments nd + 1\<rparr>) in
        if seed_lease_allowed reachable peer limit then
          (True, if peer \<in> set seeders then nd1 else lease (seeders @ [peer]))
        else if \<not> peer_source_exists nd1 filename peer now then
          (True, lease (List.insert peer seeders))
        else (False, nd1\<lparr>n_origin_denials := n_origin_denials nd + 1\<rparr>))"

definition prune_origin_seeders :: "node \<Rightarrow> node" where
  "prune_origin_seeders nd =
     nd\<lparr>n_origin_seeders :=
          filter (\<lambda>(_, seeders). seeders \<noteq> [])
            (map (\<lambda>(f, seeders). (f, filter (known_peer nd) seeders)) (n_origin_seeders nd))\<rparr>"

section \<open>Peers\<close>

definition effective_addr :: "node \<Rightarrow> socket_addr \<Rightarrow> socket_addr" where
  "effective_addr nd addr =
     (case map_of (n_peers nd) addr of
        None \<Rightarrow> addr
      | Some p \<Rightarrow>
          (case find (\<lambda>(a, info). pi_name info = pi_name p \<and> a \<noteq> addr \<and> is_lan_path nd a) (n_peers nd) of
             Some (a, _) \<Rightarrow> a
           | None \<Rightarrow> addr))"

definition path_entry :: "instant \<Rightarrow> socket_addr \<Rightarrow> node \<Rightarrow> path_state" where
  "path_entry now src nd =
     (case map_of (n_paths nd) src of
        Some p \<Rightarrow> p
      | None \<Rightarrow> \<lparr>path_last_ping = now, path_last_pong = None, path_lan = False\<rparr>)"

definition record_pong :: "instant \<Rightarrow> socket_addr \<Rightarrow> node \<Rightarrow> node" where
  "record_pong now src nd =
     nd\<lparr>n_paths := AList.update src
          ((path_entry now src nd)\<lparr>path_last_pong := Some now, path_last_ping := now\<rparr>) (n_paths nd)\<rparr>"

definition stat_entry :: "instant \<Rightarrow> string \<Rightarrow> socket_addr \<Rightarrow> node \<Rightarrow> peer_stat" where
  "stat_entry now name addr nd =
     (case map_of (n_peer_stats nd) addr of Some s \<Rightarrow> s | None \<Rightarrow> peer_stat_new name now)"

definition register_peer :: "instant \<Rightarrow> socket_addr \<Rightarrow> string \<Rightarrow> node \<Rightarrow> node" where
  "register_peer now addr name nd =
     nd\<lparr>n_peers := AList.update addr \<lparr>pi_name = name, pi_last_seen = now\<rparr> (n_peers nd),
        n_peer_stats := AList.update addr (stat_entry now name addr nd) (n_peer_stats nd),
        n_paths := AList.update addr (path_entry now addr nd) (n_paths nd)\<rparr>"

definition touch_peer :: "instant \<Rightarrow> socket_addr \<Rightarrow> node \<Rightarrow> node" where
  "touch_peer now addr nd =
     nd\<lparr>n_peers := (case map_of (n_peers nd) addr of
          Some info \<Rightarrow> AList.update addr (info\<lparr>pi_last_seen := now\<rparr>) (n_peers nd)
        | None \<Rightarrow> n_peers nd),
        n_peer_stats := (case map_of (n_peer_stats nd) addr of
          Some s \<Rightarrow> AList.update addr (s\<lparr>ps_last_seen := now\<rparr>) (n_peer_stats nd)
        | None \<Rightarrow> n_peer_stats nd)\<rparr>"

definition prune_peers :: "duration \<Rightarrow> instant \<Rightarrow> node \<Rightarrow> node" where
  "prune_peers ttl now nd =
     (let stale = map fst (filter (\<lambda>(_, info). duration_since now (pi_last_seen info) \<ge> ttl) (n_peers nd)) in
      nd\<lparr>n_peers := fold AList.delete stale (n_peers nd)\<rparr>)"

definition drop_peer :: "socket_addr \<Rightarrow> node \<Rightarrow> node" where
  "drop_peer addr nd = nd\<lparr>n_peers := AList.delete addr (n_peers nd)\<rparr>"

definition peer_label :: "node \<Rightarrow> socket_addr \<Rightarrow> string" where
  "peer_label nd peer =
     (case map_of (n_peers nd) peer of Some p \<Rightarrow> pi_name p | None \<Rightarrow> show_addr peer)"

section \<open>Ranking\<close>

definition latency_step :: "u64 option \<Rightarrow> peer_stat \<Rightarrow> peer_stat" where
  "latency_step latency s =
     (case latency of
        None \<Rightarrow> s
      | Some ms \<Rightarrow>
          if ps_latency_ms s = 0 then s\<lparr>ps_latency_ms := ucast ms\<rparr>
          else s\<lparr>ps_latency_ms := (ps_latency_ms s * 3 + ucast ms) div 4\<rparr>)"

fun pull_stat :: "pull_result \<Rightarrow> u64 option \<Rightarrow> u64 \<Rightarrow> peer_stat \<Rightarrow> peer_stat" where
  "pull_stat PullOk latency bs s =
     (let s = latency_step latency (adjust 2 (s\<lparr>ps_pulls := ps_pulls s + 1\<rparr>)) in
      s\<lparr>ps_downloaded_bytes := ps_downloaded_bytes s + bs\<rparr>)"
| "pull_stat PullNotFound latency bs s = s\<lparr>ps_nf_pulls := ps_nf_pulls s + 1\<rparr>"
| "pull_stat PullRetryableNotFound latency bs s = s"
| "pull_stat PullTimeout latency bs s = adjust (- 10) (s\<lparr>ps_timeouts := ps_timeouts s + 1\<rparr>)"
| "pull_stat PullOther latency bs s = adjust (- 3) (s\<lparr>ps_other_fails := ps_other_fails s + 1\<rparr>)"

definition record_pull ::
    "instant \<Rightarrow> socket_addr \<Rightarrow> pull_result \<Rightarrow> u64 option \<Rightarrow> u64 \<Rightarrow> node \<Rightarrow> node" where
  "record_pull now peer result latency bs nd =
     (let s = (stat_entry now (peer_label nd peer) peer nd)\<lparr>ps_last_seen := now\<rparr>;
          nd1 = nd\<lparr>n_peer_stats := AList.update peer (pull_stat result latency bs s) (n_peer_stats nd)\<rparr> in
      if result = PullOk
      then nd1\<lparr>n_downloaded_total := n_downloaded_total nd + 1,
               n_downloaded_bytes := n_downloaded_bytes nd + bs\<rparr>
      else nd1)"

fun serve_stat :: "serve_result \<Rightarrow> u64 \<Rightarrow> peer_stat \<Rightarrow> peer_stat" where
  "serve_stat ServeServed bs s =
     (let s = adjust 2 (s\<lparr>ps_served := ps_served s + 1\<rparr>) in
      s\<lparr>ps_uploaded_bytes := ps_uploaded_bytes s + bs\<rparr>)"
| "serve_stat ServeNotFound bs s = s\<lparr>ps_nf_served := ps_nf_served s + 1\<rparr>"
| "serve_stat ServeSenderFailed bs s = adjust (- 5) (s\<lparr>ps_sender_fails := ps_sender_fails s + 1\<rparr>)"

definition record_serve ::
    "instant \<Rightarrow> socket_addr \<Rightarrow> serve_result \<Rightarrow> u64 \<Rightarrow> node \<Rightarrow> node" where
  "record_serve now peer result bs nd =
     (let s = stat_entry now (peer_label nd peer) peer nd;
          nd1 = nd\<lparr>n_peer_stats := AList.update peer (serve_stat result bs s) (n_peer_stats nd)\<rparr> in
      if result = ServeServed
      then nd1\<lparr>n_served_total := n_served_total nd + 1, n_served_bytes := n_served_bytes nd + bs\<rparr>
      else nd1)"

fun record_event :: "instant \<Rightarrow> reg_event \<Rightarrow> node \<Rightarrow> node" where
  "record_event now (Served src bs) nd = record_serve now src ServeServed bs nd"
| "record_event now (NotFound src) nd = record_serve now src ServeNotFound 0 nd"
| "record_event now (SenderFailed src) nd = record_serve now src ServeSenderFailed 0 nd"

definition node_next_deadline :: "instant \<Rightarrow> node \<Rightarrow> instant option" where
  "node_next_deadline now nd =
     (case (registry_next_deadline (n_registry nd), fault_next_deadline (n_fault nd) now) of
        (Some a, Some b) \<Rightarrow> Some (min a b)
      | (Some a, None) \<Rightarrow> Some a
      | (None, b) \<Rightarrow> b)"

section \<open>The invariant\<close>

text \<open>
  The tables have one entry per key, every score is in \<open>0..100\<close>, every known peer has its
  statistics and its path, a segment's seed leases are distinct, and the registry is well
  formed.
\<close>

definition score_ok :: "socket_addr \<Rightarrow> peer_stat \<Rightarrow> bool" where
  "score_ok a s \<longleftrightarrow> ps_score s \<le> 100"

definition node_ok :: "node \<Rightarrow> bool" where
  "node_ok nd \<longleftrightarrow> registry_ok (n_registry nd)
     \<and> table_ok score_ok (n_peer_stats nd)
     \<and> table_ok (\<lambda>_. distinct) (n_origin_seeders nd)
     \<and> distinct (map fst (n_peers nd)) \<and> distinct (map fst (n_paths nd))
     \<and> fst ` set (n_peers nd) \<subseteq> fst ` set (n_peer_stats nd)
     \<and> fst ` set (n_peers nd) \<subseteq> fst ` set (n_paths nd)"

text \<open>The fields the invariant does not read.\<close>

lemma node_ok_frame [simp]:
  "node_ok (nd\<lparr>n_socket := s\<rparr>) = node_ok nd" "node_ok (nd\<lparr>n_fault := f\<rparr>) = node_ok nd"
  "node_ok (nd\<lparr>n_claimed := c\<rparr>) = node_ok nd" "node_ok (nd\<lparr>n_my_public := p\<rparr>) = node_ok nd"
  "node_ok (nd\<lparr>n_claims := cl\<rparr>) = node_ok nd" "node_ok (nd\<lparr>n_missing := ms\<rparr>) = node_ok nd"
  "node_ok (nd\<lparr>n_availability := av\<rparr>) = node_ok nd"
  "node_ok (nd\<lparr>n_origin_assignments := w\<rparr>) = node_ok nd" "node_ok (nd\<lparr>n_origin_denials := w\<rparr>) = node_ok nd"
  "node_ok (nd\<lparr>n_downloaded_total := w\<rparr>) = node_ok nd" "node_ok (nd\<lparr>n_downloaded_bytes := w\<rparr>) = node_ok nd"
  "node_ok (nd\<lparr>n_served_total := w\<rparr>) = node_ok nd" "node_ok (nd\<lparr>n_served_bytes := w\<rparr>) = node_ok nd"
  "node_ok (nd\<lparr>n_queue_depth := w\<rparr>) = node_ok nd" "node_ok (nd\<lparr>n_inflight := w\<rparr>) = node_ok nd"
  "node_ok (nd\<lparr>n_next_ping := t\<rparr>) = node_ok nd" "node_ok (nd\<lparr>n_next_beacon := t\<rparr>) = node_ok nd"
  "node_ok (nd\<lparr>n_next_snapshot := t\<rparr>) = node_ok nd" "node_ok (nd\<lparr>n_next_rank_log := t\<rparr>) = node_ok nd"
  "node_ok (nd\<lparr>n_next_prune := t\<rparr>) = node_ok nd" "node_ok (nd\<lparr>n_stats_sink := k\<rparr>) = node_ok nd"
  by (simp_all add: node_ok_def)

lemma node_ok_registry [simp]:
  "node_ok nd \<Longrightarrow> node_ok (nd\<lparr>n_registry := reg\<rparr>) = registry_ok reg"
  by (simp add: node_ok_def)

lemma node_ok_net [simp]: "node_ok (with_net n nd) = node_ok nd"
  by (simp add: with_net_def)

lemma node_ok_send [simp]: "node_ok (node_send bs dst now nd) = node_ok nd"
  by (simp add: node_send_def)

lemma update_keys: "fst ` set (AList.update k v xs) = insert k (fst ` set xs)"
  using dom_map_of_conv_image_fst [of "AList.update k v xs"] dom_map_of_conv_image_fst [of xs]
  by (simp add: AList.update_conv')

lemma delete_keys: "fst ` set (AList.delete k xs) = fst ` set xs - {k}"
  by (auto simp: AList.delete_eq)

lemma deletes_keys: "fst ` set (fold AList.delete ks xs) = fst ` set xs - set ks"
  by (induction ks arbitrary: xs) (auto simp: delete_keys)

lemma adjust_score_ok [simp]: "score_ok a (adjust d s)"
proof -
  have "uint (word_of_int (max 0 (min 100 i)) :: u32) \<le> 100" for i :: int
    by (simp add: unsigned_of_int take_bit_int_eq_self max_def min_def)
  then show ?thesis by (simp add: score_ok_def adjust_def word_le_def)
qed

lemma score_ok_frame [simp]:
  "score_ok a (s\<lparr>ps_pulls := x\<rparr>) = score_ok a s" "score_ok a (s\<lparr>ps_nf_pulls := x\<rparr>) = score_ok a s"
  "score_ok a (s\<lparr>ps_downloaded_bytes := b\<rparr>) = score_ok a s" "score_ok a (s\<lparr>ps_uploaded_bytes := b\<rparr>) = score_ok a s"
  "score_ok a (s\<lparr>ps_nf_served := x\<rparr>) = score_ok a s" "score_ok a (s\<lparr>ps_last_seen := t\<rparr>) = score_ok a s"
  "score_ok a (latency_step l s) = score_ok a s"
  by (simp_all add: score_ok_def latency_step_def split: option.split)

lemma pull_stat_ok: "score_ok a s \<Longrightarrow> score_ok a (pull_stat r l bs s)"
  by (cases r) (simp_all add: Let_def)

lemma serve_stat_ok: "score_ok a s \<Longrightarrow> score_ok a (serve_stat r bs s)"
  by (cases r) (simp_all add: Let_def)

lemma stat_entry_ok: "node_ok nd \<Longrightarrow> score_ok a (stat_entry now name a nd)"
  by (auto simp: stat_entry_def node_ok_def peer_stat_new_def score_ok_def split: option.split
      dest: table_ok_lookup)

lemma node_ok_stat:
  "node_ok nd \<Longrightarrow> score_ok a s \<Longrightarrow> node_ok (nd\<lparr>n_peer_stats := AList.update a s (n_peer_stats nd)\<rparr>)"
  by (auto simp: node_ok_def update_keys)

lemma node_ok_path:
  "node_ok nd \<Longrightarrow> node_ok (nd\<lparr>n_paths := AList.update a p (n_paths nd)\<rparr>)"
  by (auto simp: node_ok_def update_keys AList.distinct_update)

lemma node_ok_seeders:
  "node_ok nd \<Longrightarrow> distinct s \<Longrightarrow> node_ok (nd\<lparr>n_origin_seeders := AList.update f s (n_origin_seeders nd)\<rparr>)"
  by (auto simp: node_ok_def)

section \<open>Every operation keeps it\<close>

lemma node_new_ok: "node_ok (node_new env clock now la sock name role mp root flt sink)"
  by (simp add: node_ok_def node_new_def registry_new_ok)

lemma record_availability_ok [simp]: "node_ok (record_availability now peer a nd) = node_ok nd"
  by (simp add: record_availability_def)

lemma record_missing_ok [simp]: "node_ok (record_missing now peer f nd) = node_ok nd"
  by (simp add: record_missing_def split: option.split)

lemma record_pong_ok: "node_ok nd \<Longrightarrow> node_ok (record_pong now src nd)"
  by (simp add: record_pong_def node_ok_path)

lemma register_peer_ok: "node_ok nd \<Longrightarrow> node_ok (register_peer now addr name nd)"
  using stat_entry_ok [of nd addr now name]
  by (auto simp: register_peer_def node_ok_def update_keys AList.distinct_update)

lemma update_known: "map_of xs k = Some v \<Longrightarrow> map fst (AList.update k w xs) = map fst xs"
  by (induction xs) auto

lemma update_known_keys: "map_of xs k = Some v \<Longrightarrow> fst ` set (AList.update k w xs) = fst ` set xs"
  using update_known [of xs k v w] by (metis list.set_map)

lemma touch_peer_ok: "node_ok nd \<Longrightarrow> node_ok (touch_peer now addr nd)"
  unfolding touch_peer_def node_ok_def
  by (auto simp: update_known update_known_keys split: option.split dest: table_ok_lookup
      intro!: table_ok_update)

lemma prune_peers_ok: "node_ok nd \<Longrightarrow> node_ok (prune_peers ttl now nd)"
  by (auto simp: prune_peers_def node_ok_def Let_def deletes_keys fold_delete_filter distinct_map_filter)

lemma drop_peer_ok: "node_ok nd \<Longrightarrow> node_ok (drop_peer addr nd)"
  by (auto simp: drop_peer_def node_ok_def delete_keys AList.distinct_delete)

lemma record_pull_ok: "node_ok nd \<Longrightarrow> node_ok (record_pull now peer r l bs nd)"
  by (simp add: record_pull_def Let_def node_ok_stat pull_stat_ok stat_entry_ok)

lemma record_serve_ok: "node_ok nd \<Longrightarrow> node_ok (record_serve now peer r bs nd)"
  by (simp add: record_serve_def Let_def node_ok_stat serve_stat_ok stat_entry_ok)

lemma record_event_ok: "node_ok nd \<Longrightarrow> node_ok (record_event now e nd)"
  by (cases e) (simp_all add: record_serve_ok)

lemma viable_seeders_distinct: "node_ok nd \<Longrightarrow> distinct (viable_seeders nd f now)"
  by (auto simp: viable_seeders_def lease_holders_def node_ok_def split: option.split dest: table_ok_lookup)

lemma origin_seed_ok: "node_ok nd \<Longrightarrow> node_ok (snd (origin_seed_allowed env fs now f peer nd))"
  using viable_seeders_distinct [of nd f now]
  by (simp add: origin_seed_allowed_def Let_def node_ok_seeders)

lemma prune_origin_ok: "node_ok nd \<Longrightarrow> node_ok (prune_origin_seeders nd)"
proof -
  have "table_ok (\<lambda>_. distinct) (filter (\<lambda>(_, s). s \<noteq> []) (map (\<lambda>(f, s). (f, filter P s)) xs))"
    if "table_ok (\<lambda>_. distinct) xs" for P :: "socket_addr \<Rightarrow> bool" and xs :: "(string \<times> socket_addr list) list"
  proof -
    have "map fst (map (\<lambda>(f, s). (f, filter P s)) xs) = map fst xs" by (simp add: split_beta comp_def)
    then have "distinct (map fst (filter (\<lambda>(_, s). s \<noteq> []) (map (\<lambda>(f, s). (f, filter P s)) xs)))"
      using that by (metis distinct_map_filter table_ok_def)
    with that show ?thesis by (auto simp: table_ok_def)
  qed
  then show "node_ok nd \<Longrightarrow> node_ok (prune_origin_seeders nd)"
    by (simp add: node_ok_def prune_origin_seeders_def)
qed

lemma announce_ok [simp]: "node_ok (announce_availability fs now nd) = node_ok nd"
proof -
  have "node_ok (fold (\<lambda>peer. node_send bs peer now) ps nd) = node_ok nd" for bs ps
    by (induction ps arbitrary: nd) simp_all
  then show ?thesis by (simp add: announce_availability_def Let_def)
qed

section \<open>What an inventory says, and for how long\<close>

lemma map_of_clear_missing:
  "map_of (clear_missing peer a is ms) (q, k) =
     (if q = peer \<and> (\<exists>i \<in> set is. mask a AND push_bit i 1 \<noteq> 0 \<and> k = saturating_sub (newest a) (of_nat i))
      then None else map_of ms (q, k))"
  by (induction "is" arbitrary: ms) (auto simp: AList.delete_conv')

lemma avail_contains_True:
  assumes "avail_contains a k = Some True"
  shows "\<exists>i \<in> set [0..<AVAILABILITY_MASK_BITS]. mask a AND push_bit i 1 \<noteq> 0
    \<and> k = saturating_sub (newest a) (of_nat i)"
proof -
  let ?i = "unat (newest a - k)"
  from assms have k: "k \<le> newest a" and i: "?i < AVAILABILITY_MASK_BITS" "mask a AND push_bit ?i 1 \<noteq> 0"
    by (auto simp: avail_contains_def Let_def split: if_splits)
  have "of_nat ?i = newest a - k" by simp
  moreover have "newest a - k \<le> newest a" using k by (simp add: word_sub_le)
  ultimately have "k = saturating_sub (newest a) (of_nat ?i)" by (simp add: saturating_sub_def)
  with i show ?thesis by (intro bexI [of _ ?i]) simp_all
qed

text \<open>C29: What a node believes about a peer's segments. A positive bit counts for 15 seconds and
  overrides an earlier refusal of that segment; an exact refusal counts as absence for just
  under 15 seconds, whatever the bitmap said before; an inventory older than 15 seconds says
  nothing more; and neither touches what is known of other peers.\<close>

theorem availability_expires:
  assumes "segment_number f = Some k"
  shows "(avail_contains a k = Some True \<and> now \<le> t + from_secs 15 \<longrightarrow>
            peer_availability (record_availability t p a nd) p f now = Some True)
    \<and> (now < t + from_secs 15 \<longrightarrow> peer_availability (record_missing t p f nd) p f now = Some False)
    \<and> (t + from_secs 15 < now \<longrightarrow>
            peer_availability (record_availability t p a nd) p f now \<noteq> Some True
            \<and> (map_of (n_missing nd) (p, k) = None \<longrightarrow>
                 peer_availability (record_availability t p a nd) p f now = None))
    \<and> (q \<noteq> p \<longrightarrow> peer_availability (record_availability t p a nd) q g now = peer_availability nd q g now
            \<and> peer_availability (record_missing t p f nd) q g now = peer_availability nd q g now)"
  using assms avail_contains_True [of a k]
  by (auto simp: peer_availability_def record_availability_def record_missing_def map_of_clear_missing
      AList.update_conv' duration_since_def split: option.split)

definition demo_node :: node where
  "demo_node = node_new (\<lambda>_. None) None 0 None (snd demo_net) ''n'' ''master'' ''/s/live.m3u8'' ''/s''
     (fst demo_net) None"

lemma segment_number_7: "segment_number ''seg_7.ts'' = Some 7"
  by (simp add: segment_number_def strip_prefix_def strip_suffix_def starts_with_def ends_with_def
      suffix_def parse_u64_def parse_uint_def digit_of_def)

theorem availability_expires_witness:
  "peer_availability (record_missing 0 (V4 1 2) ''seg_7.ts'' demo_node) (V4 1 2) ''seg_7.ts'' (from_secs 14)
     = Some False"
  using availability_expires [OF segment_number_7, of undefined "from_secs 14" 0 "V4 1 2" demo_node]
  by (simp add: from_secs_def)

section \<open>Seed leases are bounded and never starve a requester\<close>

definition same_reach :: "socket_addr \<Rightarrow> socket_addr \<Rightarrow> bool" where
  "same_reach peer c \<longleftrightarrow> remote_public c = remote_public peer"

lemma lease_holders_update:
  "lease_holders (nd\<lparr>n_origin_seeders := AList.update f s xs\<rparr>) f = s"
  "lease_holders (nd\<lparr>n_origin_seeders := AList.update f s xs, n_origin_assignments := w\<rparr>) f = s"
  "lease_holders (nd\<lparr>n_origin_seeders := AList.update f s xs, n_origin_denials := w\<rparr>) f = s"
  by (simp_all add: lease_holders_def AList.update_conv')

lemma lease_other:
  "g \<noteq> f \<Longrightarrow> lease_holders (nd\<lparr>n_origin_seeders := AList.update f s xs\<rparr>) g
     = lease_holders (nd\<lparr>n_origin_seeders := xs\<rparr>) g"
  "g \<noteq> f \<Longrightarrow> lease_holders (nd\<lparr>n_origin_seeders := AList.update f s xs, n_origin_assignments := w\<rparr>) g
     = lease_holders (nd\<lparr>n_origin_seeders := xs\<rparr>) g"
  "g \<noteq> f \<Longrightarrow> lease_holders (nd\<lparr>n_origin_seeders := AList.update f s xs, n_origin_denials := w\<rparr>) g
     = lease_holders (nd\<lparr>n_origin_seeders := xs\<rparr>) g"
  by (simp_all add: lease_holders_def AList.update_conv')

lemma availability_frame [simp]:
  "path_fresh (nd\<lparr>n_origin_seeders := xs\<rparr>) c now = path_fresh nd c now"
  "peer_availability (nd\<lparr>n_origin_seeders := xs\<rparr>) c f now = peer_availability nd c f now"
  by (simp_all add: path_fresh_def peer_availability_def cong: if_cong option.case_cong)

lemma peer_source_frame [simp]:
  "peer_source_exists (nd\<lparr>n_origin_seeders := xs\<rparr>) f peer now = peer_source_exists nd f peer now"
  by (simp add: peer_source_exists_def)

lemma filter_filter_length: "length (filter P (filter Q xs)) \<le> length (filter P xs)"
  by (induction xs) auto

lemma viable_length: "length (filter P (viable_seeders nd f now)) \<le> length (filter P (lease_holders nd f))"
  unfolding viable_seeders_def by (rule filter_filter_length)

text \<open>C24: The master's seed budget. A request for a stored segment is denied only when the
  requester holds no live lease, the budget of live leases reachable to it is used up, and
  another known peer it can reach, on a fresh path, advertises the segment; the only source
  is never denied. Whoever is admitted holds a lease afterwards. While such a source exists
  an admission never takes the leases of the requester's reach past the budget, or past
  what they were if they already exceeded it; without one the requester is admitted past the
  budget, for recovery. Either way the live leases stay, at most the requester's is added,
  and the leases of other segments do not change.\<close>

theorem origin_seed_budget:
  assumes "origin_seed_allowed env fs now f peer nd = (ok, nd')"
    and "n_role nd = ''master''" and "has_segment fs f (n_registry nd)"
  shows "(\<not> ok \<longrightarrow> peer \<notin> set (viable_seeders nd f now)
            \<and> origin_limit env \<le> length (filter (same_reach peer) (viable_seeders nd f now))
            \<and> (\<exists>c. known_peer nd c \<and> c \<noteq> peer \<and> same_reach peer c \<and> path_fresh nd c now
                 \<and> peer_availability nd c f now = Some True))
    \<and> (ok \<longrightarrow> peer \<in> set (lease_holders nd' f))
    \<and> (peer_source_exists nd f peer now \<longrightarrow>
         length (filter (same_reach peer) (lease_holders nd' f))
           \<le> max (origin_limit env) (length (filter (same_reach peer) (lease_holders nd f))))
    \<and> set (viable_seeders nd f now) \<subseteq> set (lease_holders nd' f)
    \<and> set (lease_holders nd' f) \<subseteq> insert peer (set (viable_seeders nd f now))
    \<and> (g \<noteq> f \<longrightarrow> lease_holders nd' g = lease_holders nd g)"
proof -
  have src: "\<exists>c. known_peer nd c \<and> c \<noteq> peer \<and> same_reach peer c \<and> path_fresh nd c now
      \<and> peer_availability nd c f now = Some True" if "peer_source_exists nd f peer now"
    using that by (auto simp: peer_source_exists_def list_ex_iff known_peer_def same_reach_def map_of_eq_None_iff)
  have reach: "(\<lambda>c. remote_public c = remote_public peer) = same_reach peer"
    by (simp add: same_reach_def fun_eq_iff)
  have self: "same_reach peer peer" by (simp add: same_reach_def)
  show ?thesis
    using assms src self viable_length [of "same_reach peer" nd f now]
    by (auto simp: origin_seed_allowed_def Let_def seed_lease_allowed_def reach lease_holders_update
        lease_other split: if_splits)
qed

theorem origin_seed_budget_witness:
  "V4 0x08080808 4000 \<in> set (lease_holders (snd (origin_seed_allowed (\<lambda>_. None)
      (demo_disk\<lparr>files := [(''/s/seg_7.ts'', [1])]\<rparr>) 0 ''seg_7.ts'' (V4 0x08080808 4000) demo_node)) ''seg_7.ts'')"
proof -
  let ?fs = "demo_disk\<lparr>files := [(''/s/seg_7.ts'', [1])]\<rparr>"
  let ?r = "origin_seed_allowed (\<lambda>_. None) ?fs 0 ''seg_7.ts'' (V4 0x08080808 4000) demo_node"
  have m: "n_role demo_node = ''master''" by (simp add: demo_node_def node_new_def)
  have h: "has_segment ?fs ''seg_7.ts'' (n_registry demo_node)"
    by (simp add: has_segment_def fs_is_file_def fs_read_def demo_node_def node_new_def registry_new_def
        path_join_def starts_with_def ends_with_def suffix_def demo_disk_def)
  have ok: "fst ?r"
    using m h by (simp add: origin_seed_allowed_def Let_def seed_lease_allowed_def peer_source_exists_def)
      (simp add: demo_node_def node_new_def)
  show ?thesis
    using origin_seed_budget [OF prod.collapse [symmetric] m h, of "\<lambda>_. None" 0 "V4 0x08080808 4000"] ok by blast
qed

end
