(* ===== verification/Stats.thy ===== *)
theory Stats
  imports Node "HOL-Library.Product_Lexorder"
begin

text \<open>
  The statistics a node publishes, \<open>src/src/node.rs\<close>: the text of \<open>/peers\<close>, the JSON document
  of \<open>/stats\<close> and the Prometheus exposition of \<open>/metrics\<close>, and the periodic ranking line. The
  contents of \<open>/proc/self/statm\<close> are an argument (\<open>None\<close>: not readable), as is the file
  system. A document that the code writes as one format string is written here field by
  field.
\<close>

section \<open>Strings in JSON\<close>

definition json_escape_char :: "char \<Rightarrow> string" where
  "json_escape_char c =
     (if c = CHR 0x22 then [CHR 0x5C, CHR 0x22]
      else if c = CHR 0x5C then [CHR 0x5C, CHR 0x5C]
      else if c = CHR 0x0A then [CHR 0x5C, CHR ''n'']
      else if c = CHR 0x0D then [CHR 0x5C, CHR ''r'']
      else if c = CHR 0x09 then [CHR 0x5C, CHR ''t'']
      else if of_char c < (0x20 :: nat) then [CHR 0x5C, CHR ''u''] @ pad_zeros 4 (show_hex (of_char c))
      else [c])"

definition json_escape :: "string \<Rightarrow> string" where
  "json_escape s = concat (map json_escape_char s)"

definition quoted :: "string \<Rightarrow> string" where
  "quoted s = [CHR 0x22] @ s @ [CHR 0x22]"

definition json_object :: "(string \<times> string) list \<Rightarrow> string" where
  "json_object kvs =
     ''{'' @ join_with '','' (map (\<lambda>(k, v). quoted k @ '':'' @ v) kvs) @ ''}''"

section \<open>What is counted\<close>

definition rss_bytes :: "string option \<Rightarrow> u64" where
  "rss_bytes statm =
     (case statm of
        None \<Rightarrow> 0
      | Some s \<Rightarrow>
          (case drop 1 (split_whitespace s) of
             [] \<Rightarrow> 0
           | p # _ \<Rightarrow> (case parse_u64 p of Some pages \<Rightarrow> pages | None \<Rightarrow> 0) * 4096))"

definition is_segment_name :: "string \<Rightarrow> bool" where
  "is_segment_name n \<longleftrightarrow> starts_with n ''seg_'' \<and> ends_with n ''.ts''"

definition store_bytes :: "file_system \<Rightarrow> node \<Rightarrow> u64" where
  "store_bytes fs nd =
     (let root = segment_root (n_registry nd) in
      case fs_read_dir fs root of
        None \<Rightarrow> 0
      | Some entries \<Rightarrow>
          sum_list (map (\<lambda>n. case fs_read fs (path_join root n) of
              Some data \<Rightarrow> of_nat (length data) | None \<Rightarrow> 0)
            (filter is_segment_name entries)))"

definition manifest_edge :: "file_system \<Rightarrow> node \<Rightarrow> u64" where
  "manifest_edge fs nd =
     (case fs_read fs (n_manifest_path nd) of
        None \<Rightarrow> 0
      | Some d \<Rightarrow>
          (case rev (parse_manifest d) of
             [] \<Rightarrow> 0
           | name # _ \<Rightarrow> (case segment_number name of Some n \<Rightarrow> n | None \<Rightarrow> 0)))"

definition store_segments :: "file_system \<Rightarrow> node \<Rightarrow> u64 \<times> u64" where
  "store_segments fs nd =
     (case fs_read_dir fs (segment_root (n_registry nd)) of
        None \<Rightarrow> (0, 0)
      | Some entries \<Rightarrow>
          foldl (\<lambda>(count, new) num. (count + 1, max new num)) (0, 0)
            (List.map_filter segment_number entries))"

text \<open>Highest score first, then by address.\<close>

definition ranked_stats :: "node \<Rightarrow> (socket_addr \<times> peer_stat) list" where
  "ranked_stats nd = sort_key (\<lambda>(addr, s). (- int (unat (ps_score s)), addr)) (n_peer_stats nd)"

definition uptime_secs :: "node \<Rightarrow> instant \<Rightarrow> nat" where
  "uptime_secs nd now = duration_since now (n_started nd) div from_secs 1"

section \<open>The three documents\<close>

definition inventory_text :: "node \<Rightarrow> instant \<Rightarrow> socket_addr \<Rightarrow> string" where
  "inventory_text nd now addr =
     (case map_of (n_availability nd) addr of
        Some (a, observed) \<Rightarrow>
          if duration_since now observed \<le> from_secs 15
          then '' newest='' @ show_word (newest a) @ '' mask='' @ pad_zeros 4 (show_hex (unat (mask a)))
          else []
      | None \<Rightarrow> [])"

definition path_text :: "node \<Rightarrow> instant \<Rightarrow> socket_addr \<Rightarrow> string" where
  "path_text nd now addr =
     (if is_lan_path nd addr then ''lan'' else if path_fresh nd addr now then ''fresh'' else ''stale'')"

definition peer_line :: "node \<Rightarrow> instant \<Rightarrow> socket_addr \<times> peer_stat \<Rightarrow> string" where
  "peer_line nd now = (\<lambda>(addr, s).
     ''peer '' @ ps_name s @ '' '' @ show_addr addr
     @ '' score='' @ show_word (ps_score s) @ '' pulls='' @ show_word (ps_pulls s)
     @ '' downloaded_bytes='' @ show_word (ps_downloaded_bytes s)
     @ '' nf_pulls='' @ show_word (ps_nf_pulls s) @ '' timeouts='' @ show_word (ps_timeouts s)
     @ '' other_fails='' @ show_word (ps_other_fails s) @ '' served='' @ show_word (ps_served s)
     @ '' uploaded_bytes='' @ show_word (ps_uploaded_bytes s)
     @ '' nf_served='' @ show_word (ps_nf_served s)
     @ '' sender_fails='' @ show_word (ps_sender_fails s)
     @ '' latency='' @ show_word (ps_latency_ms s) @ ''ms path='' @ path_text nd now addr
     @ inventory_text nd now addr)"

definition stats_lines :: "node \<Rightarrow> instant \<Rightarrow> string list" where
  "stats_lines nd now =
     (''node '' @ n_name nd @ '' uptime='' @ show_nat (uptime_secs nd now)
        @ '' downloaded='' @ show_word (n_downloaded_total nd))
     # map (peer_line nd now) (ranked_stats nd)
     @ (if fault_enabled (n_fault nd)
        then [''fault dropped='' @ show_nat (dropped (n_fault nd))
                @ '' emitted='' @ show_nat (emitted (n_fault nd))]
        else [])"

definition peer_json :: "socket_addr \<times> peer_stat \<Rightarrow> string" where
  "peer_json = (\<lambda>(addr, s).
     json_object
       [(''name'', quoted (json_escape (ps_name s))),
        (''addr'', quoted (show_addr addr)),
        (''score'', show_word (ps_score s)),
        (''pulls'', show_word (ps_pulls s)),
        (''downloaded_bytes'', show_word (ps_downloaded_bytes s)),
        (''nf_pulls'', show_word (ps_nf_pulls s)),
        (''timeouts'', show_word (ps_timeouts s)),
        (''served'', show_word (ps_served s)),
        (''uploaded_bytes'', show_word (ps_uploaded_bytes s)),
        (''nf_served'', show_word (ps_nf_served s)),
        (''latency_ms'', show_word (ps_latency_ms s))])"

definition stats_json :: "file_system \<Rightarrow> string option \<Rightarrow> node \<Rightarrow> instant \<Rightarrow> string" where
  "stats_json fs statm nd now =
     (case store_segments fs nd of (store_count, local_newest) \<Rightarrow>
        let edge = manifest_edge fs nd in
        json_object
          [(''version'', quoted ''0.1.0''),
           (''node'', quoted (json_escape (n_name nd))),
           (''role'', quoted (n_role nd)),
           (''uptime_secs'', show_nat (uptime_secs nd now)),
           (''peers_in_swarm'', show_nat (length (n_peers nd))),
           (''public_endpoint'', case n_my_public nd of Some a \<Rightarrow> quoted (show_addr a) | None \<Rightarrow> ''null''),
           (''peers'', ''['' @ join_with '','' (map peer_json (ranked_stats nd)) @ '']''),
           (''downloaded'', json_object [(''segments'', show_word (n_downloaded_total nd)),
              (''bytes'', show_word (n_downloaded_bytes nd))]),
           (''uploaded'', json_object [(''segments'', show_word (n_served_total nd)),
              (''bytes'', show_word (n_served_bytes nd))]),
           (''store_bytes'', show_word (store_bytes fs nd)),
           (''store_segments'', show_word store_count),
           (''edge_segment'', show_word edge),
           (''local_newest'', show_word local_newest),
           (''catch_up'', show_word (saturating_sub edge local_newest)),
           (''active_transfers'', show_nat (active_count (n_registry nd))),
           (''queue_depth'', show_word (n_queue_depth nd)),
           (''inflight'', show_word (n_inflight nd)),
           (''fault'', if fault_enabled (n_fault nd)
              then json_object [(''dropped'', show_nat (dropped (n_fault nd))),
                (''emitted'', show_nat (emitted (n_fault nd)))]
              else ''null''),
           (''rss_bytes'', show_word (rss_bytes statm))])"

definition METRIC_DEFS :: "(string \<times> string \<times> string) list" where
  "METRIC_DEFS =
     [(''qstream_uptime_seconds'', ''Seconds since node start.'', ''gauge''),
      (''qstream_peers_in_swarm'', ''Number of peers currently known to this node.'', ''gauge''),
      (''qstream_downloaded_segments_total'', ''Segments fully downloaded by this node.'', ''counter''),
      (''qstream_downloaded_bytes_total'', ''Bytes fully downloaded by this node.'', ''counter''),
      (''qstream_uploaded_segments_total'', ''Segments served to other nodes.'', ''counter''),
      (''qstream_uploaded_bytes_total'', ''Bytes served to other nodes.'', ''counter''),
      (''qstream_store_segments'', ''Segments currently in the local store.'', ''gauge''),
      (''qstream_store_bytes'', ''Bytes currently in the local store.'', ''gauge''),
      (''qstream_edge_segment'', ''Newest segment number in the synced manifest.'', ''gauge''),
      (''qstream_local_newest'', ''Newest segment number in the local store.'', ''gauge''),
      (''qstream_catch_up'', ''Segments behind the live edge (0 = caught up).'', ''gauge''),
      (''qstream_active_transfers'', ''In-flight senders + receivers.'', ''gauge''),
      (''qstream_queue_depth'', ''Pending segment pulls in the queue.'', ''gauge''),
      (''qstream_inflight'', ''Active pull jobs.'', ''gauge''),
      (''qstream_rss_bytes'', ''Resident memory of this process.'', ''gauge''),
      (''qstream_fault_dropped_total'', ''Datagrams dropped by fault injection.'', ''counter''),
      (''qstream_fault_emitted_total'', ''Datagrams emitted by fault injection.'', ''counter''),
      (''qstream_origin_seed_assignments_total'', ''Origin seed leases assigned to peers.'', ''counter''),
      (''qstream_origin_seed_denials_total'',
         ''Origin seed requests denied after the per-segment budget.'', ''counter''),
      (''qstream_peer_score'', ''Quality score 0-100 for a known peer.'', ''gauge''),
      (''qstream_peer_pulls_total'', ''Successful pulls from a peer.'', ''counter''),
      (''qstream_peer_downloaded_bytes_total'', ''Payload bytes downloaded from a peer.'', ''counter''),
      (''qstream_peer_nf_pulls_total'', ''NOT_FOUND responses from a peer.'', ''counter''),
      (''qstream_peer_timeouts_total'', ''No-response failures from a peer.'', ''counter''),
      (''qstream_peer_served_total'', ''Segments served to a peer.'', ''counter''),
      (''qstream_peer_uploaded_bytes_total'', ''Payload bytes uploaded to a peer.'', ''counter''),
      (''qstream_peer_latency_ms'', ''EWMA first-packet latency to a peer.'', ''gauge'')]"

definition metric_header :: "string \<times> string \<times> string \<Rightarrow> string" where
  "metric_header = (\<lambda>(name, help, ty).
     ''# HELP '' @ name @ '' '' @ help @ [CHR 0x0A] @ ''# TYPE '' @ name @ '' '' @ ty @ [CHR 0x0A])"

definition metric_sample :: "string \<times> string \<times> nat \<Rightarrow> string" where
  "metric_sample = (\<lambda>(name, labels, value). name @ labels @ '' '' @ show_nat value @ [CHR 0x0A])"

definition node_samples :: "file_system \<Rightarrow> string option \<Rightarrow> node \<Rightarrow> instant \<Rightarrow> (string \<times> nat) list" where
  "node_samples fs statm nd now =
     (case store_segments fs nd of (store_count, local_newest) \<Rightarrow>
        let edge = manifest_edge fs nd in
        [(''qstream_uptime_seconds'', uptime_secs nd now),
         (''qstream_peers_in_swarm'', length (n_peers nd)),
         (''qstream_downloaded_segments_total'', unat (n_downloaded_total nd)),
         (''qstream_downloaded_bytes_total'', unat (n_downloaded_bytes nd)),
         (''qstream_uploaded_segments_total'', unat (n_served_total nd)),
         (''qstream_uploaded_bytes_total'', unat (n_served_bytes nd)),
         (''qstream_store_segments'', unat store_count),
         (''qstream_store_bytes'', unat (store_bytes fs nd)),
         (''qstream_edge_segment'', unat edge),
         (''qstream_local_newest'', unat local_newest),
         (''qstream_catch_up'', unat (saturating_sub edge local_newest)),
         (''qstream_active_transfers'', active_count (n_registry nd)),
         (''qstream_queue_depth'', unat (n_queue_depth nd)),
         (''qstream_inflight'', unat (n_inflight nd)),
         (''qstream_origin_seed_assignments_total'', unat (n_origin_assignments nd)),
         (''qstream_origin_seed_denials_total'', unat (n_origin_denials nd)),
         (''qstream_rss_bytes'', unat (rss_bytes statm))]
        @ (if fault_enabled (n_fault nd)
           then [(''qstream_fault_dropped_total'', dropped (n_fault nd)),
                 (''qstream_fault_emitted_total'', emitted (n_fault nd))]
           else []))"

definition peer_samples :: "peer_stat \<Rightarrow> (string \<times> nat) list" where
  "peer_samples s =
     [(''qstream_peer_score'', unat (ps_score s)),
      (''qstream_peer_pulls_total'', unat (ps_pulls s)),
      (''qstream_peer_downloaded_bytes_total'', unat (ps_downloaded_bytes s)),
      (''qstream_peer_nf_pulls_total'', unat (ps_nf_pulls s)),
      (''qstream_peer_timeouts_total'', unat (ps_timeouts s)),
      (''qstream_peer_served_total'', unat (ps_served s)),
      (''qstream_peer_uploaded_bytes_total'', unat (ps_uploaded_bytes s)),
      (''qstream_peer_latency_ms'', unat (ps_latency_ms s))]"

definition node_labels :: "node \<Rightarrow> string" where
  "node_labels nd = ''{node='' @ quoted (json_escape (n_name nd)) @ ''}''"

definition peer_labels :: "node \<Rightarrow> peer_stat \<Rightarrow> string" where
  "peer_labels nd s =
     ''{node='' @ quoted (json_escape (n_name nd)) @ '',peer='' @ quoted (json_escape (ps_name s)) @ ''}''"

definition metrics_text :: "file_system \<Rightarrow> string option \<Rightarrow> node \<Rightarrow> instant \<Rightarrow> string" where
  "metrics_text fs statm nd now =
     concat (map metric_header METRIC_DEFS)
     @ concat (map (\<lambda>(name, v). metric_sample (name, node_labels nd, v)) (node_samples fs statm nd now))
     @ concat (map (\<lambda>(_, s). concat (map (\<lambda>(name, v). metric_sample (name, peer_labels nd s, v))
         (peer_samples s))) (ranked_stats nd))"

section \<open>Publishing\<close>

definition publish_snapshot :: "file_system \<Rightarrow> string option \<Rightarrow> instant \<Rightarrow> node \<Rightarrow> node" where
  "publish_snapshot fs statm now nd =
     (if now < n_next_snapshot nd then nd
      else
        let nd = nd\<lparr>n_next_snapshot := now + from_secs 5\<rparr> in
        case n_stats_sink nd of
          None \<Rightarrow> nd
        | Some _ \<Rightarrow>
            nd\<lparr>n_stats_sink := Some \<lparr>snap_lines = stats_lines nd now,
                 snap_json = stats_json fs statm nd now,
                 snap_metrics = metrics_text fs statm nd now\<rparr>\<rparr>)"

definition rank_entry :: "socket_addr \<times> peer_stat \<Rightarrow> string" where
  "rank_entry = (\<lambda>(_, s).
     ps_name s @ '' '' @ show_word (ps_score s) @ '' (pull '' @ show_word (ps_pulls s) @ ''/''
     @ show_word (ps_nf_pulls s) @ ''/'' @ show_word (ps_timeouts s) @ ''/'' @ show_word (ps_other_fails s)
     @ '' served '' @ show_word (ps_served s) @ ''/'' @ show_word (ps_nf_served s) @ ''/''
     @ show_word (ps_sender_fails s) @ '')'')"

text \<open>The line that is logged, if any, and the node.\<close>

definition log_ranking :: "instant \<Rightarrow> node \<Rightarrow> string option \<times> node" where
  "log_ranking now nd =
     (if now < n_next_rank_log nd then (None, nd)
      else
        let nd = nd\<lparr>n_next_rank_log := now + from_secs 60\<rparr> in
        if n_peer_stats nd = [] then (None, nd)
        else
          let ranked = sort_key (\<lambda>(_, s). - int (unat (ps_score s))) (n_peer_stats nd) in
          (Some (''peer ranking: '' @ join_with '', '' (map rank_entry (take 8 ranked))), nd))"

section \<open>Escaped strings read back\<close>

text \<open>
  A reader of JSON string literals (RFC 8259), from after the opening quote: the contents and
  what follows the closing quote, \<open>None\<close> where the literal is malformed. It reads \<open>\u\<close>
  escapes below 0x80 only; the writer makes no other.
\<close>

definition hex_value :: "char \<Rightarrow> nat option" where
  "hex_value c = (let n = of_char c in
     if 48 \<le> n \<and> n \<le> 57 then Some (n - 48) else if 97 \<le> n \<and> n \<le> 102 then Some (n - 87) else None)"

definition simple_escape :: "char \<Rightarrow> char option" where
  "simple_escape e =
     map_of [(CHR 0x22, CHR 0x22), (CHR 0x5C, CHR 0x5C), (CHR ''/'', CHR ''/''), (CHR ''b'', CHR 0x08),
       (CHR ''f'', CHR 0x0C), (CHR ''n'', CHR 0x0A), (CHR ''r'', CHR 0x0D), (CHR ''t'', CHR 0x09)] e"

definition unicode_escape :: "string \<Rightarrow> char option" where
  "unicode_escape hs =
     (case map hex_value hs of
        [Some a, Some b, Some c, Some d] \<Rightarrow>
          let v = ((a * 16 + b) * 16 + c) * 16 + d in if v < 0x80 then Some (char_of v) else None
      | _ \<Rightarrow> None)"

definition prepend :: "char option \<Rightarrow> (string \<times> string) option \<Rightarrow> (string \<times> string) option" where
  "prepend c r = Option.bind c (\<lambda>c. map_option (\<lambda>(s, rest). (c # s, rest)) r)"

fun json_read :: "string \<Rightarrow> (string \<times> string) option" where
  "json_read [] = None"
| "json_read (c # cs) =
     (if c = CHR 0x22 then Some ([], cs)
      else if c = CHR 0x5C then
        (case cs of
           [] \<Rightarrow> None
         | e # es \<Rightarrow>
             if e = CHR ''u'' then prepend (unicode_escape (take 4 es)) (json_read (drop 4 es))
             else prepend (simple_escape e) (json_read es))
      else if of_char c < (0x20 :: nat) then None
      else prepend (Some c) (json_read cs))"

lemma hex_value_digit: "d < 16 \<Longrightarrow> hex_value (hex_digit d) = Some d"
  by (simp add: hex_value_def hex_digit_def)

lemma hex_digit_0: "hex_digit 0 = CHR ''0''"
proof -
  have "(of_char (CHR ''0'') :: nat) = 48" by simp
  then have "char_of (48 :: nat) = CHR ''0''" by (metis char_of_char)
  then show ?thesis by (simp add: hex_digit_def)
qed

lemma control_escape:
  assumes "n < 0x20"
  shows "pad_zeros 4 (show_hex n) = [CHR ''0'', CHR ''0'', hex_digit (n div 16), hex_digit (n mod 16)]"
proof (cases "n < 16")
  case True
  then show ?thesis
    by (simp add: pad_zeros_def show_hex.simps [of n] numeral_3_eq_3 hex_digit_0)
next
  case False
  with assms have "n div 16 < 16" by linarith
  then have "show_hex n = [hex_digit (n div 16), hex_digit (n mod 16)]"
    using False by (simp add: show_hex.simps [of n] show_hex.simps [of "n div 16"])
  then show ?thesis by (simp add: pad_zeros_def numeral_2_eq_2)
qed

lemma unicode_escape_control:
  assumes "of_char c < (0x20 :: nat)"
  shows "unicode_escape (pad_zeros 4 (show_hex (of_char c))) = Some c"
proof -
  let ?n = "of_char c :: nat"
  have "hex_value CHR ''0'' = Some 0" by (simp add: hex_value_def)
  moreover have "hex_value (hex_digit (?n div 16)) = Some (?n div 16)"
    "hex_value (hex_digit (?n mod 16)) = Some (?n mod 16)"
    using assms by (auto intro!: hex_value_digit)
  moreover have "?n div 16 * 16 + ?n mod 16 = ?n" by simp
  ultimately show ?thesis
    using assms by (simp only: control_escape unicode_escape_def list.map list.case option.case Let_def) simp
qed

lemma json_read_char: "json_read (json_escape_char c @ rest) = prepend (Some c) (json_read rest)"
proof (cases "of_char c < (0x20 :: nat)")
  case True
  have "length (pad_zeros 4 (show_hex (of_char c))) = 4" by (simp add: control_escape [OF True])
  with unicode_escape_control [OF True] True show ?thesis
    by (auto simp: json_escape_char_def simple_escape_def)
next
  case False
  then show ?thesis by (auto simp: json_escape_char_def simple_escape_def)
qed

text \<open>C28: A name from the network cannot break out of the JSON it is put in: read back from
  between its quotes, the escaped string is the original and the document goes on right
  after the closing quote, whatever the string holds and whatever follows.\<close>

theorem json_escape_reads_back:
  "json_read (json_escape s @ [CHR 0x22] @ rest) = Some (s, rest)"
  by (induction s) (simp_all add: json_escape_def json_read_char prepend_def)

section \<open>The metrics\<close>

text \<open>Every sample belongs to a series with a HELP and a TYPE line.\<close>

lemma samples_declared:
  "fst ` set (node_samples fs p nd now) \<union> fst ` set (peer_samples s) \<subseteq> fst ` set METRIC_DEFS"
  by (auto simp: node_samples_def peer_samples_def METRIC_DEFS_def Let_def split: prod.splits if_splits)

end
