(* ===== verification/Ticking.thy ===== *)
theory Ticking
  imports Stats
begin

text \<open>
  The periodic work of a node, \<open>src/src/node.rs\<close>: keep-alive PINGs and the LAN beacon, the
  removal of segments that left the playlist, and \<open>tick\<close>, which runs a node's timers in the
  order the code runs them. What the operating system answers is a record: the age of a
  file (\<open>None\<close> where its metadata, its time or the difference to now is not available),
  whether it may be removed, and the contents of \<open>/proc/self/statm\<close>.
\<close>

record host =
  file_age :: "string \<Rightarrow> duration option"
  remove_ok :: "string \<Rightarrow> bool"
  statm :: "string option"

definition demo_host :: host where
  "demo_host = \<lparr>file_age = (\<lambda>_. None), remove_ok = (\<lambda>_. True), statm = None\<rparr>"

section \<open>Keep-alives\<close>

definition node_ping :: "node \<Rightarrow> message" where
  "node_ping nd = Ping (n_beacon_nonce nd) (n_name nd)"

definition ping_peer :: "message \<Rightarrow> instant \<Rightarrow> socket_addr \<Rightarrow> node \<Rightarrow> node" where
  "ping_peer ping now addr nd =
     (let nd = node_send (encode ping) addr now nd in
      nd\<lparr>n_paths := AList.update addr (path_entry now addr nd) (n_paths nd)\<rparr>)"

definition ping_peers :: "instant \<Rightarrow> node \<Rightarrow> node" where
  "ping_peers now nd =
     (if now \<ge> n_next_ping nd
      then fold (ping_peer (node_ping nd) now) (map fst (n_peers nd))
             (nd\<lparr>n_next_ping := now + PING_INTERVAL\<rparr>)
      else nd)"

definition beacon :: "instant \<Rightarrow> node \<Rightarrow> node" where
  "beacon now nd =
     (if n_role nd = ''peer'' \<and> now \<ge> n_next_beacon nd
      then node_send (encode (node_ping nd)) (V4 0xFFFFFFFF (addr_port (n_local_addr nd))) now
             (nd\<lparr>n_next_beacon := now + BEACON_INTERVAL\<rparr>)
      else nd)"

definition ping_cycle :: "instant \<Rightarrow> node \<Rightarrow> node" where
  "ping_cycle now nd = beacon now (ping_peers now nd)"

section \<open>Retention\<close>

definition fs_remove :: "host \<Rightarrow> string \<Rightarrow> file_system \<Rightarrow> bool \<times> file_system" where
  "fs_remove h p fs =
     (if fs_is_file fs p \<and> remove_ok h p then (True, fs\<lparr>files := AList.delete p (files fs)\<rparr>)
      else (False, fs))"

definition prunable :: "host \<Rightarrow> string \<Rightarrow> string list \<Rightarrow> duration \<Rightarrow> string \<Rightarrow> bool" where
  "prunable h root in_playlist retention name \<longleftrightarrow>
     (is_segment_name name \<or> ends_with name ''.tmp'') \<and> name \<notin> set in_playlist
     \<and> (case file_age h (path_join root name) of Some age \<Rightarrow> age \<ge> retention | None \<Rightarrow> False)"

fun prune_entries ::
    "host \<Rightarrow> string \<Rightarrow> string list \<Rightarrow> duration \<Rightarrow> string list \<Rightarrow> file_system \<Rightarrow> bool \<times> file_system" where
  "prune_entries h root in_playlist retention [] fs = (False, fs)"
| "prune_entries h root in_playlist retention (name # names) fs =
     (if prunable h root in_playlist retention name then
        (case fs_remove h (path_join root name) fs of
           (ok, fs) \<Rightarrow>
             (case prune_entries h root in_playlist retention names fs of
                (removed, fs) \<Rightarrow> (ok \<or> removed, fs)))
      else prune_entries h root in_playlist retention names fs)"

definition prune_segments ::
    "host \<Rightarrow> instant \<Rightarrow> node \<Rightarrow> file_system \<Rightarrow> bool \<times> node \<times> file_system" where
  "prune_segments h now nd fs =
     (if n_retention_secs nd = 0 \<or> now < n_next_prune nd then (False, nd, fs)
      else
        let nd = nd\<lparr>n_next_prune := now + from_secs 30\<rparr>;
            manifest = (case fs_read fs (n_manifest_path nd) of Some d \<Rightarrow> d | None \<Rightarrow> []);
            root = segment_root (n_registry nd) in
        case fs_read_dir fs root of
          None \<Rightarrow> (False, nd, fs)
        | Some entries \<Rightarrow>
            (case prune_entries h root (parse_manifest manifest)
                    (from_secs (unat (n_retention_secs nd))) entries fs of
               (removed, fs) \<Rightarrow> (removed, nd, fs)))"

section \<open>The tick\<close>

definition with_registry :: "registry \<times> net \<Rightarrow> node \<Rightarrow> node" where
  "with_registry = (\<lambda>(reg, n) nd. with_net n (nd\<lparr>n_registry := reg\<rparr>))"

definition record_events :: "instant \<Rightarrow> node \<Rightarrow> node" where
  "record_events now nd =
     (case drain_events (n_registry nd) of
        (evs, reg) \<Rightarrow> fold (record_event now) evs (nd\<lparr>n_registry := reg\<rparr>))"

definition prune_and_announce :: "host \<Rightarrow> instant \<Rightarrow> node \<Rightarrow> file_system \<Rightarrow> node \<times> file_system" where
  "prune_and_announce h now nd fs =
     (case prune_segments h now nd fs of
        (removed, nd, fs) \<Rightarrow> (if removed then announce_availability fs now nd else nd, fs))"

text \<open>\<open>None\<close> is a panic of the registry's tick.\<close>

definition node_tick ::
    "settings \<Rightarrow> host \<Rightarrow> instant \<Rightarrow> node \<times> file_system \<Rightarrow> (node \<times> file_system) option" where
  "node_tick st h now = (\<lambda>(nd, fs).
     (case registry_tick st now (n_registry nd) (node_net nd) of
        None \<Rightarrow> None
      | Some (reg, n) \<Rightarrow>
          let nd = with_registry (reg, fault_drain now n) nd;
              nd = prune_origin_seeders (ping_cycle now (record_events now nd));
              (nd, fs) = prune_and_announce h now nd fs;
              nd = publish_snapshot fs (statm h) now nd;
              (line, nd) = log_ranking now nd in
          Some (nd, fs)))"

section \<open>Retention only removes what left the playlist\<close>

text \<open>Everything outside the segment root's prunable entries is untouched.\<close>

lemma fs_remove_read:
  "fs_read (snd (fs_remove h p fs)) q = (if q = p \<and> fst (fs_remove h p fs) then None else fs_read fs q)"
  by (auto simp: fs_remove_def fs_read_def AList.delete_conv')

lemma prune_entries_read:
  "fs_read (snd (prune_entries h root pl ret names fs)) q =
     (if \<exists>name \<in> set names. prunable h root pl ret name \<and> q = path_join root name \<and> remove_ok h q
      then None else fs_read fs q)"
proof (induction names arbitrary: fs)
  case (Cons name names)
  show ?case
  proof (cases "prunable h root pl ret name")
    case True
    obtain ok fs1 where r: "fs_remove h (path_join root name) fs = (ok, fs1)" by (cases "fs_remove h (path_join root name) fs")
    have one: "fs_read fs1 q = (if q = path_join root name \<and> ok then None else fs_read fs q)"
      using fs_remove_read [of h "path_join root name" fs q] r by simp
    have ok: "ok \<longleftrightarrow> fs_read fs (path_join root name) \<noteq> None \<and> remove_ok h (path_join root name)"
      using r by (auto simp: fs_remove_def fs_is_file_def split: if_splits)
    show ?thesis
      using Cons.IH [of fs1] True r one ok by (auto split: prod.splits)
  qed (simp add: Cons.IH)
qed simp

lemma prune_entries_changed:
  assumes "fs_read (snd (prune_entries h root pl ret names fs)) q \<noteq> fs_read fs q"
  shows "fs_read (snd (prune_entries h root pl ret names fs)) q = None
    \<and> (\<exists>name. prunable h root pl ret name \<and> q = path_join root name)"
  using assms by (auto simp: prune_entries_read split: if_splits)

text \<open>C31: Pruning deletes only files of the segment directory that are segments or temporary
  files, are not in the current playlist and are at least the retention window old; every
  other file keeps its contents, and with no retention configured nothing is deleted.\<close>

theorem prune_keeps_playlist:
  assumes "prune_segments h now nd fs = (removed, nd', fs')" and "fs_read fs' q \<noteq> fs_read fs q"
  shows "n_retention_secs nd \<noteq> 0 \<and> fs_read fs' q = None
    \<and> (\<exists>name age. q = path_join (segment_root (n_registry nd)) name
         \<and> (is_segment_name name \<or> ends_with name ''.tmp'')
         \<and> (\<forall>d. fs_read fs (n_manifest_path nd) = Some d \<longrightarrow> name \<notin> set (parse_manifest d))
         \<and> file_age h q = Some age \<and> from_secs (unat (n_retention_secs nd)) \<le> age)"
proof -
  let ?root = "segment_root (n_registry nd)"
  let ?man = "case fs_read fs (n_manifest_path nd) of Some d \<Rightarrow> d | None \<Rightarrow> []"
  let ?ret = "from_secs (unat (n_retention_secs nd))"
  from assms obtain entries where r: "n_retention_secs nd \<noteq> 0"
    and p: "prune_entries h ?root (parse_manifest ?man) ?ret entries fs = (removed, fs')"
    by (auto simp: prune_segments_def Let_def split: if_splits option.splits prod.splits)
  then have e: "fs' = snd (prune_entries h ?root (parse_manifest ?man) ?ret entries fs)" by simp
  from prune_entries_changed [OF assms(2) [unfolded e]] obtain name
    where "prunable h ?root (parse_manifest ?man) ?ret name" "q = path_join ?root name" "fs_read fs' q = None"
    unfolding e by blast
  then show ?thesis
    using r by (auto simp: prunable_def split: option.splits)
qed

definition old_disk :: file_system where
  "old_disk = demo_disk\<lparr>files := [(''/s/seg_1.ts'', [1])]\<rparr>"

definition old_node :: node where
  "old_node = (node_new (\<lambda>_. None) None 0 None (snd demo_net) ''n'' ''master'' ''/m'' ''/s'' (fst demo_net) None)
     \<lparr>n_retention_secs := 60\<rparr>"

theorem prune_keeps_playlist_witness:
  "fs_read (snd (snd (prune_segments (demo_host\<lparr>file_age := \<lambda>_. Some (from_secs 90)\<rparr>) (from_secs 31)
      old_node old_disk))) ''/s/seg_1.ts'' = None"
proof -
  let ?h = "demo_host\<lparr>file_age := \<lambda>_. Some (from_secs 90)\<rparr>"
  have p: "prune_segments ?h (from_secs 31) old_node old_disk
      = (True, old_node\<lparr>n_next_prune := from_secs 61\<rparr>, old_disk\<lparr>files := []\<rparr>)"
    by (simp add: prune_segments_def old_node_def old_disk_def node_new_def registry_new_def demo_host_def
        demo_disk_def fs_read_def fs_read_dir_def entry_name_def path_join_def starts_with_def ends_with_def
        strip_prefix_def List.map_filter_simps suffix_def prunable_def is_segment_name_def fs_remove_def
        fs_is_file_def parse_manifest_def str_lines_def from_utf8_def as_bytes_def of_bytes_def from_secs_def)
  have c: "fs_read (old_disk\<lparr>files := []\<rparr>) ''/s/seg_1.ts'' \<noteq> fs_read old_disk ''/s/seg_1.ts''"
    by (simp add: old_disk_def fs_read_def)
  from prune_keeps_playlist [OF p c] have "fs_read (old_disk\<lparr>files := []\<rparr>) ''/s/seg_1.ts'' = None" by blast
  then show ?thesis by (simp only: p snd_conv)
qed

section \<open>The tick keeps the invariant\<close>

lemma with_registry_ok: "node_ok nd \<Longrightarrow> registry_ok reg \<Longrightarrow> node_ok (with_registry (reg, n) nd)"
  by (simp add: with_registry_def)

lemma ping_peers_ok: "node_ok nd \<Longrightarrow> node_ok (ping_peers now nd)"
proof -
  have "node_ok (fold (ping_peer m now) ps nd)" if "node_ok nd" for m ps nd
    using that by (induction ps arbitrary: nd) (simp_all add: ping_peer_def Let_def node_ok_path)
  then show "node_ok nd \<Longrightarrow> node_ok (ping_peers now nd)" by (simp add: ping_peers_def)
qed

lemma ping_cycle_ok: "node_ok nd \<Longrightarrow> node_ok (ping_cycle now nd)"
  by (simp add: ping_cycle_def beacon_def ping_peers_ok)

lemma record_events_ok: "node_ok nd \<Longrightarrow> node_ok (record_events now nd)"
proof -
  have "node_ok (fold (record_event now) evs nd)" if "node_ok nd" for evs nd
    using that by (induction evs arbitrary: nd) (simp_all add: record_event_ok)
  moreover have "registry_ok (reg\<lparr>events := es\<rparr>) = registry_ok reg" for reg es
    by (simp add: registry_ok_def active_count_def)
  ultimately show "node_ok nd \<Longrightarrow> node_ok (record_events now nd)"
    by (simp add: record_events_def drain_events_def) (simp add: node_ok_def)
qed

lemma prune_and_announce_ok: "node_ok nd \<Longrightarrow> node_ok (fst (prune_and_announce h now nd fs))"
  by (auto simp: prune_and_announce_def prune_segments_def Let_def split: prod.splits option.splits if_splits)

lemma publish_snapshot_ok [simp]: "node_ok (publish_snapshot fs p now nd) = node_ok nd"
  by (simp add: publish_snapshot_def Let_def split: option.split)

lemma log_ranking_ok: "log_ranking now nd = (line, nd') \<Longrightarrow> node_ok nd' = node_ok nd"
  by (auto simp: log_ranking_def Let_def split: if_splits)

lemma node_tick_step:
  assumes "node_ok nd"
  shows "\<exists>nd' fs'. node_tick st h now (nd, fs) = Some (nd', fs') \<and> node_ok nd'"
proof -
  obtain reg n where r: "registry_tick st now (n_registry nd) (node_net nd) = Some (reg, n)" "registry_ok reg"
    using registry_tick_step [of "n_registry nd" st now "node_net nd"] assms by (auto simp: node_ok_def)
  let ?nd = "prune_origin_seeders (ping_cycle now (record_events now (with_registry (reg, fault_drain now n) nd)))"
  have "node_ok ?nd"
    using assms r(2) by (intro prune_origin_ok ping_cycle_ok record_events_ok with_registry_ok)
  from prune_and_announce_ok [OF this, of h now fs] show ?thesis
    using r(1) by (auto simp: node_tick_def Let_def log_ranking_ok split: prod.split)
qed

end
