(* ===== verification/Dispatch.thy ===== *)
theory Dispatch
  imports Ticking
begin

text \<open>
  The message dispatch of a node, \<open>Node::handle\<close> of \<open>src/src/node.rs\<close>: every datagram is
  decoded, refreshes its sender's liveness and is handled by its type. Then the node as a
  state machine: its invariant holds in every reachable state, and no datagram and no tick
  can panic there.
\<close>

section \<open>The peer list\<close>

definition MAX_ADVERTISED_PEERS :: nat where
  "MAX_ADVERTISED_PEERS = 16"

definition PARENT_COUNT :: nat where
  "PARENT_COUNT = 2"

definition served_count :: "node \<Rightarrow> socket_addr \<Rightarrow> u32" where
  "served_count nd a = (case map_of (n_peer_stats nd) a of Some s \<Rightarrow> ps_served s | None \<Rightarrow> 0)"

text \<open>The peers a requester may learn of, those that have served less first.\<close>

definition peer_candidates :: "node \<Rightarrow> socket_addr \<Rightarrow> socket_addr list" where
  "peer_candidates nd src =
     sort_key (\<lambda>a. (served_count nd a, a))
       (filter (\<lambda>p. \<not> (remote_public src \<and> \<not> remote_public p))
         (filter (\<lambda>p. p \<noteq> src) (map fst (n_peers nd))))"

definition peer_flags :: "node \<Rightarrow> socket_addr \<Rightarrow> socket_addr list \<Rightarrow> socket_addr \<Rightarrow> u8" where
  "peer_flags nd src parents p =
     (if map_of (n_claims nd) p = Some p then PEER_UPNP_MAPPED else 0)
     OR (if same_ip4 p src then PEER_SAME_IP else 0)
     OR (if p \<in> set parents then PEER_PARENT else 0)"

definition peerlist :: "node \<Rightarrow> socket_addr \<Rightarrow> (socket_addr \<times> u8) list" where
  "peerlist nd src =
     (let candidates = peer_candidates nd src;
          parents = take PARENT_COUNT candidates in
      map (\<lambda>p. (p, peer_flags nd src parents p)) (take MAX_ADVERTISED_PEERS candidates))"

section \<open>The handlers\<close>

fun is_lan_source :: "socket_addr \<Rightarrow> bool" where
  "is_lan_source (V4 ip _) = (v4_is_private ip \<or> v4_is_loopback ip)"
| "is_lan_source (V6 ip _ _ _) = (v6_is_loopback ip \<or> v6_is_unicast_link_local ip)"

definition mark_lan :: "socket_addr \<Rightarrow> node \<Rightarrow> node" where
  "mark_lan src nd =
     (case map_of (n_paths nd) src of
        Some p \<Rightarrow> nd\<lparr>n_paths := AList.update src (p\<lparr>path_lan := True\<rparr>) (n_paths nd)\<rparr>
      | None \<Rightarrow> nd)"

definition discover :: "instant \<Rightarrow> socket_addr \<Rightarrow> string \<Rightarrow> node \<Rightarrow> node" where
  "discover now src name nd =
     (if \<not> known_peer nd src \<and> name \<noteq> [] then
        let nd = register_peer now src name nd in
        if is_lan_source src then mark_lan src nd else nd
      else nd)"

definition on_ping :: "file_system \<Rightarrow> instant \<Rightarrow> socket_addr \<Rightarrow> u32 \<Rightarrow> string \<Rightarrow> node \<Rightarrow> node" where
  "on_ping fs now src nonce name nd =
     (if nonce = n_beacon_nonce nd then nd
      else if src = n_local_addr nd then nd
      else
        let nd = discover now src name nd in
        node_send (encode (Pong (segment_availability fs (segment_root (n_registry nd))))) src now nd)"

definition on_segment_request ::
    "(string \<Rightarrow> string option) \<Rightarrow> file_system \<Rightarrow> instant \<Rightarrow> socket_addr \<Rightarrow> u16 \<Rightarrow> string \<Rightarrow> node \<Rightarrow> node" where
  "on_segment_request env fs now src transfer_id filename nd =
     (case origin_seed_allowed env fs now filename src nd of
        (True, nd) \<Rightarrow>
          with_registry (registry_serve fs now transfer_id filename src (n_registry nd) (node_net nd)) nd
      | (False, nd) \<Rightarrow>
          with_registry (reject_not_found fs now transfer_id src True (n_registry nd) (node_net nd)) nd)"

definition learn_availability ::
    "instant \<Rightarrow> socket_addr \<Rightarrow> segment_availability option \<Rightarrow> node \<Rightarrow> node" where
  "learn_availability now src a nd =
     (case a of Some a \<Rightarrow> record_availability now src a nd | None \<Rightarrow> nd)"

definition on_segment_not_found ::
    "instant \<Rightarrow> socket_addr \<Rightarrow> u16 \<Rightarrow> segment_availability option \<Rightarrow> bool \<Rightarrow> node \<Rightarrow> node" where
  "on_segment_not_found now src transfer_id a retryable nd =
     (let nd = learn_availability now src a nd in
      case registry_on_not_found now transfer_id retryable (n_registry nd) of
        (found, reg) \<Rightarrow>
          let nd = nd\<lparr>n_registry := reg\<rparr> in
          (case found of
             Some (filename, retryable) \<Rightarrow> if \<not> retryable then record_missing now src filename nd else nd
           | None \<Rightarrow> nd))"

fun dispatch ::
    "settings \<Rightarrow> (string \<Rightarrow> string option) \<Rightarrow> instant \<Rightarrow> socket_addr \<Rightarrow> message \<Rightarrow> node \<times> file_system
      \<Rightarrow> (event \<times> node \<times> file_system) option" where
  "dispatch st env now src (HandshakeRequest claimed name) (nd, fs) =
     (let nd = register_peer now src name nd;
          nd = nd\<lparr>n_claims := AList.update src claimed (n_claims nd)\<rparr> in
      Some (NoEvent, node_send (encode (HandshakeResponse src (n_name nd))) src now nd, fs))"
| "dispatch st env now src (HandshakeResponse observed name) (nd, fs) =
     Some (HandshakeResponseEvent src name, nd\<lparr>n_my_public := Some observed\<rparr>, fs)"
| "dispatch st env now src (Ping nonce name) (nd, fs) =
     Some (NoEvent, on_ping fs now src nonce name nd, fs)"
| "dispatch st env now src (Pong a) (nd, fs) =
     Some (NoEvent, learn_availability now src a (record_pong now src nd), fs)"
| "dispatch st env now src ManifestRequest (nd, fs) =
     (let data = (case fs_read fs (n_manifest_path nd) of Some d \<Rightarrow> d | None \<Rightarrow> []) in
      Some (NoEvent, node_send (encode (ManifestResponse data)) src now nd, fs))"
| "dispatch st env now src (ManifestResponse data) (nd, fs) = Some (ManifestResponseEvent data, nd, fs)"
| "dispatch st env now src PeerlistRequest (nd, fs) =
     Some (NoEvent, node_send (encode (PeerlistResponse (peerlist nd src))) src now nd, fs)"
| "dispatch st env now src (PeerlistResponse peers) (nd, fs) = Some (PeerlistResponseEvent peers, nd, fs)"
| "dispatch st env now src (SegmentRequest transfer_id filename) (nd, fs) =
     Some (NoEvent, on_segment_request env fs now src transfer_id filename nd, fs)"
| "dispatch st env now src (SegmentContents transfer_id packet_number total_packets data) (nd, fs) =
     (case registry_on_content st now transfer_id packet_number total_packets data src
             (n_registry nd) fs (node_net nd) of
        None \<Rightarrow> None
      | Some (reg, fs, n) \<Rightarrow> Some (NoEvent, with_registry (reg, n) nd, fs))"
| "dispatch st env now src (SegmentNotFound transfer_id a retryable) (nd, fs) =
     Some (NoEvent, on_segment_not_found now src transfer_id a retryable nd, fs)"
| "dispatch st env now src (Ack transfer_id at next_start next_count) (nd, fs) =
     Some (NoEvent, nd\<lparr>n_registry :=
       registry_on_ack st now transfer_id at next_start next_count src (n_registry nd)\<rparr>, fs)"

definition node_handle ::
    "settings \<Rightarrow> (string \<Rightarrow> string option) \<Rightarrow> instant \<Rightarrow> bytes \<Rightarrow> socket_addr \<Rightarrow> node \<times> file_system
      \<Rightarrow> (event \<times> node \<times> file_system) option" where
  "node_handle st env now datagram src = (\<lambda>(nd, fs).
     (case decode datagram of
        Inl _ \<Rightarrow> Some (NoEvent, nd, fs)
      | Inr msg \<Rightarrow> dispatch st env now src msg (touch_peer now src nd, fs)))"

section \<open>The handlers keep the invariant\<close>

lemma discover_ok: "node_ok nd \<Longrightarrow> node_ok (discover now src name nd)"
  by (simp add: discover_def mark_lan_def Let_def register_peer_ok node_ok_path split: option.split)

lemma on_ping_ok: "node_ok nd \<Longrightarrow> node_ok (on_ping fs now src nonce name nd)"
  by (simp add: on_ping_def Let_def discover_ok)

lemma on_segment_request_ok:
  assumes "node_ok nd"
  shows "node_ok (on_segment_request env fs now src tid f nd)"
proof -
  obtain b nd1 where o: "origin_seed_allowed env fs now f src nd = (b, nd1)"
    by (cases "origin_seed_allowed env fs now f src nd")
  with origin_seed_ok [OF assms, of env fs now f src] have ok: "node_ok nd1" by simp
  then have reg: "registry_ok (n_registry nd1)" by (simp add: node_ok_def)
  have "node_ok (with_registry rn nd1)" if "registry_ok (fst rn)" for rn
    using with_registry_ok [OF ok that, of "snd rn"] by simp
  with serve_ok [OF reg] reg show ?thesis
    by (cases b) (simp_all add: on_segment_request_def o reject_not_found_def)
qed

lemma on_segment_not_found_ok: "node_ok nd \<Longrightarrow> node_ok (on_segment_not_found now src tid a b nd)"
proof -
  assume ok: "node_ok nd"
  then have l: "node_ok (learn_availability now src a nd)" "registry_ok (n_registry (learn_availability now src a nd))"
    by (simp_all add: learn_availability_def node_ok_def record_availability_def split: option.split)
  from registry_not_found_ok [OF l(2), of now tid b] l(1) show ?thesis
    by (auto simp: on_segment_not_found_def Let_def split: prod.split option.split)
qed

lemma dispatch_step:
  assumes ok: "node_ok nd"
  shows "\<exists>ev nd' fs'. dispatch st env now src m (nd, fs) = Some (ev, nd', fs') \<and> node_ok nd'"
proof -
  have reg: "registry_ok (n_registry nd)" using ok by (simp add: node_ok_def)
  show ?thesis
  proof (cases m)
    case (SegmentContents tid pn tot data)
    with registry_content_step [OF reg, of st now tid pn tot data src fs "node_net nd"] ok show ?thesis
      by (auto simp: with_registry_ok)
  next
    case (Pong a)
    then show ?thesis
      using record_pong_ok [OF ok, of now src] by (simp add: learn_availability_def split: option.split)
  qed (use ok reg in \<open>simp_all add: Let_def register_peer_ok on_ping_ok on_segment_request_ok
      on_segment_not_found_ok registry_ack_ok\<close>)
qed

lemma node_handle_step:
  assumes "node_ok nd"
  shows "\<exists>ev nd' fs'. node_handle st env now d src (nd, fs) = Some (ev, nd', fs') \<and> node_ok nd'"
  using dispatch_step [OF touch_peer_ok [OF assms]] assms by (simp add: node_handle_def split: sum.split)

section \<open>The node as a state machine\<close>

text \<open>
  One call of a node's operations by its owner, the master's or the peer's main loop, or a
  change of the file system by another process.
\<close>

inductive node_step ::
    "settings \<Rightarrow> (string \<Rightarrow> string option) \<Rightarrow> node \<times> file_system \<Rightarrow> node \<times> file_system \<Rightarrow> bool" for st env where
  handle: "node_handle st env now d src (nd, fs) = Some (ev, nd', fs') \<Longrightarrow> node_step st env (nd, fs) (nd', fs')"
| tick: "node_tick st h now (nd, fs) = Some (nd', fs') \<Longrightarrow> node_step st env (nd, fs) (nd', fs')"
| transmit: "node_step st env (nd, fs) (node_send bs dst now nd, fs)"
| announce: "node_step st env (nd, fs) (announce_availability fs now nd, fs)"
| claim: "node_step st env (nd, fs) (set_claimed a nd, fs)"
| register: "node_step st env (nd, fs) (register_peer now a name nd, fs)"
| prune: "node_step st env (nd, fs) (prune_peers ttl now nd, fs)"
| forget: "node_step st env (nd, fs) (drop_peer a nd, fs)"
| pull: "node_step st env (nd, fs) (record_pull now a r latency bs nd, fs)"
| start: "start_receiver st clocks now dst dir filename (n_registry nd) (node_net nd) = Some (res, reg, n)
    \<Longrightarrow> node_step st env (nd, fs) (with_registry (reg, n) nd, fs)"
| remove: "node_step st env (nd, fs) (nd\<lparr>n_registry := remove_receiver tid (n_registry nd)\<rparr>, fs)"
| gauges: "node_step st env (nd, fs) (nd\<lparr>n_queue_depth := q, n_inflight := i\<rparr>, fs)"
| disk: "node_step st env (nd, fs) (nd, fs')"

inductive_cases node_stepE: "node_step st env (nd, fs) w"

lemma remove_receiver_ok: "registry_ok reg \<Longrightarrow> registry_ok (remove_receiver tid reg)"
  using reg_step_ok [OF reg_step.remove [of undefined reg undefined undefined tid]] by simp

lemma node_step_ok: "node_step st env w w' \<Longrightarrow> node_ok (fst w) \<Longrightarrow> node_ok (fst w')"
proof (induction rule: node_step.induct)
  case (handle now d src nd fs ev nd' fs')
  then show ?case using node_handle_step [of nd st env now d src fs] by auto
next
  case (tick h now nd fs nd' fs')
  then show ?case using node_tick_step [of nd st h now fs] by auto
next
  case (start clocks now dst dir filename nd res reg n fs)
  from start(2) have ok: "node_ok nd" by simp
  then have "registry_ok (n_registry nd)" by (simp add: node_ok_def)
  from with_registry_ok [OF ok start_receiver_ok [OF this start(1)]] show ?case by simp
next
  case (remove nd fs tid)
  then have "registry_ok (n_registry nd)" by (simp add: node_ok_def)
  with remove show ?case by (simp add: remove_receiver_ok)
qed (simp_all add: set_claimed_def register_peer_ok prune_peers_ok drop_peer_ok record_pull_ok)

lemma node_reachable_ok:
  assumes "(node_step st env)\<^sup>*\<^sup>* w w'" and "node_ok (fst w)"
  shows "node_ok (fst w')"
  using assms by (induction rule: rtranclp_induct) (auto intro: node_step_ok)

text \<open>C7: From its creation on, whatever datagrams arrive from whomever, however the clock and
  the file system change and whatever its owner calls in whatever order, a node never
  panics: every datagram is handled and every tick returns. Always at most 32 transfers run,
  every peer is listed once and has its path and statistics, every score lies in 0..100, and
  no segment's seed leases name a peer twice.\<close>

theorem node_never_panics:
  assumes "(node_step st env)\<^sup>*\<^sup>*
    (node_new env clock t0 la sock name role mp root flt sink, fs0) (nd, fs)"
  shows "node_handle st env now d src (nd, fs) \<noteq> None \<and> node_tick st h now (nd, fs) \<noteq> None
    \<and> active_count (n_registry nd) \<le> 32
    \<and> distinct (map fst (n_peers nd))
    \<and> (\<forall>a \<in> set (map fst (n_peers nd)).
         map_of (n_paths nd) a \<noteq> None \<and> map_of (n_peer_stats nd) a \<noteq> None)
    \<and> (\<forall>(a, s) \<in> set (n_peer_stats nd). ps_score s \<le> 100)
    \<and> (\<forall>(f, seeders) \<in> set (n_origin_seeders nd). distinct seeders)"
proof -
  have ok: "node_ok nd"
    using node_reachable_ok [OF assms] node_new_ok by simp
  have "map_of (n_paths nd) a \<noteq> None \<and> map_of (n_peer_stats nd) a \<noteq> None"
    if "a \<in> set (map fst (n_peers nd))" for a
    using that ok by (auto simp: node_ok_def map_of_eq_None_iff)
  then show ?thesis
    using node_handle_step [OF ok, of st env now d src fs] node_tick_step [OF ok, of st h now fs] ok
    by (auto simp: node_ok_def table_ok_def registry_ok_def MAX_CONCURRENT_TRANSFERS_def score_ok_def)
qed

theorem node_never_panics_witness:
  "node_tick (settings_from_env (\<lambda>_. None)) demo_host (from_secs 10)
     (register_peer 5 (V4 0x0A000001 3333) ''p'' demo_node, demo_disk) \<noteq> None"
proof -
  let ?st = "settings_from_env (\<lambda>_. None)"
  have "(node_step ?st (\<lambda>_. None))\<^sup>*\<^sup>* (demo_node, demo_disk)
      (register_peer 5 (V4 0x0A000001 3333) ''p'' demo_node, demo_disk)"
    by (rule r_into_rtranclp) (rule node_step.register)
  from node_never_panics [OF this [unfolded demo_node_def], folded demo_node_def] show ?thesis by blast
qed

section \<open>What a peer list reveals\<close>

definition eligible :: "node \<Rightarrow> socket_addr \<Rightarrow> socket_addr \<Rightarrow> bool" where
  "eligible nd src p \<longleftrightarrow> known_peer nd p \<and> p \<noteq> src \<and> (remote_public src \<longrightarrow> remote_public p)"

lemma set_peer_candidates: "p \<in> set (peer_candidates nd src) \<longleftrightarrow> eligible nd src p"
  by (auto simp: peer_candidates_def eligible_def known_peer_def map_of_eq_None_iff)

lemma flag_bits [simp]:
  "peer_flags nd src parents p AND PEER_UPNP_MAPPED = 0 \<longleftrightarrow> map_of (n_claims nd) p \<noteq> Some p"
  "peer_flags nd src parents p AND PEER_SAME_IP = 0 \<longleftrightarrow> \<not> same_ip4 p src"
  "peer_flags nd src parents p AND PEER_PARENT = 0 \<longleftrightarrow> p \<notin> set parents"
  by (simp_all add: peer_flags_def PEER_UPNP_MAPPED_def PEER_SAME_IP_def PEER_PARENT_def)

lemma take_sorted_le:
  assumes "sorted (map k xs)" and "x \<in> set (take n xs)" and "y \<in> set xs" and "y \<notin> set (take n xs)"
  shows "k x \<le> k y"
proof -
  from assms(3,4) have "y \<in> set (drop n xs)"
    using append_take_drop_id [of n xs] by (metis Un_iff set_append)
  moreover have "sorted (map k (take n xs) @ map k (drop n xs))"
    using assms(1) by (simp flip: map_append)
  ultimately show ?thesis using assms(2) by (auto simp: sorted_append)
qed

lemma parents_spread:
  assumes "p \<in> set (take n (peer_candidates nd src))" and "eligible nd src q"
    and "q \<notin> set (take n (peer_candidates nd src))"
  shows "(served_count nd p, p) \<le> (served_count nd q, q)"
  using take_sorted_le [of "\<lambda>a. (served_count nd a, a)" "peer_candidates nd src" p n q] assms
  by (simp add: set_peer_candidates) (simp add: peer_candidates_def)

lemma peerlist_distinct: "node_ok nd \<Longrightarrow> distinct (map fst (peerlist nd src))"
  by (simp add: peerlist_def Let_def comp_def peer_candidates_def node_ok_def)

lemma peerlist_entry:
  "(p, f) \<in> set (peerlist nd src) \<Longrightarrow>
     eligible nd src p \<and> f = peer_flags nd src (take PARENT_COUNT (peer_candidates nd src)) p"
  using set_take_subset [of MAX_ADVERTISED_PEERS "peer_candidates nd src"]
  by (auto simp: peerlist_def Let_def simp flip: set_peer_candidates)

lemma peerlist_parents:
  assumes "node_ok nd"
  shows "length (filter (\<lambda>(p, f). f AND PEER_PARENT \<noteq> 0) (filter P (peerlist nd src))) \<le> 2"
proof -
  let ?par = "take PARENT_COUNT (peer_candidates nd src)"
  let ?ps = "filter P (peerlist nd src)"
  have "length (filter (\<lambda>(p, f). f AND PEER_PARENT \<noteq> 0) ?ps)
      = length (filter (\<lambda>p. p \<in> set ?par) (map fst ?ps))"
    using peerlist_entry [of _ _ nd src]
    by (simp add: filter_map comp_def) (intro arg_cong [of _ _ length] filter_cong refl, force)
  also have "\<dots> \<le> card (set ?par)"
    using peerlist_distinct [OF assms, of src]
    by (subst distinct_card [symmetric]) (auto simp: distinct_map_filter intro!: card_mono)
  also have "\<dots> \<le> 2"
    using card_length [of ?par] by (simp add: PARENT_COUNT_def)
  finally show ?thesis .
qed

lemma peerlist_complete:
  assumes "node_ok nd" and "card {p. eligible nd src p} \<le> 16" and "eligible nd src p" and "sendable_peer (p, 0)"
  shows "p \<in> fst ` set (filter sendable_peer (peerlist nd src))"
proof -
  have "distinct (peer_candidates nd src)" using assms(1) by (simp add: peer_candidates_def node_ok_def)
  then have "length (peer_candidates nd src) = card {p. eligible nd src p}"
    by (simp flip: distinct_card set_peer_candidates)
  then have t: "take MAX_ADVERTISED_PEERS (peer_candidates nd src) = peer_candidates nd src"
    using assms(2) by (simp add: MAX_ADVERTISED_PEERS_def)
  have "sendable_peer (p, f)" for f using assms(4) by (cases p) simp_all
  then show ?thesis
    using assms(3) by (force simp: peerlist_def Let_def t set_peer_candidates)
qed

text \<open>C25: On a clean link a PEERLIST_REQUEST is answered with one datagram to the requester.
  The list in it has at most 16 entries, no peer twice, only known peers other than the
  requester, and for a requester on the public network no address that \<open>remote_public\<close>
  refuses (IPv4 loopback and private, IPv6 loopback and link-local; IPv4 link-local passes). The flags say which peers are at the endpoint they claim and which share the
  requester's IPv4 address; at most two are parents, and no other
  listed peer has served less than one of them. If no more than 16 peers qualify, every one
  the format can carry is listed.\<close>

theorem peerlist_private:
  assumes "clean (node_net nd)" and "node_ok nd"
  shows "\<exists>nd' d ps. dispatch st env now src PeerlistRequest (nd, fs) = Some (NoEvent, nd', fs)
    \<and> wire (n_socket nd') = wire (n_socket nd) @ [(d, src)] \<and> decode d = Inr (PeerlistResponse ps)
    \<and> length ps \<le> 16 \<and> distinct (map fst ps)
    \<and> (\<forall>(p, f) \<in> set ps. known_peer nd p \<and> p \<noteq> src \<and> (remote_public src \<longrightarrow> remote_public p)
         \<and> (f AND PEER_UPNP_MAPPED \<noteq> 0 \<longleftrightarrow> map_of (n_claims nd) p = Some p)
         \<and> (f AND PEER_SAME_IP \<noteq> 0 \<longleftrightarrow> same_ip4 p src))
    \<and> length (filter (\<lambda>(p, f). f AND PEER_PARENT \<noteq> 0) ps) \<le> 2
    \<and> (\<forall>(p, f) \<in> set ps. f AND PEER_PARENT \<noteq> 0 \<longrightarrow>
         (\<forall>(q, g) \<in> set ps. g AND PEER_PARENT = 0 \<longrightarrow> served_count nd p \<le> served_count nd q))
    \<and> (card {p. eligible nd src p} \<le> 16 \<longrightarrow> (\<forall>p. eligible nd src p \<and> sendable_peer (p, 0) \<longrightarrow> p \<in> fst ` set ps))"
proof -
  let ?l = "peerlist nd src"
  let ?ps = "filter sendable_peer ?l"
  let ?m = "PeerlistResponse ?l"
  have len: "length ?l \<le> 16" by (simp add: peerlist_def Let_def MAX_ADVERTISED_PEERS_def)
  then have "msg_ok ?m" using length_encode_peers_le [of ?l] by (simp add: msg_ok_def)
  then have dec: "decode (encode ?m) = Inr (PeerlistResponse ?ps)" using wire.dec_enc_exact by fastforce
  have w: "wire (n_socket (node_send (encode ?m) src now nd)) = wire (n_socket nd) @ [(encode ?m, src)]"
    using assms(1) clean_send [of "n_fault nd" "n_socket nd"]
    by (simp add: node_send_def with_net_def node_net_def)
  have fair: "served_count nd p \<le> served_count nd q"
    if "(p, f) \<in> set ?ps" "f AND PEER_PARENT \<noteq> 0" "(q, g) \<in> set ?ps" "g AND PEER_PARENT = 0" for p f q g
    using that peerlist_entry [of p f nd src] peerlist_entry [of q g nd src] parents_spread [of p PARENT_COUNT nd src q] by auto
  have "length ?ps \<le> 16" "distinct (map fst ?ps)"
    using le_trans [OF length_filter_le len] peerlist_distinct [OF assms(2), of src]
    by (auto intro: distinct_map_filter)
  moreover have "\<forall>(p, f) \<in> set ?ps. known_peer nd p \<and> p \<noteq> src \<and> (remote_public src \<longrightarrow> remote_public p)
      \<and> (f AND PEER_UPNP_MAPPED \<noteq> 0 \<longleftrightarrow> map_of (n_claims nd) p = Some p)
      \<and> (f AND PEER_SAME_IP \<noteq> 0 \<longleftrightarrow> same_ip4 p src)"
    using peerlist_entry [of _ _ nd src] by (fastforce simp: eligible_def)
  ultimately show ?thesis
    using w dec peerlist_parents [OF assms(2), of sendable_peer src] fair peerlist_complete [OF assms(2), of src]
    by (intro exI conjI) (simp_all, auto)
qed

theorem peerlist_private_witness:
  "\<exists>nd' d ps. dispatch (settings_from_env (\<lambda>_. None)) (\<lambda>_. None) 9 (V4 0x08080808 4000) PeerlistRequest
       (register_peer 5 (V4 0x01020304 3333) ''p'' demo_node, demo_disk) = Some (NoEvent, nd', demo_disk)
     \<and> decode d = Inr (PeerlistResponse ps) \<and> length ps \<le> 16"
proof -
  let ?nd = "register_peer 5 (V4 0x01020304 3333) ''p'' demo_node"
  have "clean (node_net ?nd)"
    by (simp add: node_net_def register_peer_def demo_node_def node_new_def demo_net_def clean_def
        fault_from_env_def fault_enabled_def accepting_def)
  moreover have "node_ok ?nd" unfolding demo_node_def by (intro register_peer_ok node_new_ok)
  ultimately show ?thesis
    using peerlist_private [of ?nd "settings_from_env (\<lambda>_. None)" "\<lambda>_. None" 9 "V4 0x08080808 4000" demo_disk]
    by blast
qed

end
