(* ===== verification/Http.thy ===== *)
theory Http
  imports Stats
begin

text \<open>
  The HTTP server of \<open>src/src/http.rs\<close>: reading a request, routing it, the files and the
  statistics it serves, and the player-facing playlist that lists only local segments. A
  connection is the list of chunks its reads return, an empty chunk being the end of the
  stream or a read error; the answer is the bytes written, which the operating system may
  fail to deliver. Threads and the listening socket are not modelled: a connection is
  handled against the files and the statistics as they are.
\<close>

section \<open>Lossy decoding\<close>

text \<open>
  \<open>String::from_utf8_lossy\<close>: each maximal prefix of an ill-formed character becomes U+FFFD.
  \<open>utf8_step\<close> gives the length of the first character, or of the ill-formed part, and
  whether it is well formed.
\<close>

definition second_ok :: "u8 \<Rightarrow> u8 \<Rightarrow> bool" where
  "second_ok a b \<longleftrightarrow>
     (if a = 0xE0 then 0xA0 \<le> b \<and> b \<le> 0xBF
      else if a = 0xED then 0x80 \<le> b \<and> b \<le> 0x9F
      else if a = 0xF0 then 0x90 \<le> b \<and> b \<le> 0xBF
      else if a = 0xF4 then 0x80 \<le> b \<and> b \<le> 0x8F
      else utf8_cont b)"

definition lead_length :: "u8 \<Rightarrow> nat" where
  "lead_length a =
     (if a < 0x80 then 1
      else if 0xC2 \<le> a \<and> a \<le> 0xDF then 2
      else if 0xE0 \<le> a \<and> a \<le> 0xEF then 3
      else if 0xF0 \<le> a \<and> a \<le> 0xF4 then 4
      else 0)"

fun cont_run :: "nat \<Rightarrow> bytes \<Rightarrow> nat" where
  "cont_run 0 bs = 0"
| "cont_run (Suc n) [] = 0"
| "cont_run (Suc n) (b # bs) = (if utf8_cont b then Suc (cont_run n bs) else 0)"

definition utf8_step :: "u8 \<Rightarrow> bytes \<Rightarrow> nat \<times> bool" where
  "utf8_step a bs =
     (let n = lead_length a in
      if n \<le> 1 then (1, n = 1)
      else
        (case bs of
           [] \<Rightarrow> (1, False)
         | b # r \<Rightarrow>
             if second_ok a b then let k = 2 + cont_run (n - 2) r in (k, k = n) else (1, False)))"

fun lossy_fuel :: "nat \<Rightarrow> bytes \<Rightarrow> bytes" where
  "lossy_fuel n [] = []"
| "lossy_fuel 0 bs = []"
| "lossy_fuel (Suc n) (a # bs) =
     (case utf8_step a bs of
        (k, ok) \<Rightarrow>
          (if ok then take k (a # bs) else [0xEF, 0xBF, 0xBD]) @ lossy_fuel n (drop k (a # bs)))"

text \<open>A step takes at least a byte, so the length is fuel enough.\<close>

definition from_utf8_lossy :: "bytes \<Rightarrow> string" where
  "from_utf8_lossy bs = of_bytes (lossy_fuel (length bs) bs)"

definition ascii :: "bytes \<Rightarrow> bool" where
  "ascii bs \<longleftrightarrow> list_all (\<lambda>b. b < 0x80) bs"

lemma ascii_append [simp]: "ascii (xs @ ys) \<longleftrightarrow> ascii xs \<and> ascii ys"
  by (simp add: ascii_def)

lemma lossy_ascii: "ascii bs \<Longrightarrow> length bs \<le> n \<Longrightarrow> lossy_fuel n bs = bs"
proof (induction bs arbitrary: n)
  case (Cons b bs)
  then show ?case by (cases n) (auto simp: ascii_def utf8_step_def lead_length_def)
qed simp

lemma from_utf8_lossy_ascii: "ascii bs \<Longrightarrow> from_utf8_lossy bs = of_bytes bs"
  by (simp add: from_utf8_lossy_def lossy_ascii)

section \<open>The playlist for players\<close>

definition MEDIA_SEQUENCE :: string where
  "MEDIA_SEQUENCE = ''#EXT-X-MEDIA-SEQUENCE:''"

definition seq_step :: "u64 \<Rightarrow> string \<Rightarrow> u64" where
  "seq_step s line =
     (case strip_prefix MEDIA_SEQUENCE line of
        Some rest \<Rightarrow> (case parse_u64 (str_trim rest) of Some n \<Rightarrow> n | None \<Rightarrow> 0)
      | None \<Rightarrow> s)"

record playlist_scan =
  pl_seq :: u64
  pl_header :: "string list"
  pl_pending :: "string list"
  pl_kept :: "(u64 \<times> string list \<times> string) list"
  pl_saw_m3u :: bool
  pl_saw_segment_tag :: bool

definition scan_tag :: "string \<Rightarrow> playlist_scan \<Rightarrow> playlist_scan" where
  "scan_tag line p =
     (if starts_with line MEDIA_SEQUENCE then p
      else
        let p = p\<lparr>pl_saw_m3u := pl_saw_m3u p \<or> starts_with line ''#EXTM3U'',
                  pl_saw_segment_tag := pl_saw_segment_tag p \<or> starts_with line ''#EXTINF:''\<rparr> in
        if pl_saw_segment_tag p then p\<lparr>pl_pending := pl_pending p @ [line]\<rparr>
        else p\<lparr>pl_header := pl_header p @ [line]\<rparr>)"

definition scan_name :: "file_system \<Rightarrow> string \<Rightarrow> string \<Rightarrow> playlist_scan \<Rightarrow> playlist_scan" where
  "scan_name fs root line p =
     (let name = str_trim line in
      if name = [] then p
      else
        let p = (if fs_is_file fs (path_join root name)
                 then p\<lparr>pl_kept := pl_kept p @ [(pl_seq p, pl_pending p, name)], pl_pending := []\<rparr>
                 else p\<lparr>pl_pending := []\<rparr>) in
        p\<lparr>pl_seq := pl_seq p + 1\<rparr>)"

definition scan_line :: "file_system \<Rightarrow> string \<Rightarrow> playlist_scan \<Rightarrow> string \<Rightarrow> playlist_scan" where
  "scan_line fs root p line =
     (if starts_with line ''#'' then scan_tag line p else scan_name fs root line p)"

definition scan_playlist :: "file_system \<Rightarrow> string \<Rightarrow> string list \<Rightarrow> playlist_scan" where
  "scan_playlist fs root ls =
     foldl (scan_line fs root)
       \<lparr>pl_seq = foldl seq_step 0 ls, pl_header = [], pl_pending = [], pl_kept = [],
        pl_saw_m3u = False, pl_saw_segment_tag = False\<rparr> ls"

definition text_line :: "string \<Rightarrow> bytes" where
  "text_line l = as_bytes l @ [0x0A]"

definition playlist_body :: "string list \<Rightarrow> (u64 \<times> string list \<times> string) list \<Rightarrow> bytes" where
  "playlist_body header entries =
     concat (map text_line header)
     @ concat (map (\<lambda>(_, tags, name). concat (map text_line tags) @ text_line name) entries)"

fun insert_sequence :: "bytes \<Rightarrow> bool \<Rightarrow> string list \<Rightarrow> bytes" where
  "insert_sequence ins inserted [] = (if inserted then [] else ins)"
| "insert_sequence ins inserted (line # ls) =
     text_line line
     @ (if \<not> inserted \<and> (starts_with line ''#EXTM3U'' \<or> starts_with line ''#EXT-X-VERSION:'')
        then ins @ insert_sequence ins True ls
        else insert_sequence ins inserted ls)"

definition playback_playlist :: "file_system \<Rightarrow> string \<Rightarrow> bytes \<Rightarrow> nat \<Rightarrow> bytes option" where
  "playback_playlist fs root data holdback_segments =
     (let p = scan_playlist fs root (str_lines (from_utf8_lossy data));
          keep_count = length (pl_kept p) - holdback_segments in
      if \<not> pl_saw_m3u p \<or> keep_count = 0 then None
      else
        let first_kept = fst (hd (pl_kept p));
            out = playlist_body (pl_header p) (take keep_count (pl_kept p));
            ins = text_line (MEDIA_SEQUENCE @ show_word first_kept) in
        Some (insert_sequence ins False (str_lines (from_utf8_lossy out))))"

definition filter_playlist :: "file_system \<Rightarrow> string \<Rightarrow> bytes \<Rightarrow> bytes" where
  "filter_playlist fs root data =
     (case playback_playlist fs root data 0 of Some out \<Rightarrow> out | None \<Rightarrow> data)"

section \<open>The log line of a playback request\<close>

definition find_tag :: "string \<Rightarrow> string list \<Rightarrow> string option" where
  "find_tag tag ls = (case List.map_filter (strip_prefix tag) ls of [] \<Rightarrow> None | v # _ \<Rightarrow> Some v)"

definition tag_u64 :: "string \<Rightarrow> string list \<Rightarrow> u64 option" where
  "tag_u64 tag ls = Option.bind (find_tag tag ls) (\<lambda>v. parse_u64 (str_trim v))"

fun position :: "string \<Rightarrow> string list \<Rightarrow> nat option" where
  "position x [] = None"
| "position x (y # ys) = (if y = x then Some 0 else map_option Suc (position x ys))"

definition saturating_mul :: "u64 \<Rightarrow> u64 \<Rightarrow> u64" where
  "saturating_mul a b = (if unat a * unat b < 2 ^ 64 then a * b else - 1)"

text \<open>The approximate delay in seconds and segments, where it is known.\<close>

definition playback_delay :: "file_system \<Rightarrow> string \<Rightarrow> string \<Rightarrow> (u64 \<times> u64) option" where
  "playback_delay fs root requested =
     (let manifest = (case fs_read fs (path_join root ''live.m3u8'') of Some d \<Rightarrow> d | None \<Rightarrow> []);
          ls = str_lines (from_utf8_lossy manifest);
          segments = parse_manifest manifest;
          latest = (if segments = [] then ''unknown'' else last segments);
          media_sequence = tag_u64 MEDIA_SEQUENCE ls;
          target_duration = (case tag_u64 ''#EXT-X-TARGETDURATION:'' ls of Some d \<Rightarrow> d | None \<Rightarrow> 0);
          at = (\<lambda>i. map_option (\<lambda>base. base + of_nat i) media_sequence);
          requested_sequence = (case Option.bind (position requested segments) at of
             Some s \<Rightarrow> Some s | None \<Rightarrow> segment_number requested);
          latest_sequence = (case (if segments = [] then None else at (length segments - 1)) of
             Some s \<Rightarrow> Some s | None \<Rightarrow> segment_number latest) in
      case (requested_sequence, latest_sequence) of
        (Some r, Some l) \<Rightarrow>
          let behind = saturating_sub l r in Some (saturating_mul behind target_duration, behind)
      | _ \<Rightarrow> None)"

section \<open>Requests and responses\<close>

definition MAX_REQUEST_BYTES :: nat where
  "MAX_REQUEST_BYTES = 8192"

fun has_header_end :: "bytes \<Rightarrow> bool" where
  "has_header_end [] = False"
| "has_header_end (b # bs) \<longleftrightarrow> prefix [0x0D, 0x0A, 0x0D, 0x0A] (b # bs) \<or> has_header_end bs"

fun read_request :: "bytes \<Rightarrow> bytes list \<Rightarrow> bytes option" where
  "read_request buf [] = None"
| "read_request buf (piece # chunks) =
     (if piece = [] then None
      else
        let buf = buf @ piece in
        if has_header_end buf \<or> length buf \<ge> MAX_REQUEST_BYTES then Some buf
        else read_request buf chunks)"

definition mime_of :: "string \<Rightarrow> string" where
  "mime_of name =
     (if ends_with name ''.m3u8'' then ''application/vnd.apple.mpegurl''
      else if ends_with name ''.ts'' then ''video/mp2t''
      else if ends_with name ''.mp4'' then ''video/mp4''
      else ''application/octet-stream'')"

record response =
  rs_status :: nat
  rs_reason :: string
  rs_mime :: string
  rs_body :: bytes
  rs_head_only :: bool

definition respond :: "response \<Rightarrow> bytes" where
  "respond r =
     (let crlf = [CHR 0x0D, CHR 0x0A];
          header = ''HTTP/1.1 '' @ show_nat (rs_status r) @ '' '' @ rs_reason r @ crlf
            @ ''Content-Type: '' @ rs_mime r @ crlf
            @ ''Content-Length: '' @ show_nat (length (rs_body r)) @ crlf
            @ ''Connection: close'' @ crlf @ crlf in
      as_bytes header @ (if rs_head_only r then [] else rs_body r))"

definition ok_response :: "string \<Rightarrow> string \<Rightarrow> bool \<Rightarrow> response" where
  "ok_response mime body head_only =
     \<lparr>rs_status = 200, rs_reason = ''OK'', rs_mime = mime, rs_body = as_bytes body, rs_head_only = head_only\<rparr>"

definition not_found_response :: "bool \<Rightarrow> response" where
  "not_found_response head_only =
     \<lparr>rs_status = 404, rs_reason = ''Not Found'', rs_mime = ''text/plain'',
      rs_body = as_bytes (''not found'' @ [CHR 0x0A]), rs_head_only = head_only\<rparr>"

definition method_not_allowed :: response where
  "method_not_allowed =
     \<lparr>rs_status = 405, rs_reason = ''Method Not Allowed'', rs_mime = ''text/plain'',
      rs_body = as_bytes (''method not allowed'' @ [CHR 0x0A]), rs_head_only = False\<rparr>"

definition or_line :: "string \<Rightarrow> string \<Rightarrow> string" where
  "or_line dflt body = (if body = [] then dflt else body @ [CHR 0x0A])"

definition stats_route :: "stats_snapshot option \<Rightarrow> bool \<Rightarrow> string \<Rightarrow> response option" where
  "stats_route stats head_only name =
     (case stats of
        None \<Rightarrow> None
      | Some g \<Rightarrow>
          if name = ''peers'' then
            Some (ok_response ''text/plain''
              (or_line (''node stats not ready'' @ [CHR 0x0A]) (join_with [CHR 0x0A] (snap_lines g))) head_only)
          else if name = ''stats'' then
            Some (ok_response ''application/json'' (or_line ''{}'' (snap_json g)) head_only)
          else if name = ''metrics'' then
            Some (ok_response ''text/plain; version=0.0.4'' (or_line [] (snap_metrics g)) head_only)
          else None)"

definition serve_file :: "file_system \<Rightarrow> string \<Rightarrow> bool \<Rightarrow> string \<Rightarrow> response" where
  "serve_file fs root head_only name =
     (if \<not> valid_filename name then not_found_response head_only
      else
        (case fs_read fs (path_join root name) of
           Some data \<Rightarrow>
             \<lparr>rs_status = 200, rs_reason = ''OK'', rs_mime = mime_of name,
              rs_body = (if ends_with name ''.m3u8'' then filter_playlist fs root data else data),
              rs_head_only = head_only\<rparr>
         | None \<Rightarrow> not_found_response head_only))"

definition route :: "file_system \<Rightarrow> string \<Rightarrow> stats_snapshot option \<Rightarrow> bool \<Rightarrow> string \<Rightarrow> response" where
  "route fs root stats head_only name =
     (case stats_route stats head_only name of
        Some r \<Rightarrow> r
      | None \<Rightarrow>
          if name = ''health'' then ok_response ''text/plain'' (''ok'' @ [CHR 0x0A]) head_only
          else serve_file fs root head_only name)"

definition word_at :: "nat \<Rightarrow> string list \<Rightarrow> string" where
  "word_at i ws = (if i < length ws then ws ! i else [])"

definition target_name :: "string \<Rightarrow> string" where
  "target_name target = dropWhile (\<lambda>c. c = CHR ''/'') (takeWhile (\<lambda>c. c \<noteq> CHR ''?'') target)"

definition answer_request :: "file_system \<Rightarrow> string \<Rightarrow> stats_snapshot option \<Rightarrow> bytes \<Rightarrow> response" where
  "answer_request fs root stats buf =
     (let request_line = word_at 0 (str_lines (from_utf8_lossy buf));
          parts = split_whitespace request_line;
          http_method = word_at 0 parts;
          target = word_at 1 parts in
      if http_method \<noteq> ''GET'' \<and> http_method \<noteq> ''HEAD'' then method_not_allowed
      else route fs root stats (http_method = ''HEAD'') (target_name target))"

text \<open>\<open>None\<close>: the connection ended before a whole request, and nothing is written.\<close>

definition handle_connection ::
    "file_system \<Rightarrow> string \<Rightarrow> stats_snapshot option \<Rightarrow> bytes list \<Rightarrow> bytes option" where
  "handle_connection fs root stats chunks =
     map_option (\<lambda>buf. respond (answer_request fs root stats buf)) (read_request [] chunks)"

section \<open>Lines of a text\<close>

lemma char_of_codes [simp]:
  "char_of (9 :: nat) = CHR 0x09" "char_of (10 :: nat) = CHR 0x0A" "char_of (11 :: nat) = CHR 0x0B"
  "char_of (12 :: nat) = CHR 0x0C" "char_of (13 :: nat) = CHR 0x0D" "char_of (32 :: nat) = CHR 0x20"
proof -
  have "(of_char (CHR 0x09) :: nat) = 9" "(of_char (CHR 0x0A) :: nat) = 10" "(of_char (CHR 0x0B) :: nat) = 11"
    "(of_char (CHR 0x0C) :: nat) = 12" "(of_char (CHR 0x0D) :: nat) = 13" "(of_char (CHR 0x20) :: nat) = 32"
    by simp_all
  then show "char_of (9 :: nat) = CHR 0x09" "char_of (10 :: nat) = CHR 0x0A" "char_of (11 :: nat) = CHR 0x0B"
    "char_of (12 :: nat) = CHR 0x0C" "char_of (13 :: nat) = CHR 0x0D" "char_of (32 :: nat) = CHR 0x20"
    by (metis char_of_char)+
qed

lemma lines_acc_line:
  "CHR 0x0A \<notin> set l \<Longrightarrow> lines_acc cur (l @ CHR 0x0A # rest) = strip_cr (rev cur @ l) # lines_acc [] rest"
  by (induction l arbitrary: cur) auto

lemma str_lines_lines:
  "\<forall>l \<in> set ls. CHR 0x0A \<notin> set l \<Longrightarrow> str_lines (of_bytes (concat (map text_line ls))) = map strip_cr ls"
proof (induction ls)
  case (Cons l ls)
  have "of_bytes (text_line l) = l @ [CHR 0x0A]"
    by (simp add: text_line_def) (simp add: of_bytes_def as_bytes_def comp_def)
  then have "of_bytes (concat (map text_line (l # ls))) = l @ CHR 0x0A # of_bytes (concat (map text_line ls))"
    by (simp add: of_bytes_def)
  with Cons show ?case by (simp add: str_lines_def lines_acc_line)
qed (simp add: str_lines_def of_bytes_def)

lemma strip_cr_sub: "set (strip_cr l) \<subseteq> set l"
  by (auto simp: strip_cr_def dest: in_set_butlastD)

lemma lines_acc_chars: "l \<in> set (lines_acc cur s) \<Longrightarrow> set l \<subseteq> (set cur \<union> set s)"
proof (induction cur s rule: lines_acc.induct)
  case (2 cur c cs)
  then show ?case using strip_cr_sub [of "rev cur"] by (fastforce split: if_splits)
qed (auto split: if_splits)

lemma lines_acc_newline:
  "l \<in> set (lines_acc cur s) \<Longrightarrow> CHR 0x0A \<notin> set cur \<Longrightarrow> CHR 0x0A \<notin> set l"
proof (induction cur s rule: lines_acc.induct)
  case (2 cur c cs)
  then show ?case using strip_cr_sub [of "rev cur"] by (fastforce split: if_splits)
qed (auto split: if_splits)

lemma trim_start_sub: "set (trim_start_fuel n s) \<subseteq> set s"
proof (induction n s rule: trim_start_fuel.induct)
  case (2 n s)
  then show ?case by (auto split: option.split dest: in_set_dropD)
qed simp

lemma trim_end_sub: "set (trim_end_fuel n s) \<subseteq> set s"
proof (induction n s rule: trim_end_fuel.induct)
  case (2 n s)
  then show ?case by (auto split: option.split dest: in_set_takeD)
qed simp

lemma str_trim_sub: "set (str_trim s) \<subseteq> set s"
  using trim_end_sub trim_start_sub by (fastforce simp: str_trim_def Let_def)

lemma trim_end_done:
  "length s \<le> n \<Longrightarrow> find (\<lambda>w. ends_with (trim_end_fuel n s) w) white_space = None"
proof (induction n arbitrary: s)
  case 0
  then show ?case using white_space_nonempty by (auto simp: find_None_iff ends_with_def)
next
  case (Suc n)
  show ?case
  proof (cases "find (\<lambda>w. ends_with s w) white_space")
    case (Some w)
    with find_in_set [OF Some] white_space_nonempty have "0 < length w" by blast
    with Suc.prems have "length (take (length s - length w) s) \<le> n" by (cases w) auto
    with Some show ?thesis using Suc.IH by simp
  qed simp
qed

lemma strip_cr_trim: "strip_cr (str_trim s) = str_trim s"
proof -
  let ?t = "str_trim s"
  have "find (\<lambda>w. ends_with ?t w) white_space = None"
    by (simp add: str_trim_def Let_def trim_end_done)
  moreover have "[CHR 0x0D] \<in> set white_space" by (simp add: white_space_def of_bytes_def)
  ultimately have "\<not> ends_with ?t [CHR 0x0D]" by (auto simp: find_None_iff)
  then have "?t = [] \<or> last ?t \<noteq> CHR 0x0D"
    by (metis append_butlast_last_id ends_with_def suffixI)
  then show ?thesis by (auto simp: strip_cr_def)
qed

lemma strip_cr_hash: "starts_with l ''#'' \<Longrightarrow> starts_with (strip_cr l) ''#''"
  by (cases l; cases "tl l") (auto simp: starts_with_def strip_cr_def)

section \<open>What the scan keeps\<close>

definition playlist_names :: "string list \<Rightarrow> string list" where
  "playlist_names ls = filter (\<lambda>n. n \<noteq> []) (map str_trim (filter (\<lambda>l. \<not> starts_with l ''#'') ls))"

definition numbered :: "u64 \<Rightarrow> string list \<Rightarrow> (u64 \<times> string) list" where
  "numbered s ns = zip (map (\<lambda>i. s + of_nat i) [0..<length ns]) ns"

lemma numbered_Cons: "numbered s (n # ns) = (s, n) # numbered (s + 1) ns"
proof -
  have "map (\<lambda>i. s + of_nat i) [0..<Suc (length ns)] = s # map (\<lambda>i. s + 1 + of_nat i) [0..<length ns]"
    by (simp add: map_upt_Suc add.assoc del: upt_Suc)
  then show ?thesis by (simp add: numbered_def del: upt_Suc)
qed

definition entry_of :: "u64 \<times> string list \<times> string \<Rightarrow> u64 \<times> string" where
  "entry_of = (\<lambda>(s, _, n). (s, n))"

lemma scan_tag_frame [simp]:
  "pl_kept (scan_tag l p) = pl_kept p" "pl_seq (scan_tag l p) = pl_seq p"
  by (simp_all add: scan_tag_def Let_def)

lemma scan_kept:
  "map entry_of (pl_kept (foldl (scan_line fs root) p ls))
     = map entry_of (pl_kept p)
       @ filter (\<lambda>(_, n). fs_is_file fs (path_join root n)) (numbered (pl_seq p) (playlist_names ls))"
proof (induction ls arbitrary: p)
  case Nil
  then show ?case by (simp add: playlist_names_def numbered_def)
next
  case (Cons l ls)
  consider (tag) "starts_with l ''#''" | (blank) "\<not> starts_with l ''#''" "str_trim l = []"
    | (name) "\<not> starts_with l ''#''" "str_trim l \<noteq> []" by blast
  then show ?case
  proof cases
    case name
    then have "playlist_names (l # ls) = str_trim l # playlist_names ls" by (simp add: playlist_names_def)
    with name show ?thesis
      using Cons.IH [of "scan_name fs root l p"]
      by (simp add: scan_line_def numbered_Cons) (simp add: scan_name_def Let_def entry_of_def)
  qed (use Cons.IH in \<open>simp_all add: scan_line_def scan_name_def playlist_names_def\<close>)
qed

lemma starts_with_Cons [simp]:
  "starts_with s (c # cs) \<longleftrightarrow> s \<noteq> [] \<and> hd s = c \<and> starts_with (tl s) cs"
  "starts_with s []"
  by (cases s) (auto simp: starts_with_def)

lemma scan_m3u_line:
  "pl_saw_m3u (scan_line fs root p l) \<longleftrightarrow> pl_saw_m3u p \<or> starts_with l ''#EXTM3U''"
proof (cases "starts_with l ''#''")
  case True
  then show ?thesis by (auto simp: scan_line_def scan_tag_def Let_def MEDIA_SEQUENCE_def)
next
  case False
  then show ?thesis by (auto simp: scan_line_def scan_name_def Let_def)
qed

lemma scan_m3u:
  "pl_saw_m3u (foldl (scan_line fs root) p ls) \<longleftrightarrow> pl_saw_m3u p \<or> (\<exists>l \<in> set ls. starts_with l ''#EXTM3U'')"
  by (induction ls arbitrary: p) (auto simp: scan_m3u_line)

text \<open>Every tag the scan stores is a comment line of the input, but no media sequence.\<close>

definition tag_line :: "string \<Rightarrow> bool" where
  "tag_line l \<longleftrightarrow> starts_with l ''#'' \<and> \<not> starts_with l MEDIA_SEQUENCE"

definition tags_from :: "string set \<Rightarrow> playlist_scan \<Rightarrow> bool" where
  "tags_from T p \<longleftrightarrow> set (pl_header p) \<union> set (pl_pending p) \<union> \<Union> ((\<lambda>(_, tags, _). set tags) ` set (pl_kept p)) \<subseteq> T"

lemma scan_tags:
  assumes "tags_from T p" and "\<And>l. l \<in> set ls \<Longrightarrow> tag_line l \<Longrightarrow> l \<in> T"
  shows "tags_from T (foldl (scan_line fs root) p ls)"
  using assms
proof (induction ls arbitrary: p)
  case (Cons l ls)
  have "tags_from T (scan_line fs root p l)"
    using Cons.prems by (auto simp: tags_from_def scan_line_def scan_tag_def scan_name_def tag_line_def Let_def)
  with Cons show ?case by simp
qed simp

text \<open>
  The comment lines that are kept: all but the media sequence. Those before the first segment
  tag make the header; of the others, those of the kept segments.
\<close>

definition header_tags :: "string list \<Rightarrow> string list" where
  "header_tags ls = takeWhile (\<lambda>l. \<not> starts_with l ''#EXTINF:'') (filter tag_line ls)"

definition kept_tags :: "playlist_scan \<Rightarrow> string list" where
  "kept_tags p = concat (map (\<lambda>(_, tags, _). tags) (pl_kept p))"

lemma scan_tag_other: "starts_with l ''#'' \<Longrightarrow> \<not> tag_line l \<Longrightarrow> scan_tag l p = p"
  by (simp add: scan_tag_def tag_line_def)

lemma extinf_tag_line: "starts_with l ''#EXTINF:'' \<Longrightarrow> tag_line l"
  by (auto simp: tag_line_def MEDIA_SEQUENCE_def)

lemma scan_comments:
  "\<exists>ts. pl_header (foldl (scan_line fs root) p ls)
        = pl_header p @ (if pl_saw_segment_tag p then [] else header_tags ls)
    \<and> subseq ts (if pl_saw_segment_tag p then filter tag_line ls
        else dropWhile (\<lambda>l. \<not> starts_with l ''#EXTINF:'') (filter tag_line ls))
    \<and> subseq (kept_tags (foldl (scan_line fs root) p ls)) (kept_tags p @ pl_pending p @ ts)"
proof (induction ls arbitrary: p)
  case Nil
  then show ?case by (intro exI [of _ "[]"]) (simp add: header_tags_def prefix_imp_subseq)
next
  case (Cons l ls)
  let ?p = "scan_line fs root p l"
  consider (tag) "tag_line l" | (other) "starts_with l ''#''" "\<not> tag_line l" | (name) "\<not> starts_with l ''#''"
    by blast
  then show ?case
  proof cases
    case tag
    then have l: "starts_with l ''#''" "\<not> starts_with l MEDIA_SEQUENCE" by (simp_all add: tag_line_def)
    let ?seg = "pl_saw_segment_tag p \<or> starts_with l ''#EXTINF:''"
    have p: "pl_saw_segment_tag ?p = ?seg" "kept_tags ?p = kept_tags p"
      "pl_pending ?p = (if ?seg then pl_pending p @ [l] else pl_pending p)"
      "pl_header ?p = (if ?seg then pl_header p else pl_header p @ [l])"
      using l by (simp_all add: scan_line_def scan_tag_def Let_def kept_tags_def del: starts_with_Cons)
    obtain ts where ts: "pl_header (foldl (scan_line fs root) ?p ls) = pl_header ?p @ (if ?seg then [] else header_tags ls)"
      "subseq ts (if ?seg then filter tag_line ls
        else dropWhile (\<lambda>l. \<not> starts_with l ''#EXTINF:'') (filter tag_line ls))"
      "subseq (kept_tags (foldl (scan_line fs root) ?p ls)) (kept_tags p @ pl_pending ?p @ ts)"
      using Cons.IH [of ?p] unfolding p(1,2) by blast
    show ?thesis
      using tag ts p(3,4)
      by (intro exI [of _ "(if ?seg then [l] else []) @ ts"])
        (auto simp: header_tags_def simp del: starts_with_Cons split: if_splits)
  next
    case other
    then have "?p = p" by (simp add: scan_line_def scan_tag_other)
    with other Cons.IH [of p] show ?thesis
      by (simp only: foldl_Cons header_tags_def filter.simps if_False simp_thms)
  next
    case name
    then have nt: "\<not> tag_line l" by (simp add: tag_line_def del: starts_with_Cons)
    have p: "pl_saw_segment_tag ?p = pl_saw_segment_tag p" "pl_header ?p = pl_header p"
      "kept_tags ?p @ pl_pending ?p = kept_tags p @ pl_pending p \<or> kept_tags ?p @ pl_pending ?p = kept_tags p"
      using name by (auto simp: scan_line_def scan_name_def Let_def kept_tags_def)
    obtain ts where ts: "pl_header (foldl (scan_line fs root) ?p ls)
        = pl_header p @ (if pl_saw_segment_tag p then [] else header_tags ls)"
      "subseq ts (if pl_saw_segment_tag p then filter tag_line ls
        else dropWhile (\<lambda>l. \<not> starts_with l ''#EXTINF:'') (filter tag_line ls))"
      "subseq (kept_tags (foldl (scan_line fs root) ?p ls)) ((kept_tags ?p @ pl_pending ?p) @ ts)"
      using Cons.IH [of ?p] unfolding p(1,2) by auto
    have "subseq ((kept_tags ?p @ pl_pending ?p) @ ts) (kept_tags p @ pl_pending p @ ts)"
      using p(3)
    proof
      assume "kept_tags ?p @ pl_pending ?p = kept_tags p"
      then show ?thesis
        using list_emb_append_mono [OF _ subseq_order.refl, of "kept_tags p" "kept_tags p @ pl_pending p" ts]
        by (simp only: append_assoc prefix_imp_subseq prefixI)
    qed (simp only: append_assoc subseq_order.refl)
    with ts(3) have "subseq (kept_tags (foldl (scan_line fs root) ?p ls)) (kept_tags p @ pl_pending p @ ts)"
      by (rule subseq_order.trans)
    with ts(1,2) nt show ?thesis
      by (intro exI [of _ ts]) (simp only: foldl_Cons header_tags_def filter.simps if_False simp_thms)
  qed
qed

lemma scan_playlist_comments:
  "pl_header (scan_playlist fs root ls) = header_tags ls
    \<and> subseq (kept_tags (scan_playlist fs root ls)) (dropWhile (\<lambda>l. \<not> starts_with l ''#EXTINF:'') (filter tag_line ls))"
proof -
  let ?p = "\<lparr>pl_seq = foldl seq_step 0 ls, pl_header = [], pl_pending = [], pl_kept = [],
        pl_saw_m3u = False, pl_saw_segment_tag = False\<rparr>"
  obtain ts where "pl_header (foldl (scan_line fs root) ?p ls) = header_tags ls"
    "subseq ts (dropWhile (\<lambda>l. \<not> starts_with l ''#EXTINF:'') (filter tag_line ls))"
    "subseq (kept_tags (foldl (scan_line fs root) ?p ls)) ts"
    using scan_comments [of fs root ?p ls] by (auto simp: kept_tags_def)
  then show ?thesis unfolding scan_playlist_def using subseq_order.trans by blast
qed

lemma kept_comments:
  "subseq (pl_header (scan_playlist fs root ls) @ concat (map (\<lambda>(_, tags, _). tags) (take k (pl_kept (scan_playlist fs root ls)))))
     (filter tag_line ls)"
proof -
  let ?p = "scan_playlist fs root ls" and ?tags = "\<lambda>(_ :: u64, tags, _ :: string). tags :: string list"
  have "kept_tags ?p = concat (map ?tags (take k (pl_kept ?p))) @ concat (map ?tags (drop k (pl_kept ?p)))"
    unfolding kept_tags_def by (simp only: append_take_drop_id flip: concat_append map_append)
  then have "subseq (concat (map ?tags (take k (pl_kept ?p)))) (kept_tags ?p)" by (simp add: prefix_imp_subseq)
  with scan_playlist_comments [of fs root ls]
  have "subseq (concat (map ?tags (take k (pl_kept ?p)))) (dropWhile (\<lambda>l. \<not> starts_with l ''#EXTINF:'') (filter tag_line ls))"
    using subseq_order.trans by blast
  then have "subseq (header_tags ls @ concat (map ?tags (take k (pl_kept ?p))))
      (header_tags ls @ dropWhile (\<lambda>l. \<not> starts_with l ''#EXTINF:'') (filter tag_line ls))"
    by (rule list_emb_append_mono [OF subseq_order.refl])
  then show ?thesis
    using scan_playlist_comments [of fs root ls] by (simp add: header_tags_def del: starts_with_Cons)
qed

section \<open>What a player sees\<close>

definition segment_lines :: "string list \<Rightarrow> string list" where
  "segment_lines ls = filter (\<lambda>l. l \<noteq> [] \<and> \<not> starts_with l ''#'') ls"

definition plain :: "string \<Rightarrow> bool" where
  "plain l \<longleftrightarrow> CHR 0x0A \<notin> set l \<and> ascii (as_bytes l)"

definition entry_lines :: "u64 \<times> string list \<times> string \<Rightarrow> string list" where
  "entry_lines = (\<lambda>(_, tags, name). tags @ [name])"

definition body_lines :: "string list \<Rightarrow> (u64 \<times> string list \<times> string) list \<Rightarrow> string list" where
  "body_lines header es = header @ concat (map entry_lines es)"

lemma playlist_body_lines: "playlist_body header es = concat (map text_line (body_lines header es))"
  by (induction es) (auto simp: playlist_body_def body_lines_def entry_lines_def)

lemma insert_True: "insert_sequence ins True ls = concat (map text_line ls)"
  by (induction ls) simp_all

text \<open>The lines that open a playlist; the sequence goes behind the first of them, or last.\<close>

definition head_line :: "string \<Rightarrow> bool" where
  "head_line l \<longleftrightarrow> starts_with l ''#EXTM3U'' \<or> starts_with l ''#EXT-X-VERSION:''"

definition behind_head :: "string list \<Rightarrow> string list \<Rightarrow> bool" where
  "behind_head a b \<longleftrightarrow>
     (if list_ex head_line (a @ b) then a \<noteq> [] \<and> head_line (last a) \<and> \<not> list_ex head_line (butlast a) else b = [])"

lemma insert_False:
  "\<exists>a b. ls = a @ b \<and> insert_sequence ins False ls = concat (map text_line a) @ ins @ concat (map text_line b)
     \<and> behind_head a b"
proof (induction ls)
  case Nil
  then show ?case by (simp add: behind_head_def)
next
  case (Cons l ls)
  show ?case
  proof (cases "head_line l")
    case True
    then have "insert_sequence ins False (l # ls) = concat (map text_line [l]) @ ins @ concat (map text_line ls)"
      unfolding head_line_def by (simp only: insert_sequence.simps insert_True) simp
    with True show ?thesis by (intro exI [of _ "[l]"] exI [of _ ls]) (simp add: behind_head_def)
  next
    case False
    obtain a b where ab: "ls = a @ b" "behind_head a b"
      "insert_sequence ins False ls = concat (map text_line a) @ ins @ concat (map text_line b)"
      using Cons.IH by blast
    from False have "insert_sequence ins False (l # ls) = text_line l @ insert_sequence ins False ls"
      unfolding head_line_def by (simp only: insert_sequence.simps) simp
    moreover have "behind_head (l # a) b"
      using ab(2) False by (auto simp: behind_head_def split: if_splits)
    ultimately show ?thesis using ab by (intro exI [of _ "l # a"] exI [of _ b]) simp
  qed
qed

lemma starts_with_strip_cr: "CHR 0x0D \<notin> set pat \<Longrightarrow> starts_with (strip_cr l) pat \<longleftrightarrow> starts_with l pat"
proof (cases "l \<noteq> [] \<and> last l = CHR 0x0D")
  case True
  moreover assume "CHR 0x0D \<notin> set pat"
  moreover from True have "l = butlast l @ [CHR 0x0D]" by (metis append_butlast_last_id)
  ultimately show ?thesis
    by (auto simp: starts_with_def strip_cr_def) (metis in_set_conv_decomp prefix_snoc)+
qed (auto simp: strip_cr_def)

lemma tag_strip_cr [simp]: "tag_line (strip_cr l) = tag_line l" "head_line (strip_cr l) = head_line l"
  "starts_with (strip_cr l) MEDIA_SEQUENCE = starts_with l MEDIA_SEQUENCE"
  by (simp_all add: tag_line_def head_line_def starts_with_strip_cr MEDIA_SEQUENCE_def del: starts_with_Cons)

lemma list_ex_head_strip: "list_ex head_line (map strip_cr ls) = list_ex head_line ls"
  by (simp add: list_ex_iff)

lemma behind_head_strip: "behind_head (map strip_cr a) (map strip_cr b) = behind_head a b"
proof -
  have "butlast (map strip_cr a) = map strip_cr (butlast a)" by (rule map_butlast [symmetric])
  then show ?thesis
    by (cases "a = []") (simp_all add: behind_head_def list_ex_head_strip last_map flip: map_append)
qed

lemma segment_lines_append [simp]: "segment_lines (xs @ ys) = segment_lines xs @ segment_lines ys"
  by (simp add: segment_lines_def)

lemma segment_lines_tags: "\<forall>t \<in> set ts. starts_with t ''#'' \<Longrightarrow> segment_lines (map strip_cr ts) = []"
  using strip_cr_hash by (auto simp: segment_lines_def filter_empty_conv)

definition entry_wf :: "u64 \<times> string list \<times> string \<Rightarrow> bool" where
  "entry_wf = (\<lambda>(_, tags, name). (\<forall>t \<in> set tags. starts_with t ''#'') \<and> name \<noteq> []
     \<and> \<not> starts_with name ''#'' \<and> strip_cr name = name)"

lemma segment_lines_entries:
  "\<forall>e \<in> set es. entry_wf e \<Longrightarrow>
     segment_lines (map strip_cr (map strip_cr (concat (map entry_lines es)))) = map (snd \<circ> entry_of) es"
proof (induction es)
  case (Cons e es)
  obtain s tags n where e: "e = (s, tags, n)" by (cases e)
  with Cons.prems have "\<forall>t \<in> set (map strip_cr tags). starts_with t ''#''" and n: "n \<noteq> []"
    "\<not> starts_with n ''#''" "strip_cr n = n"
    using strip_cr_hash by (auto simp: entry_wf_def simp del: starts_with_Cons)
  from segment_lines_tags [OF this(1)] n
  have "segment_lines (map strip_cr (map strip_cr (tags @ [n]))) = [n]"
    by (simp add: segment_lines_def del: starts_with_Cons)
  moreover have "segment_lines (map strip_cr (map strip_cr (concat (map entry_lines (e # es)))))
      = segment_lines (map strip_cr (map strip_cr (tags @ [n])))
        @ segment_lines (map strip_cr (map strip_cr (concat (map entry_lines es))))"
    by (simp add: e entry_lines_def segment_lines_def)
  ultimately show ?case using Cons by (simp add: e entry_of_def)
qed (simp add: segment_lines_def)

lemma plain_sub: "plain l \<Longrightarrow> set m \<subseteq> set l \<Longrightarrow> plain m"
  by (auto simp: plain_def ascii_def as_bytes_def list_all_iff)

lemma plain_lines: "ascii data \<Longrightarrow> l \<in> set (str_lines (of_bytes data)) \<Longrightarrow> plain l"
  using lines_acc_chars [of l "[]" "of_bytes data"] lines_acc_newline [of l "[]" "of_bytes data"]
  by (fastforce simp: plain_def str_lines_def ascii_def as_bytes_def of_bytes_def list_all_iff)

lemma plain_text:
  assumes "\<forall>l \<in> set ls. plain l"
  shows "str_lines (from_utf8_lossy (concat (map text_line ls))) = map strip_cr ls"
proof -
  have "ascii (concat (map text_line ls))"
    using assms by (induction ls) (auto simp: plain_def text_line_def ascii_def)
  then show ?thesis
    using assms str_lines_lines [of ls] by (simp add: from_utf8_lossy_ascii plain_def)
qed

lemma playlist_names_origin: "n \<in> set (playlist_names ls) \<Longrightarrow> \<exists>l \<in> set ls. n = str_trim l"
  by (auto simp: playlist_names_def)

lemma sequence_line_plain:
  "plain (MEDIA_SEQUENCE @ show_word w) \<and> strip_cr (MEDIA_SEQUENCE @ show_word w) = MEDIA_SEQUENCE @ show_word w"
proof -
  have d: "of_char c \<in> {48..57 :: nat}" if "c \<in> set (show_nat n)" for c n
    using that show_nat_chars [of n] by auto
  have ne: "show_nat n \<noteq> []" for n using show_nat_head [of n] by auto
  have "CHR 0x0A \<notin> set (show_nat n)" for n using d [of "CHR 0x0A" n] by auto
  moreover have "last (show_nat n) \<noteq> CHR 0x0D" for n
  proof
    assume l: "last (show_nat n) = CHR 0x0D"
    from d [OF last_in_set [OF ne], of n] show False unfolding l by simp
  qed
  moreover have "ascii (as_bytes (show_nat n))" for n
  proof -
    have "of_char c < (0x80 :: u8)" if "c \<in> set (show_nat n)" for c
    proof -
      have "of_char c < (128 :: nat)" using d [OF that] by simp
      then have "of_nat (of_char c) < (0x80 :: u8)"
        by (simp add: word_less_nat_alt unat_of_nat take_bit_eq_mod del: of_nat_of_char)
      then show ?thesis by (simp only: of_nat_of_char)
    qed
    then show ?thesis by (simp add: ascii_def as_bytes_def list_all_iff)
  qed
  ultimately show ?thesis
    using ne by (simp add: plain_def MEDIA_SEQUENCE_def show_word_def strip_cr_def as_bytes_def)
      (simp add: ascii_def)
qed

text \<open>What the scan of an ASCII playlist yields.\<close>

lemma scan_result:
  fixes fs root data
  defines "ls \<equiv> str_lines (from_utf8_lossy data)"
  defines "p \<equiv> scan_playlist fs root ls"
  assumes "ascii data" and "\<forall>n \<in> set (playlist_names ls). \<not> starts_with n ''#''"
  shows "\<forall>l \<in> set (body_lines (pl_header p) (take k (pl_kept p))). plain l"
    and "\<forall>t \<in> set (pl_header p). tag_line t"
    and "\<forall>e \<in> set (pl_kept p). entry_wf e \<and> (\<forall>t \<in> set (fst (snd e)). tag_line t)"
proof -
  have pls: "\<forall>l \<in> set ls. plain l"
    using plain_lines assms(3) by (simp add: ls_def from_utf8_lossy_ascii)
  have "tags_from {t \<in> set ls. tag_line t} p"
    unfolding p_def scan_playlist_def by (rule scan_tags) (auto simp: tags_from_def)
  then have tags: "set (pl_header p) \<subseteq> {t \<in> set ls. tag_line t}"
    "\<Union> ((\<lambda>(_, tags, _). set tags) ` set (pl_kept p)) \<subseteq> {t \<in> set ls. tag_line t}"
    by (simp_all add: tags_from_def)
  have h: "t \<in> set ls \<and> tag_line t" if "t \<in> set (pl_header p)" for t
    using that tags(1) by blast
  have k: "t \<in> set ls \<and> tag_line t" if "(s, ts, n) \<in> set (pl_kept p)" "t \<in> set ts" for s ts n t
    using that tags(2) by blast
  have names: "n \<in> set (playlist_names ls)" if "(s, ts, n) \<in> set (pl_kept p)" for s ts n
  proof -
    have "(s, n) \<in> set (map entry_of (pl_kept p))" using that by (force simp: entry_of_def)
    then show ?thesis
      unfolding p_def scan_playlist_def scan_kept by (auto simp: numbered_def dest: set_zip_rightD)
  qed
  have np: "plain n" if "n \<in> set (playlist_names ls)" for n
    using playlist_names_origin [OF that] pls plain_sub str_trim_sub by blast
  show "\<forall>l \<in> set (body_lines (pl_header p) (take k (pl_kept p))). plain l"
    using h k names np pls by (fastforce simp: body_lines_def entry_lines_def dest: in_set_takeD)
  show "\<forall>t \<in> set (pl_header p). tag_line t" using h by blast
  have "entry_wf (s, ts, n) \<and> (\<forall>t \<in> set ts. tag_line t)" if "(s, ts, n) \<in> set (pl_kept p)" for s ts n
  proof -
    note n = names [OF that]
    have "n \<noteq> []" using n by (simp add: playlist_names_def)
    moreover have "strip_cr n = n" using playlist_names_origin [OF n] strip_cr_trim by auto
    moreover have "\<not> starts_with n ''#''" using assms(4) n by blast
    ultimately show ?thesis using k [OF that] unfolding entry_wf_def prod.case tag_line_def by blast
  qed
  then show "\<forall>e \<in> set (pl_kept p). entry_wf e \<and> (\<forall>t \<in> set (fst (snd e)). tag_line t)" by auto
qed

definition tidy :: "string \<Rightarrow> string" where
  "tidy l = strip_cr (strip_cr l)"

lemma filter_tags_entries:
  "\<forall>e \<in> set es. entry_wf e \<and> (\<forall>t \<in> set (fst (snd e)). tag_line t) \<Longrightarrow>
     filter tag_line (concat (map entry_lines es)) = concat (map (\<lambda>(_, tags, _). tags) es)"
  by (induction es) (auto simp: entry_lines_def entry_wf_def tag_line_def simp del: starts_with_Cons)

lemma sequence_hash: "starts_with l MEDIA_SEQUENCE \<Longrightarrow> starts_with l ''#''"
  by (auto simp: MEDIA_SEQUENCE_def)

lemma filter_seq_entries:
  "\<forall>e \<in> set es. entry_wf e \<and> (\<forall>t \<in> set (fst (snd e)). tag_line t) \<Longrightarrow>
     filter (\<lambda>l. starts_with l MEDIA_SEQUENCE) (concat (map entry_lines es)) = []"
  by (fastforce simp: filter_empty_conv entry_lines_def entry_wf_def tag_line_def dest: sequence_hash
      simp del: starts_with_Cons)

lemma filter_tidy:
  "filter tag_line (map tidy ls) = map tidy (filter tag_line ls)"
  "filter (\<lambda>l. starts_with l MEDIA_SEQUENCE) (map tidy ls) = map tidy (filter (\<lambda>l. starts_with l MEDIA_SEQUENCE) ls)"
  by (simp_all add: filter_map comp_def tidy_def)

text \<open>
  The rendered text, read back: the segments, one media sequence in its place, and the header
  and the segments' tags.
\<close>

lemma render_lines:
  fixes s header es
  defines "m \<equiv> MEDIA_SEQUENCE @ show_word s"
  defines "out \<equiv> insert_sequence (text_line m) False (str_lines (from_utf8_lossy (playlist_body header es)))"
  assumes "\<forall>l \<in> set (body_lines header es). plain l"
    and "\<forall>t \<in> set header. tag_line t"
    and "\<forall>e \<in> set es. entry_wf e \<and> (\<forall>t \<in> set (fst (snd e)). tag_line t)"
  shows "segment_lines (str_lines (of_bytes out)) = map (snd \<circ> entry_of) es"
    and "\<exists>a b. str_lines (of_bytes out) = a @ [m] @ b \<and> behind_head a b"
    and "filter (\<lambda>l. starts_with l MEDIA_SEQUENCE) (str_lines (of_bytes out)) = [m]"
    and "filter tag_line (str_lines (of_bytes out)) = map tidy (header @ concat (map (\<lambda>(_, tags, _). tags) es))"
proof -
  let ?body = "body_lines header es"
  have body: "str_lines (from_utf8_lossy (playlist_body header es)) = map strip_cr ?body"
    unfolding playlist_body_lines by (rule plain_text) (rule assms(3))
  obtain a b where ab: "map strip_cr ?body = a @ b" "out = concat (map text_line (a @ [m] @ b))" "behind_head a b"
    using insert_False [of "map strip_cr ?body" "text_line m"] by (auto simp: out_def body)
  have m: "plain m" "strip_cr m = m" "starts_with m ''#''" "starts_with m MEDIA_SEQUENCE"
    using sequence_line_plain [of s] by (simp_all add: m_def starts_with_def) (simp add: MEDIA_SEQUENCE_def)
  have "\<forall>l \<in> set (map strip_cr ?body). plain l" using assms(3) plain_sub strip_cr_sub by fastforce
  then have "\<forall>l \<in> set (a @ [m] @ b). CHR 0x0A \<notin> set l" using m(1) unfolding ab(1) by (auto simp: plain_def)
  then have out: "str_lines (of_bytes out) = map strip_cr (a @ [m] @ b)"
    unfolding ab(2) by (rule str_lines_lines)
  have tidied: "map strip_cr (a @ b) = map tidy ?body" by (simp add: tidy_def flip: ab(1))
  have hash: "\<forall>t \<in> set header. starts_with t ''#''" using assms(4) by (simp add: tag_line_def del: starts_with_Cons)
  have wf: "\<forall>e \<in> set es. entry_wf e" using assms(5) by blast
  have "segment_lines [strip_cr m] = []" using m by (simp add: segment_lines_def del: starts_with_Cons)
  then have "segment_lines (map strip_cr (a @ [m] @ b)) = segment_lines (map strip_cr (map strip_cr ?body))"
    unfolding ab(1) by (simp only: map_append segment_lines_append append_Nil list.map)
  also have "\<dots> = map (snd \<circ> entry_of) es"
    using segment_lines_tags [of "map strip_cr header"] hash strip_cr_hash segment_lines_entries [OF wf]
    by (auto simp: body_lines_def simp del: map_map starts_with_Cons)
  finally show "segment_lines (str_lines (of_bytes out)) = map (snd \<circ> entry_of) es" unfolding out .
  show "\<exists>a b. str_lines (of_bytes out) = a @ [m] @ b \<and> behind_head a b"
    by (intro exI [of _ "map strip_cr a"] exI [of _ "map strip_cr b"]) (simp add: out m(2) behind_head_strip ab(3))
  have seq: "filter (\<lambda>l. starts_with l MEDIA_SEQUENCE) ?body = []"
    using assms(4) filter_seq_entries [OF assms(5)] by (simp add: body_lines_def filter_empty_conv tag_line_def)
  have "filter (\<lambda>l. starts_with l MEDIA_SEQUENCE) (map strip_cr (a @ b)) = []"
    unfolding tidied by (simp only: filter_tidy seq list.map)
  then show "filter (\<lambda>l. starts_with l MEDIA_SEQUENCE) (str_lines (of_bytes out)) = [m]"
    using m by (simp add: out filter_empty_conv)
  have "filter tag_line (map strip_cr (a @ b)) = map tidy (header @ concat (map (\<lambda>(_, tags, _). tags) es))"
    using assms(4) filter_tags_entries [OF assms(5)] unfolding tidied by (simp add: filter_tidy body_lines_def)
  then show "filter tag_line (str_lines (of_bytes out)) = map tidy (header @ concat (map (\<lambda>(_, tags, _). tags) es))"
    using m by (simp add: out tag_line_def del: starts_with_Cons)
qed

text \<open>C22: The playlist a player gets. For an ASCII playlist whose names are not comments: there
  is none exactly when the input has no \<open>#EXTM3U\<close> line or at most \<open>holdback\<close> of its
  segments are in the directory; otherwise its segment lines are the input's segments that
  are in the directory, in order and without the last \<open>holdback\<close>. It has exactly one media
  sequence line, whatever the input had, which gives the number of the first of them and
  stands right behind the first line that opens a playlist (or last, if none is kept). Its
  other comment lines start with all of the input's up to its first segment tag and are
  comment lines of the input in their order, up to carriage returns at their ends.\<close>

theorem playback_lists_local:
  assumes "ascii data" and "\<forall>n \<in> set (playlist_names (str_lines (of_bytes data))). \<not> starts_with n ''#''"
  shows "let ls = str_lines (of_bytes data);
             here = filter (\<lambda>(_, n). fs_is_file fs (path_join root n))
               (numbered (foldl seq_step 0 ls) (playlist_names ls));
             m = MEDIA_SEQUENCE @ show_word (fst (hd here)) in
    case playback_playlist fs root data holdback of
      None \<Rightarrow> (\<forall>l \<in> set ls. \<not> starts_with l ''#EXTM3U'') \<or> length here \<le> holdback
    | Some out \<Rightarrow> (\<exists>l \<in> set ls. starts_with l ''#EXTM3U'') \<and> holdback < length here
        \<and> segment_lines (str_lines (of_bytes out)) = map snd (take (length here - holdback) here)
        \<and> filter (\<lambda>l. starts_with l MEDIA_SEQUENCE) (str_lines (of_bytes out)) = [m]
        \<and> (\<exists>a b. str_lines (of_bytes out) = a @ [m] @ b \<and> behind_head a b)
        \<and> prefix (map tidy (header_tags ls)) (filter tag_line (str_lines (of_bytes out)))
        \<and> subseq (filter tag_line (str_lines (of_bytes out))) (map tidy (filter tag_line ls))"
proof -
  let ?ls = "str_lines (from_utf8_lossy data)"
  let ?p = "scan_playlist fs root ?ls"
  let ?here = "filter (\<lambda>(_, n). fs_is_file fs (path_join root n)) (numbered (foldl seq_step 0 ?ls) (playlist_names ?ls))"
  let ?k = "length (pl_kept ?p) - holdback"
  let ?es = "take ?k (pl_kept ?p)"
  have ls: "str_lines (of_bytes data) = ?ls" using assms(1) by (simp add: from_utf8_lossy_ascii)
  have here: "map entry_of (pl_kept ?p) = ?here"
    by (simp add: scan_playlist_def scan_kept)
  then have len: "length ?here = length (pl_kept ?p)" by (metis length_map)
  have m3u: "pl_saw_m3u ?p \<longleftrightarrow> (\<exists>l \<in> set ?ls. starts_with l ''#EXTM3U'')"
    by (simp add: scan_playlist_def scan_m3u del: starts_with_Cons)
  note r = scan_result [OF assms(1) assms(2) [unfolded ls], of fs root]
  have wf: "\<forall>e \<in> set ?es. entry_wf e \<and> (\<forall>t \<in> set (fst (snd e)). tag_line t)" using r(3) by (meson in_set_takeD)
  note out = render_lines [OF r(1) [of ?k] r(2) wf, of "fst (hd (pl_kept ?p))"]
  have "map (snd \<circ> entry_of) ?es = map snd (take (length ?here - holdback) ?here)"
    by (simp only: len flip: here take_map) simp
  note seg = out(1) [unfolded this]
  show ?thesis
  proof (cases "pl_saw_m3u ?p \<and> ?k \<noteq> 0")
    case True
    then have "pl_kept ?p \<noteq> []" by auto
    then have hd: "fst (hd ?here) = fst (hd (pl_kept ?p))"
      by (simp add: hd_map entry_of_def split_beta flip: here)
    have "playback_playlist fs root data holdback = Some (insert_sequence
        (text_line (MEDIA_SEQUENCE @ show_word (fst (hd (pl_kept ?p))))) False
        (str_lines (from_utf8_lossy (playlist_body (pl_header ?p) ?es))))"
      using True by (simp add: playback_playlist_def Let_def)
    moreover have "holdback < length ?here" using True len by simp
    moreover have "\<exists>l \<in> set ?ls. starts_with l ''#EXTM3U''" using True m3u by blast
    moreover have "prefix (map tidy (header_tags ?ls)) (map tidy (pl_header ?p @ concat (map (\<lambda>(_, tags, _). tags) ?es)))"
      using scan_playlist_comments [of fs root ?ls] by simp
    moreover have "subseq (map tidy (pl_header ?p @ concat (map (\<lambda>(_, tags, _). tags) ?es))) (map tidy (filter tag_line ?ls))"
      by (intro subseq_map) (rule kept_comments)
    ultimately show ?thesis
      unfolding ls Let_def hd using seg out(2-4) by (simp only: option.case)
  next
    case False
    then have "playback_playlist fs root data holdback = None" by (auto simp: playback_playlist_def Let_def)
    moreover have "(\<forall>l \<in> set ?ls. \<not> starts_with l ''#EXTM3U'') \<or> length ?here \<le> holdback"
      using False len m3u by auto
    ultimately show ?thesis unfolding ls Let_def by (simp only: option.case)
  qed
qed

definition demo_playlist :: bytes where
  "demo_playlist = as_bytes (''#EXTM3U'' @ [CHR 0x0A] @ ''a'' @ [CHR 0x0A] @ ''b'' @ [CHR 0x0A])"

lemma demo_lines: "str_lines (of_bytes demo_playlist) = [''#EXTM3U'', ''a'', ''b'']"
  by (simp add: demo_playlist_def str_lines_def strip_cr_def)

lemma demo_names: "playlist_names [''#EXTM3U'', ''a'', ''b''] = [''a'', ''b'']"
  by (simp add: playlist_names_def str_trim_def white_space_def of_bytes_def ends_with_def suffix_to_prefix)

theorem playback_lists_local_witness:
  "case playback_playlist (demo_disk\<lparr>files := [(''/s/b'', [])]\<rparr>) ''/s'' demo_playlist 0 of
     None \<Rightarrow> False | Some out \<Rightarrow> segment_lines (str_lines (of_bytes out)) = [''b'']"
proof -
  have "ascii demo_playlist" by (simp add: ascii_def demo_playlist_def as_bytes_def)
  moreover have "\<forall>n \<in> set (playlist_names (str_lines (of_bytes demo_playlist))). \<not> starts_with n ''#''"
    by (simp add: demo_lines demo_names)
  ultimately show ?thesis
    using playback_lists_local [of demo_playlist "demo_disk\<lparr>files := [(''/s/b'', [])]\<rparr>" "''/s''" 0]
    by (simp add: demo_lines demo_names numbered_def fs_is_file_def fs_read_def path_join_def ends_with_def
        suffix_to_prefix Let_def split: option.splits)
qed

section \<open>What a request can reach\<close>

text \<open>The request that is parsed is never longer than the cap and one more read.\<close>

lemma read_request_bound:
  "read_request buf pieces = Some req \<Longrightarrow> length buf < MAX_REQUEST_BYTES
     \<Longrightarrow> \<forall>piece \<in> set pieces. length piece \<le> 1024 \<Longrightarrow> length req < MAX_REQUEST_BYTES + 1024"
  by (induction buf pieces rule: read_request.induct) (auto simp: Let_def split: if_splits)

lemma playback_playlist_cong:
  assumes "\<And>p. fs_is_file fs p = fs_is_file fs' p"
  shows "playback_playlist fs root data k = playback_playlist fs' root data k"
proof -
  have "scan_line fs root = scan_line fs' root"
    using assms by (simp add: fun_eq_iff scan_line_def scan_name_def Let_def)
  then have "scan_playlist fs root ls = scan_playlist fs' root ls" for ls
    by (simp add: scan_playlist_def)
  then show ?thesis by (simp add: playback_playlist_def)
qed

text \<open>C30: Whatever a client sends, the answer depends only on the contents of files directly in the
  served directory under valid names, on the published statistics, and, through the playlist
  filter, on which paths exist: no byte of any other file can reach a client.\<close>

theorem http_serves_only_root:
  assumes "\<And>name. valid_filename name \<Longrightarrow> fs_read fs (path_join root name) = fs_read fs' (path_join root name)"
    and "\<And>p. fs_is_file fs p = fs_is_file fs' p"
  shows "handle_connection fs root stats pieces = handle_connection fs' root stats pieces"
proof -
  have "filter_playlist fs root data = filter_playlist fs' root data" for data
    using playback_playlist_cong [OF assms(2)] by (simp add: filter_playlist_def)
  then have "serve_file fs root h name = serve_file fs' root h name" for h name
    using assms(1) by (cases "valid_filename name") (simp_all add: serve_file_def split: option.split)
  then have "answer_request fs root stats buf = answer_request fs' root stats buf" for buf
    by (simp only: answer_request_def route_def)
  then show ?thesis by (simp add: handle_connection_def)
qed

theorem http_serves_only_root_witness:
  "handle_connection (demo_disk\<lparr>files := [(''/etc/passwd'', [1])]\<rparr>) ''/s'' None
       [as_bytes (''GET /../etc/passwd HTTP/1.1'' @ map char_of [13, 10, 13, 10 :: nat])]
   = handle_connection (demo_disk\<lparr>files := [(''/etc/passwd'', [2])]\<rparr>) ''/s'' None
       [as_bytes (''GET /../etc/passwd HTTP/1.1'' @ map char_of [13, 10, 13, 10 :: nat])]"
proof (rule http_serves_only_root)
  fix name :: string
  assume "valid_filename name"
  then have "path_join ''/s'' name \<noteq> ''/etc/passwd''"
    by (auto simp: valid_filename_def path_join_def ends_with_def suffix_to_prefix)
  then show "fs_read (demo_disk\<lparr>files := [(''/etc/passwd'', [1])]\<rparr>) (path_join ''/s'' name)
      = fs_read (demo_disk\<lparr>files := [(''/etc/passwd'', [2])]\<rparr>) (path_join ''/s'' name)"
    by (simp add: fs_read_def)
qed (simp add: fs_is_file_def fs_read_def)

end
