(* ===== verification/Scheduler.thy ===== *)
theory Scheduler
  imports Complex_Main Dispatch Http
begin

text \<open>
  The download scheduler of \<open>src/src/peer.rs\<close>: the queue of wanted segments, the choice of a
  peer for each, the bookkeeping of finished downloads and the player-facing manifest. The
  weights of the choice are floating-point numbers; the arithmetic is an argument, a record
  of its operations, so that nothing proved here depends on how it rounds. \<open>fl_lit n d\<close> is
  the number nearest to \<open>n / d\<close>.
\<close>

section \<open>Constants and state\<close>

definition HANDSHAKE_TIMEOUT :: duration where
  "HANDSHAKE_TIMEOUT = from_secs 3"

definition MANIFEST_POLL_INTERVAL :: duration where
  "MANIFEST_POLL_INTERVAL = from_secs 2"

definition POLL_JITTER_MS :: u64 where
  "POLL_JITTER_MS = 1000"

definition MANIFEST_RESPONSE_TIMEOUT :: duration where
  "MANIFEST_RESPONSE_TIMEOUT = from_secs 3"

definition PEERLIST_POLL_INTERVAL :: duration where
  "PEERLIST_POLL_INTERVAL = from_secs 5"

definition PEER_TTL :: duration where
  "PEER_TTL = from_secs 600"

definition FAIL_RETRY_COOLDOWN :: duration where
  "FAIL_RETRY_COOLDOWN = from_secs 5"

definition MAX_PARALLEL_DOWNLOADS :: nat where
  "MAX_PARALLEL_DOWNLOADS = 4"

definition MAX_INFLIGHT_PER_PEER :: nat where
  "MAX_INFLIGHT_PER_PEER = 2"

definition EVICT_AFTER_UNRESPONSIVE :: u32 where
  "EVICT_AFTER_UNRESPONSIVE = 3"

definition playback_holdback_segments :: "(string \<Rightarrow> string option) \<Rightarrow> nat" where
  "playback_holdback_segments env = unat (env_u64 env ''QSTREAM_PLAYBACK_HOLDBACK_SEGMENTS'' 3)"

record active_job =
  job_filename :: string
  job_peer :: socket_addr

record scheduler =
  active :: "(u16 \<times> active_job) list"
  pull_queue :: "string list"
  queued :: "string set"
  tried :: "(string \<times> socket_addr set) list"
  failed_at :: "(string \<times> instant) list"
  retry_after :: "((string \<times> socket_addr) \<times> instant) list"
  parents :: "socket_addr set"
  unresponsive_hits :: "(socket_addr \<times> u32) list"
  sched_rng :: rng

text \<open>What the peer was started with.\<close>

record peer_config =
  data_dir :: string
  playback_holdback :: nat
  local_addr :: socket_addr
  bootstrap :: socket_addr

section \<open>Manifests on disk\<close>

text \<open>\<open>Inl\<close> is an I/O error; the file system is what it left behind.\<close>

datatype io_error = ReadFailed string | WriteFailed string | RenameFailed string | SocketFailed

definition store_atomically :: "string \<Rightarrow> string \<Rightarrow> bytes \<Rightarrow> file_system \<Rightarrow> (io_error + unit) \<times> file_system" where
  "store_atomically tmp real_path data fs =
     (case fs_write tmp data fs of
        (False, fs) \<Rightarrow> (Inl (WriteFailed tmp), fs)
      | (True, fs) \<Rightarrow>
          (case fs_rename tmp real_path fs of
             (False, fs) \<Rightarrow> (Inl (RenameFailed tmp), fs)
           | (True, fs) \<Rightarrow> (Inr (), fs)))"

definition write_manifest :: "string \<Rightarrow> bytes \<Rightarrow> file_system \<Rightarrow> (io_error + bool) \<times> file_system" where
  "write_manifest dir data fs =
     (let real_path = path_join dir ''live.m3u8''; tmp = path_join dir ''live.m3u8.tmp'' in
      if fs_read fs real_path = Some data then (Inr False, fs)
      else
        (case store_atomically tmp real_path data fs of
           (Inl e, fs) \<Rightarrow> (Inl e, fs)
         | (Inr _, fs) \<Rightarrow> (Inr True, fs)))"

definition segment_count :: "bytes \<Rightarrow> nat" where
  "segment_count data = length (parse_manifest data)"

definition refresh_playback_manifest ::
    "host \<Rightarrow> string \<Rightarrow> nat \<Rightarrow> file_system \<Rightarrow> (io_error + unit) \<times> file_system" where
  "refresh_playback_manifest h dir holdback fs =
     (case fs_read fs (path_join dir ''live.m3u8'') of
        None \<Rightarrow> (Inl (ReadFailed (path_join dir ''live.m3u8'')), fs)
      | Some manifest \<Rightarrow>
          let playback = path_join dir ''playback.m3u8'' in
          (case playback_playlist fs dir manifest holdback of
             None \<Rightarrow> (Inr (), snd (fs_remove h playback fs))
           | Some data \<Rightarrow>
               if fs_read fs playback = Some data then (Inr (), fs)
               else store_atomically (path_join dir ''playback.m3u8.tmp'') playback data fs))"

section \<open>The queue\<close>

definition cooling_down :: "instant \<Rightarrow> string \<Rightarrow> (string \<times> instant) list \<Rightarrow> bool" where
  "cooling_down now filename failed =
     (case map_of failed filename of
        Some t \<Rightarrow> duration_since now t < FAIL_RETRY_COOLDOWN | None \<Rightarrow> False)"

text \<open>
  The source asks \<open>Path::exists\<close>; the file system here holds no directories, so that is
  \<open>fs_is_file\<close>.
\<close>

fun enqueue_missing ::
    "file_system \<Rightarrow> instant \<Rightarrow> string \<Rightarrow> (string \<times> instant) list \<Rightarrow> string list
      \<Rightarrow> string list \<times> string set \<Rightarrow> string list \<times> string set" where
  "enqueue_missing fs now dir failed [] qs = qs"
| "enqueue_missing fs now dir failed (filename # rest) (queue, qd) =
     (if \<not> valid_filename filename \<or> fs_is_file fs (path_join dir filename) \<or> filename \<in> qd
          \<or> cooling_down now filename failed
      then enqueue_missing fs now dir failed rest (queue, qd)
      else enqueue_missing fs now dir failed rest (filename # queue, insert filename qd))"

definition sync_queue :: "file_system \<Rightarrow> instant \<Rightarrow> string \<Rightarrow> bytes \<Rightarrow> scheduler \<Rightarrow> scheduler" where
  "sync_queue fs now dir manifest sch =
     (let segments = parse_manifest manifest;
          queue = filter (\<lambda>f. f \<in> set segments) (pull_queue sch);
          qd = Set.filter (\<lambda>f. f \<in> set segments) (queued sch) in
      case enqueue_missing fs now dir (failed_at sch) segments (queue, qd) of
        (queue, qd) \<Rightarrow> sch\<lparr>pull_queue := queue, queued := qd\<rparr>)"

section \<open>Choosing a peer\<close>

record 'f float_ops =
  fl_lit :: "nat \<Rightarrow> nat \<Rightarrow> 'f"
  fl_add :: "'f \<Rightarrow> 'f \<Rightarrow> 'f"
  fl_sub :: "'f \<Rightarrow> 'f \<Rightarrow> 'f"
  fl_mul :: "'f \<Rightarrow> 'f \<Rightarrow> 'f"
  fl_div :: "'f \<Rightarrow> 'f \<Rightarrow> 'f"
  fl_max :: "'f \<Rightarrow> 'f \<Rightarrow> 'f"
  fl_le :: "'f \<Rightarrow> 'f \<Rightarrow> bool"

definition inflight :: "scheduler \<Rightarrow> socket_addr \<Rightarrow> nat" where
  "inflight sch p = length (filter (\<lambda>(_, j). job_peer j = p) (active sch))"

definition cooling :: "scheduler \<Rightarrow> string \<Rightarrow> instant \<Rightarrow> socket_addr \<Rightarrow> bool" where
  "cooling sch filename now p =
     (case map_of (retry_after sch) (filename, p) of Some until \<Rightarrow> now < until | None \<Rightarrow> False)"

definition untried :: "scheduler \<Rightarrow> string \<Rightarrow> socket_addr \<Rightarrow> bool" where
  "untried sch filename p =
     (case map_of (tried sch) filename of Some s \<Rightarrow> p \<notin> s | None \<Rightarrow> True)"

definition prefer_advertised_peers ::
    "socket_addr list \<Rightarrow> socket_addr \<Rightarrow> (socket_addr \<Rightarrow> bool option) \<Rightarrow> socket_addr list" where
  "prefer_advertised_peers candidates boot availability =
     (let peer_sources = filter (\<lambda>p. availability p = Some True) (filter (\<lambda>p. p \<noteq> boot) candidates) in
      if peer_sources \<noteq> [] then peer_sources
      else if availability boot = Some True then filter (\<lambda>p. p = boot) candidates
      else candidates)"

definition is_bootstrap_recovery_candidate :: "bool \<Rightarrow> bool \<Rightarrow> bool \<Rightarrow> bool \<Rightarrow> bool \<Rightarrow> bool" where
  "is_bootstrap_recovery_candidate bootstrap_known is_cooling inflight_limit_reached not_tried authoritative \<longleftrightarrow>
     bootstrap_known \<and> \<not> is_cooling \<and> \<not> inflight_limit_reached \<and> not_tried \<and> authoritative"

definition open_candidates ::
    "peer_config \<Rightarrow> instant \<Rightarrow> node \<Rightarrow> scheduler \<Rightarrow> string \<Rightarrow> socket_addr list" where
  "open_candidates cfg now nd sch filename =
     (let candidates = map (effective_addr nd) (map fst (n_peers nd));
          candidates = filter (\<lambda>p. p \<noteq> local_addr cfg) candidates;
          candidates = filter (\<lambda>p. p = bootstrap cfg \<or> peer_may_have nd p filename now) candidates;
          candidates = filter (\<lambda>p. \<not> cooling sch filename now p \<and> untried sch filename p) candidates in
      filter (\<lambda>p. inflight sch p < MAX_INFLIGHT_PER_PEER) candidates)"

definition pull_candidates ::
    "peer_config \<Rightarrow> instant \<Rightarrow> node \<Rightarrow> scheduler \<Rightarrow> string \<Rightarrow> socket_addr list" where
  "pull_candidates cfg now nd sch filename =
     (let candidates = open_candidates cfg now nd sch filename;
          parent_sources = filter (\<lambda>p. peer_availability nd p filename now = Some True)
            (filter (\<lambda>p. p \<in> parents sch) candidates);
          candidates = (if parent_sources \<noteq> [] then parent_sources else candidates) in
      prefer_advertised_peers candidates (bootstrap cfg) (\<lambda>p. peer_availability nd p filename now))"

definition weight ::
    "'f float_ops \<Rightarrow> peer_config \<Rightarrow> instant \<Rightarrow> node \<Rightarrow> scheduler \<Rightarrow> string \<Rightarrow> socket_addr \<Rightarrow> 'f" where
  "weight fl cfg now nd sch filename p =
     (let k = fl_lit fl (inflight sch p) 1;
          score = (case map_of (n_peer_stats nd) p of
            Some s \<Rightarrow> fl_lit fl (unat (ps_score s)) 1 | None \<Rightarrow> fl_lit fl 50 1);
          fresh = (if path_fresh nd p now then fl_lit fl 125 100 else fl_lit fl 7 10);
          availability = (case peer_availability nd p filename now of
            Some True \<Rightarrow> fl_lit fl 3 1 | Some False \<Rightarrow> fl_lit fl 0 1 | None \<Rightarrow> fl_lit fl 35 100);
          w = fl_mul fl (fl_mul fl (fl_div fl (fl_add fl score (fl_lit fl 1 1)) (fl_add fl k (fl_lit fl 1 1)))
                fresh) availability;
          w = (if p = bootstrap cfg then fl_mul fl w (fl_lit fl 9 10) else w) in
      fl_max fl w (fl_lit fl 1 1000))"

fun roulette :: "'f float_ops \<Rightarrow> (socket_addr \<Rightarrow> 'f) \<Rightarrow> 'f \<Rightarrow> socket_addr list \<Rightarrow> socket_addr option" where
  "roulette fl w roll [] = None"
| "roulette fl w roll (p # ps) =
     (let roll = fl_sub fl roll (w p) in
      if fl_le fl roll (fl_lit fl 0 1) then Some p else roulette fl w roll ps)"

definition pick_peer ::
    "'f float_ops \<Rightarrow> peer_config \<Rightarrow> instant \<Rightarrow> node \<Rightarrow> scheduler \<Rightarrow> string \<Rightarrow> socket_addr option \<times> rng" where
  "pick_peer fl cfg now nd sch filename =
     (let candidates = pull_candidates cfg now nd sch filename; boot = bootstrap cfg in
      if candidates = [] then
        (if is_bootstrap_recovery_candidate (known_peer nd boot) (cooling sch filename now boot)
              (inflight sch boot \<ge> MAX_INFLIGHT_PER_PEER) (untried sch filename boot) True
         then Some boot else None, sched_rng sch)
      else
        let w = weight fl cfg now nd sch filename;
            total = foldl (fl_add fl) (fl_lit fl 0 1) (map w candidates) in
        case rng_next (sched_rng sch) of
          (x, r) \<Rightarrow>
            (roulette fl w
               (fl_mul fl (fl_div fl (fl_lit fl (unat x) 1) (fl_lit fl (2 ^ 64 - 1) 1)) total) candidates, r))"

section \<open>Finished downloads\<close>

record finished_job =
  fin_id :: u16
  fin_job :: active_job
  fin_ok :: bool
  fin_unresponsive :: bool
  fin_not_found :: bool
  fin_retryable :: bool
  fin_latency :: "u64 option"
  fin_bytes :: "u64 option"

definition finished_of :: "registry \<Rightarrow> u16 \<times> active_job \<Rightarrow> finished_job option" where
  "finished_of reg = (\<lambda>(tid, job).
     map_option (\<lambda>outcome.
       \<lparr>fin_id = tid, fin_job = job, fin_ok = (outcome = Inr ()),
        fin_unresponsive = receiver_unresponsive reg tid,
        fin_not_found = receiver_not_found reg tid,
        fin_retryable = receiver_retryable_not_found reg tid,
        fin_latency = receiver_first_packet_ms reg tid,
        fin_bytes = receiver_saved_bytes reg tid\<rparr>)
     (receiver_outcome reg tid))"

definition finished_jobs :: "node \<Rightarrow> scheduler \<Rightarrow> finished_job list" where
  "finished_jobs nd sch = List.map_filter (finished_of (n_registry nd)) (active sch)"

definition pull_result_of :: "finished_job \<Rightarrow> pull_result" where
  "pull_result_of f =
     (if fin_ok f then PullOk
      else if fin_unresponsive f then PullTimeout
      else if fin_retryable f then PullRetryableNotFound
      else if fin_not_found f then PullNotFound
      else PullOther)"

definition forget_segment :: "string \<Rightarrow> scheduler \<Rightarrow> scheduler" where
  "forget_segment filename sch =
     sch\<lparr>queued := queued sch - {filename}, tried := AList.delete filename (tried sch)\<rparr>"

definition on_saved ::
    "host \<Rightarrow> peer_config \<Rightarrow> instant \<Rightarrow> active_job \<Rightarrow> node \<times> file_system \<times> scheduler
      \<Rightarrow> node \<times> file_system \<times> scheduler" where
  "on_saved h cfg now job = (\<lambda>(nd, fs, sch).
     let fs = snd (refresh_playback_manifest h (data_dir cfg) (playback_holdback cfg) fs);
         nd = announce_availability fs now nd;
         sch = forget_segment (job_filename job) sch in
     (nd, fs, sch\<lparr>retry_after := filter (\<lambda>((f, _), _). f \<noteq> job_filename job) (retry_after sch),
                  unresponsive_hits := AList.delete (job_peer job) (unresponsive_hits sch)\<rparr>))"

definition on_retryable :: "instant \<Rightarrow> active_job \<Rightarrow> scheduler \<Rightarrow> scheduler" where
  "on_retryable now job sch =
     (let f = job_filename job; p = job_peer job in
      sch\<lparr>retry_after := AList.update (f, p) (now + FAIL_RETRY_COOLDOWN) (retry_after sch),
          tried := (case map_of (tried sch) f of
            Some s \<Rightarrow> AList.update f (s - {p}) (tried sch) | None \<Rightarrow> tried sch),
          pull_queue := pull_queue sch @ [f]\<rparr>)"

definition count_unresponsive :: "socket_addr \<Rightarrow> node \<times> scheduler \<Rightarrow> node \<times> scheduler" where
  "count_unresponsive p = (\<lambda>(nd, sch).
     let hits = (case map_of (unresponsive_hits sch) p of Some n \<Rightarrow> n | None \<Rightarrow> 0) + 1 in
     if hits \<ge> EVICT_AFTER_UNRESPONSIVE
     then (drop_peer p nd, sch\<lparr>unresponsive_hits := AList.delete p (unresponsive_hits sch)\<rparr>)
     else (nd, sch\<lparr>unresponsive_hits := AList.update p hits (unresponsive_hits sch)\<rparr>))"

definition on_failed ::
    "peer_config \<Rightarrow> instant \<Rightarrow> bool \<Rightarrow> active_job \<Rightarrow> node \<times> scheduler \<Rightarrow> node \<times> scheduler" where
  "on_failed cfg now unresponsive job = (\<lambda>(nd, sch).
     (case (if unresponsive then count_unresponsive (job_peer job) (nd, sch)
            else (nd, sch\<lparr>unresponsive_hits := AList.delete (job_peer job) (unresponsive_hits sch)\<rparr>)) of
        (nd, sch) \<Rightarrow>
          let f = job_filename job in
          if list_ex (\<lambda>p. p \<noteq> local_addr cfg \<and> untried sch f p) (map fst (n_peers nd))
          then (nd, sch\<lparr>pull_queue := f # pull_queue sch\<rparr>)
          else
            let sch = forget_segment f sch in
            (nd, sch\<lparr>failed_at := AList.update f now (failed_at sch)\<rparr>)))"

definition finish_job ::
    "host \<Rightarrow> peer_config \<Rightarrow> instant \<Rightarrow> finished_job \<Rightarrow> node \<times> file_system \<times> scheduler
      \<Rightarrow> node \<times> file_system \<times> scheduler" where
  "finish_job h cfg now fin = (\<lambda>(nd, fs, sch).
     let sch = sch\<lparr>active := AList.delete (fin_id fin) (active sch)\<rparr>;
         nd = (if fin_ok fin then nd
               else nd\<lparr>n_registry := remove_receiver (fin_id fin) (n_registry nd)\<rparr>);
         result = pull_result_of fin;
         job = fin_job fin;
         nd = record_pull now (job_peer job) result (fin_latency fin)
                (case fin_bytes fin of Some b \<Rightarrow> b | None \<Rightarrow> 0) nd in
     if result = PullOk then on_saved h cfg now job (nd, fs, sch)
     else if result = PullRetryableNotFound then (nd, fs, on_retryable now job sch)
     else
       (case on_failed cfg now (fin_unresponsive fin) job (nd, sch) of (nd, sch) \<Rightarrow> (nd, fs, sch)))"

definition reap_jobs ::
    "host \<Rightarrow> peer_config \<Rightarrow> instant \<Rightarrow> node \<times> file_system \<times> scheduler \<Rightarrow> node \<times> file_system \<times> scheduler" where
  "reap_jobs h cfg now = (\<lambda>(nd, fs, sch). fold (finish_job h cfg now) (finished_jobs nd sch) (nd, fs, sch))"

section \<open>Filling the free slots\<close>

text \<open>
  The loop over the queue; every round takes one name from it or ends. \<open>clocks k\<close> are the
  readings the search for a transfer id may take in the round with \<open>k\<close> names left; \<open>None\<close>
  where they do not yield one.
\<close>

fun fill_slots ::
    "'f float_ops \<Rightarrow> settings \<Rightarrow> (nat \<Rightarrow> nat option list) \<Rightarrow> peer_config \<Rightarrow> instant \<Rightarrow> string list
      \<Rightarrow> node \<times> scheduler \<Rightarrow> (node \<times> scheduler) option" where
  "fill_slots fl st clocks cfg now [] (nd, sch) = Some (nd, sch\<lparr>pull_queue := []\<rparr>)"
| "fill_slots fl st clocks cfg now (filename # queue) (nd, sch) =
     (if length (active sch) \<ge> MAX_PARALLEL_DOWNLOADS
      then Some (nd, sch\<lparr>pull_queue := filename # queue\<rparr>)
      else
        (case pick_peer fl cfg now nd sch filename of
           (None, r) \<Rightarrow> Some (nd, sch\<lparr>pull_queue := filename # queue, sched_rng := r\<rparr>)
         | (Some peer, r) \<Rightarrow>
             let sch = sch\<lparr>sched_rng := r\<rparr> in
             (case start_receiver st (clocks (length queue)) now peer (data_dir cfg) filename
                     (n_registry nd) (node_net nd) of
                None \<Rightarrow> None
              | Some (None, reg, n) \<Rightarrow>
                  Some (with_registry (reg, n) nd, sch\<lparr>pull_queue := filename # queue\<rparr>)
              | Some (Some tid, reg, n) \<Rightarrow>
                  fill_slots fl st clocks cfg now queue
                    (with_registry (reg, n) nd,
                     sch\<lparr>active := AList.update tid \<lparr>job_filename = filename, job_peer = peer\<rparr> (active sch),
                         tried := AList.update filename
                           (insert peer (case map_of (tried sch) filename of Some s \<Rightarrow> s | None \<Rightarrow> {}))
                           (tried sch)\<rparr>))))"

definition schedule_jobs ::
    "'f float_ops \<Rightarrow> settings \<Rightarrow> host \<Rightarrow> (nat \<Rightarrow> nat option list) \<Rightarrow> peer_config \<Rightarrow> instant
      \<Rightarrow> node \<times> file_system \<times> scheduler \<Rightarrow> (node \<times> file_system \<times> scheduler) option" where
  "schedule_jobs fl st h clocks cfg now w =
     (case reap_jobs h cfg now w of
        (nd, fs, sch) \<Rightarrow>
          map_option (\<lambda>(nd, sch). (nd, fs, sch))
            (fill_slots fl st clocks cfg now (pull_queue sch) (nd, sch)))"

section \<open>What the queue holds\<close>

lemma enqueue_missing_spec:
  "\<exists>new. enqueue_missing fs now dir failed segs (queue, qd) = (new @ queue, qd \<union> set new)
     \<and> distinct new \<and> subseq (rev new) segs
     \<and> set new = {f \<in> set segs. valid_filename f \<and> \<not> fs_is_file fs (path_join dir f) \<and> f \<notin> qd
          \<and> \<not> cooling_down now f failed}"
proof (induction segs arbitrary: queue qd)
  case (Cons f segs)
  let ?skip = "\<not> valid_filename f \<or> fs_is_file fs (path_join dir f) \<or> f \<in> qd \<or> cooling_down now f failed"
  show ?case
  proof (cases ?skip)
    case True
    obtain new where "enqueue_missing fs now dir failed segs (queue, qd) = (new @ queue, qd \<union> set new)"
      "distinct new" "subseq (rev new) segs"
      "set new = {f \<in> set segs. valid_filename f \<and> \<not> fs_is_file fs (path_join dir f) \<and> f \<notin> qd
          \<and> \<not> cooling_down now f failed}"
      using Cons.IH by blast
    with True show ?thesis by (intro exI [of _ new]) auto
  next
    case False
    obtain new where new: "enqueue_missing fs now dir failed segs (f # queue, insert f qd)
        = (new @ f # queue, insert f qd \<union> set new)" "distinct new" "subseq (rev new) segs"
      "set new = {g \<in> set segs. valid_filename g \<and> \<not> fs_is_file fs (path_join dir g) \<and> g \<notin> insert f qd
          \<and> \<not> cooling_down now g failed}"
      using Cons.IH by blast
    then have "f \<notin> set new" by auto
    with False new show ?thesis by (intro exI [of _ "new @ [f]"]) auto
  qed
qed simp

text \<open>C27: After a manifest the queue holds only names of it: the names already waiting that are
  still in it, in their order, behind every valid segment that is missing on disk, not marked
  as queued and not cooling down from a failure, each of these once, the newest first; and
  the set of queued names grows by just them. A name waits twice afterwards exactly if it did
  so before or waited without being marked as queued, so never while every waiting name is
  marked and waits once, which the manifest then keeps so. The other case does occur: a
  download that fails after its name has left the manifest is queued again without the mark,
  and the next manifest that lists the name queues it a second time.\<close>

theorem sync_queue_spec:
  "let segs = parse_manifest manifest; sch' = sync_queue fs now dir manifest sch in
    \<exists>new. pull_queue sch' = new @ filter (\<lambda>f. f \<in> set segs) (pull_queue sch)
      \<and> distinct new \<and> subseq (rev new) segs
      \<and> set new = {f \<in> set segs. valid_filename f \<and> \<not> fs_is_file fs (path_join dir f) \<and> f \<notin> queued sch
           \<and> \<not> cooling_down now f (failed_at sch)}
      \<and> queued sch' = (queued sch \<inter> set segs) \<union> set new
      \<and> (distinct (pull_queue sch') \<longleftrightarrow>
           distinct (filter (\<lambda>f. f \<in> set segs) (pull_queue sch)) \<and> set new \<inter> set (pull_queue sch) = {})
      \<and> (distinct (pull_queue sch) \<and> set (pull_queue sch) \<subseteq> queued sch \<longrightarrow>
           distinct (pull_queue sch') \<and> set (pull_queue sch') \<subseteq> queued sch')"
proof -
  let ?segs = "parse_manifest manifest"
  obtain new where new: "enqueue_missing fs now dir (failed_at sch) ?segs
      (filter (\<lambda>f. f \<in> set ?segs) (pull_queue sch), Set.filter (\<lambda>f. f \<in> set ?segs) (queued sch))
      = (new @ filter (\<lambda>f. f \<in> set ?segs) (pull_queue sch), Set.filter (\<lambda>f. f \<in> set ?segs) (queued sch) \<union> set new)"
    "distinct new" "subseq (rev new) ?segs"
    "set new = {f \<in> set ?segs. valid_filename f \<and> \<not> fs_is_file fs (path_join dir f)
       \<and> f \<notin> Set.filter (\<lambda>f. f \<in> set ?segs) (queued sch) \<and> \<not> cooling_down now f (failed_at sch)}"
    using enqueue_missing_spec by blast
  have q: "Set.filter (\<lambda>f. f \<in> set ?segs) (queued sch) = queued sch \<inter> set ?segs" by auto
  have "set new \<subseteq> set ?segs" using new(4) by blast
  then have "set new \<inter> set (filter (\<lambda>f. f \<in> set ?segs) (pull_queue sch)) = set new \<inter> set (pull_queue sch)" by auto
  then have d: "distinct (new @ filter (\<lambda>f. f \<in> set ?segs) (pull_queue sch)) \<longleftrightarrow>
      distinct (filter (\<lambda>f. f \<in> set ?segs) (pull_queue sch)) \<and> set new \<inter> set (pull_queue sch) = {}"
    using new(2) by (simp del: set_filter)
  have sch': "pull_queue (sync_queue fs now dir manifest sch) = new @ filter (\<lambda>f. f \<in> set ?segs) (pull_queue sch)"
    "queued (sync_queue fs now dir manifest sch) = (queued sch \<inter> set ?segs) \<union> set new"
    using new(1) by (simp_all add: sync_queue_def Let_def) auto
  show ?thesis
    unfolding Let_def sch' d
    by (rule exI [of _ new]) (use new in auto)
qed

text \<open>The case where a name is queued twice: a failed download whose name has left the manifest.\<close>

theorem requeued_twice:
  assumes "f \<notin> queued sch" and "list_ex (\<lambda>p. p \<noteq> local_addr cfg \<and> untried sch f p) (map fst (n_peers nd))"
    and "on_failed cfg now False \<lparr>job_filename = f, job_peer = p\<rparr> (nd, sch) = (nd', sch1)"
    and "f \<in> set (parse_manifest manifest)" and "valid_filename f" and "\<not> fs_is_file fs (path_join dir f)"
    and "\<not> cooling_down now f (failed_at sch)"
  shows "\<not> distinct (pull_queue (sync_queue fs now dir manifest sch1))"
proof -
  have s: "f \<in> set (pull_queue sch1)" "f \<notin> queued sch1" "failed_at sch1 = failed_at sch"
    using assms(1-3) by (auto simp: on_failed_def untried_def Let_def)
  obtain new where "enqueue_missing fs now dir (failed_at sch1) (parse_manifest manifest)
      (filter (\<lambda>f. f \<in> set (parse_manifest manifest)) (pull_queue sch1),
       Set.filter (\<lambda>f. f \<in> set (parse_manifest manifest)) (queued sch1))
      = (new @ filter (\<lambda>f. f \<in> set (parse_manifest manifest)) (pull_queue sch1),
         Set.filter (\<lambda>f. f \<in> set (parse_manifest manifest)) (queued sch1) \<union> set new)"
    "set new = {f \<in> set (parse_manifest manifest). valid_filename f \<and> \<not> fs_is_file fs (path_join dir f)
       \<and> f \<notin> Set.filter (\<lambda>f. f \<in> set (parse_manifest manifest)) (queued sch1) \<and> \<not> cooling_down now f (failed_at sch1)}"
    using enqueue_missing_spec by blast
  then show ?thesis using s assms(4-7) by (auto simp: sync_queue_def Let_def)
qed

section \<open>Who is asked\<close>

definition usable :: "instant \<Rightarrow> scheduler \<Rightarrow> string \<Rightarrow> socket_addr \<Rightarrow> bool" where
  "usable now sch filename p \<longleftrightarrow>
     untried sch filename p \<and> \<not> cooling sch filename now p \<and> inflight sch p < MAX_INFLIGHT_PER_PEER"

lemma effective_known: "known_peer nd q \<Longrightarrow> known_peer nd (effective_addr nd q)"
  by (auto simp: effective_addr_def known_peer_def map_of_eq_None_iff image_iff split: option.split
      dest!: find_in_set) force

lemma prefer_sub: "set (prefer_advertised_peers cs boot av) \<subseteq> set cs"
  by (auto simp: prefer_advertised_peers_def Let_def)

lemma roulette_member: "roulette fl w roll ps = Some p \<Longrightarrow> p \<in> set ps"
  by (induction ps arbitrary: roll) (auto simp: Let_def split: if_splits)

definition base_candidates ::
    "peer_config \<Rightarrow> instant \<Rightarrow> node \<Rightarrow> scheduler \<Rightarrow> string \<Rightarrow> socket_addr set" where
  "base_candidates cfg now nd sch filename =
     {p \<in> effective_addr nd ` {q. known_peer nd q}. p \<noteq> local_addr cfg
        \<and> (p = bootstrap cfg \<or> peer_may_have nd p filename now) \<and> usable now sch filename p}"

lemma open_candidates_base: "set (open_candidates cfg now nd sch f) = base_candidates cfg now nd sch f"
proof -
  have k: "fst ` set (n_peers nd) = {q. known_peer nd q}" by (auto simp: known_peer_def map_of_eq_None_iff)
  show ?thesis by (auto simp: open_candidates_def base_candidates_def usable_def simp flip: k)
qed

lemma pull_candidates_base: "set (pull_candidates cfg now nd sch f) \<subseteq> base_candidates cfg now nd sch f"
  unfolding pull_candidates_def Let_def
  by (rule order_trans [OF prefer_sub]) (auto simp flip: open_candidates_base)

lemma prefer_no_boot:
  "q \<in> set cs \<Longrightarrow> q \<noteq> boot \<Longrightarrow> av q = Some True \<Longrightarrow>
     prefer_advertised_peers cs boot av \<noteq> [] \<and> boot \<notin> set (prefer_advertised_peers cs boot av)"
  by (auto simp: prefer_advertised_peers_def Let_def filter_empty_conv)

lemma pull_candidates_advertised:
  assumes "q \<in> base_candidates cfg now nd sch f" and "q \<noteq> bootstrap cfg"
    and "peer_availability nd q f now = Some True" and "bootstrap cfg \<notin> parents sch"
  shows "pull_candidates cfg now nd sch f \<noteq> [] \<and> bootstrap cfg \<notin> set (pull_candidates cfg now nd sch f)"
proof -
  let ?cs = "open_candidates cfg now nd sch f"
  let ?par = "filter (\<lambda>p. peer_availability nd p f now = Some True) (filter (\<lambda>p. p \<in> parents sch) ?cs)"
  have "\<exists>m \<in> set (if ?par \<noteq> [] then ?par else ?cs). m \<noteq> bootstrap cfg \<and> peer_availability nd m f now = Some True"
  proof (cases "?par = []")
    case True
    with assms(1,2,3) show ?thesis by (auto simp flip: open_candidates_base)
  next
    case False
    then have "hd ?par \<in> set ?par" by (rule hd_in_set)
    with False assms(4) show ?thesis by (intro bexI [of _ "hd ?par"]) auto
  qed
  then obtain m where m: "m \<in> set (if ?par \<noteq> [] then ?par else ?cs)" "m \<noteq> bootstrap cfg"
    "peer_availability nd m f now = Some True" by blast
  show ?thesis
    unfolding pull_candidates_def Let_def by (rule prefer_no_boot [OF m(1,2)]) (rule m(3))
qed

lemma pick_peer_cases:
  assumes "pick_peer fl cfg now nd sch f = (Some p, r)"
  shows "p \<in> base_candidates cfg now nd sch f \<and> p \<in> set (pull_candidates cfg now nd sch f)
    \<or> pull_candidates cfg now nd sch f = [] \<and> p = bootstrap cfg \<and> known_peer nd p \<and> usable now sch f p"
proof (cases "pull_candidates cfg now nd sch f = []")
  case True
  with assms show ?thesis
    by (auto simp: pick_peer_def Let_def is_bootstrap_recovery_candidate_def usable_def split: if_splits)
next
  case False
  with assms have "p \<in> set (pull_candidates cfg now nd sch f)"
    by (auto simp: pick_peer_def Let_def dest: roulette_member split: prod.splits)
  then show ?thesis using pull_candidates_base by blast
qed

lemma pick_peer_usable:
  "pick_peer fl cfg now nd sch f = (Some p, r) \<Longrightarrow> known_peer nd p \<and> usable now sch f p"
  using pick_peer_cases [of fl cfg now nd sch f p r] effective_known by (auto simp: base_candidates_def)

text \<open>C23: Whatever the floating-point arithmetic and the random draw, the peer chosen for a
  segment is a known one that has not been tried for it, is not cooling down and has fewer
  than two downloads running. Unless it is the bootstrap node it is not this node itself and
  is not known to lack the segment; and the bootstrap node, when it is no assigned parent, is
  chosen only if no other peer that could be asked (untried, not cooling, with a free slot)
  advertises the segment.\<close>

theorem pick_peer_sound:
  assumes "pick_peer fl cfg now nd sch f = (Some p, r)"
  shows "known_peer nd p \<and> untried sch f p \<and> \<not> cooling sch f now p \<and> inflight sch p < 2
    \<and> (p \<noteq> bootstrap cfg \<longrightarrow> p \<noteq> local_addr cfg \<and> peer_may_have nd p f now)
    \<and> (p = bootstrap cfg \<and> bootstrap cfg \<notin> parents sch \<longrightarrow>
         \<not> (\<exists>q. known_peer nd q \<and> effective_addr nd q \<noteq> bootstrap cfg \<and> effective_addr nd q \<noteq> local_addr cfg
              \<and> usable now sch f (effective_addr nd q)
              \<and> peer_availability nd (effective_addr nd q) f now = Some True))"
proof -
  let ?cs = "pull_candidates cfg now nd sch f"
  have adv: "?cs \<noteq> [] \<and> bootstrap cfg \<notin> set ?cs"
    if "known_peer nd q" "effective_addr nd q \<noteq> bootstrap cfg" "effective_addr nd q \<noteq> local_addr cfg"
      "usable now sch f (effective_addr nd q)" "peer_availability nd (effective_addr nd q) f now = Some True"
      "bootstrap cfg \<notin> parents sch" for q
    using that by (intro pull_candidates_advertised [of "effective_addr nd q"])
      (auto simp: base_candidates_def peer_may_have_def)
  show ?thesis
    using pick_peer_cases [OF assms] pick_peer_usable [OF assms] adv
    by (auto simp: base_candidates_def usable_def MAX_INFLIGHT_PER_PEER_def)
qed

definition demo_config :: peer_config where
  "demo_config = \<lparr>data_dir = ''/d'', playback_holdback = 3, local_addr = V4 0x7F000001 4444,
     bootstrap = V4 0x7F000001 3333\<rparr>"

definition idle_scheduler :: scheduler where
  "idle_scheduler = \<lparr>active = [], pull_queue = [], queued = {}, tried = [], failed_at = [], retry_after = [],
     parents = {}, unresponsive_hits = [], sched_rng = 1\<rparr>"

text \<open>Exact arithmetic, one of the possible ones.\<close>

definition exact_ops :: "rat float_ops" where
  "exact_ops = \<lparr>fl_lit = (\<lambda>n d. of_nat n / of_nat d), fl_add = (+), fl_sub = (-), fl_mul = (*), fl_div = (/),
     fl_max = max, fl_le = (\<le>)\<rparr>"

theorem sync_queue_spec_witness:
  "distinct (pull_queue (sync_queue demo_disk 9 ''/d'' (as_bytes ''b'') idle_scheduler))
   \<and> ''b'' \<in> queued (sync_queue demo_disk 9 ''/d'' (as_bytes ''b'') idle_scheduler)"
proof -
  have "str_ok ''b''" by (simp add: str_ok_def as_bytes_def)
  then have p: "parse_manifest (as_bytes ''b'') = [''b'']"
    by (simp add: parse_manifest_def str_lines_def str_trim_def white_space_def of_bytes_def ends_with_def
        suffix_to_prefix)
  from sync_queue_spec [of "as_bytes ''b''" demo_disk 9 "''/d''" idle_scheduler] show ?thesis
    by (auto simp: Let_def p idle_scheduler_def valid_filename_def is_ascii_graphic_def fs_is_file_def
        fs_read_def demo_disk_def cooling_down_def)
qed

definition joined_node :: node where
  "joined_node = register_peer 5 (bootstrap demo_config) ''m'' demo_node"

lemma joined_candidates: "pull_candidates demo_config 9 joined_node idle_scheduler ''b'' = [bootstrap demo_config]"
  by (simp add: pull_candidates_def open_candidates_def prefer_advertised_peers_def joined_node_def demo_node_def
      register_peer_def node_new_def demo_config_def idle_scheduler_def effective_addr_def is_lan_path_def
      cooling_def untried_def inflight_def MAX_INFLIGHT_PER_PEER_def peer_availability_def segment_number_def
      strip_prefix_def Let_def)

lemma exact_single: "roulette exact_ops w
    (fl_mul exact_ops (fl_div exact_ops (fl_lit exact_ops (unat (x :: u64)) 1)
      (fl_lit exact_ops (2 ^ 64 - 1) 1)) (foldl (fl_add exact_ops) (fl_lit exact_ops 0 1) (map w [p]))) [p] = Some p"
  if "0 \<le> w p"
proof -
  have "unat x < 2 ^ 64" using unsigned_less [of x, where ?'a = nat] by simp
  then have "of_nat (unat x) \<le> (of_nat (2 ^ 64 - 1) :: rat)" by (simp only: of_nat_le_iff)
  then have "of_nat (unat x) / of_nat (2 ^ 64 - 1) \<le> (1 :: rat)" by (simp add: divide_le_eq_1)
  with that have "of_nat (unat x) / of_nat (2 ^ 64 - 1) * w p \<le> w p"
    using mult_right_mono [of "of_nat (unat x) / of_nat (2 ^ 64 - 1)" 1 "w p"] by simp
  then show ?thesis by (simp add: exact_ops_def)
qed

lemma joined_pick:
  "fst (pick_peer exact_ops demo_config 9 joined_node idle_scheduler ''b'') = Some (bootstrap demo_config)"
proof -
  have "0 \<le> weight exact_ops demo_config 9 joined_node idle_scheduler ''b'' p" for p
    by (simp add: weight_def exact_ops_def Let_def)
  from exact_single [where w = "weight exact_ops demo_config 9 joined_node idle_scheduler ''b''", OF this] show ?thesis
    by (simp only: pick_peer_def joined_candidates Let_def list.simps if_False fst_conv simp_thms split: prod.split)
qed

theorem pick_peer_sound_witness:
  "untried idle_scheduler ''b'' (bootstrap demo_config) \<and> inflight idle_scheduler (bootstrap demo_config) < 2"
proof -
  obtain r where "pick_peer exact_ops demo_config 9 joined_node idle_scheduler ''b'' = (Some (bootstrap demo_config), r)"
    using joined_pick by (metis prod.collapse)
  from pick_peer_sound [OF this] show ?thesis by blast
qed

section \<open>The slots\<close>

text \<open>At most four downloads run, each under its own id, and at most two from one peer.\<close>

definition sched_ok :: "scheduler \<Rightarrow> bool" where
  "sched_ok sch \<longleftrightarrow> distinct (map fst (active sch)) \<and> length (active sch) \<le> MAX_PARALLEL_DOWNLOADS
     \<and> (\<forall>p. inflight sch p \<le> MAX_INFLIGHT_PER_PEER)"

lemma sched_ok_frame [simp]:
  "sched_ok (sch\<lparr>pull_queue := q\<rparr>) = sched_ok sch" "sched_ok (sch\<lparr>queued := qd\<rparr>) = sched_ok sch"
  "sched_ok (sch\<lparr>tried := t\<rparr>) = sched_ok sch" "sched_ok (sch\<lparr>failed_at := fa\<rparr>) = sched_ok sch"
  "sched_ok (sch\<lparr>retry_after := ra\<rparr>) = sched_ok sch" "sched_ok (sch\<lparr>parents := ps\<rparr>) = sched_ok sch"
  "sched_ok (sch\<lparr>unresponsive_hits := uh\<rparr>) = sched_ok sch" "sched_ok (sch\<lparr>sched_rng := r\<rparr>) = sched_ok sch"
  by (simp_all add: sched_ok_def inflight_def)

lemma filter_delete_le: "length (filter P (AList.delete k xs)) \<le> length (filter P xs)"
  by (induction xs) auto

lemma filter_update_le:
  "length (filter P (AList.update k v xs)) \<le> length (filter P xs) + (if P (k, v) then 1 else 0)"
  by (induction xs) auto

lemma sched_ok_delete: "sched_ok sch \<Longrightarrow> sched_ok (sch\<lparr>active := AList.delete tid (active sch)\<rparr>)"
  using filter_delete_le [of _ tid "active sch"] length_delete_le [of tid "active sch"]
  by (fastforce simp: sched_ok_def inflight_def AList.distinct_delete intro: le_trans)

lemma sched_ok_start:
  assumes "sched_ok sch" and "length (active sch) < MAX_PARALLEL_DOWNLOADS"
    and "inflight sch p < MAX_INFLIGHT_PER_PEER"
  shows "sched_ok (sch\<lparr>active := AList.update tid \<lparr>job_filename = f, job_peer = p\<rparr> (active sch)\<rparr>)"
proof -
  let ?xs = "AList.update tid \<lparr>job_filename = f, job_peer = p\<rparr> (active sch)"
  have "length (filter (\<lambda>(_, j). job_peer j = q) ?xs) \<le> MAX_INFLIGHT_PER_PEER" for q
    using filter_update_le [of "\<lambda>(_, j). job_peer j = q" tid "\<lparr>job_filename = f, job_peer = p\<rparr>" "active sch"]
      assms(1,3)
    by (cases "p = q") (auto simp: sched_ok_def inflight_def intro: le_trans)
  with assms show ?thesis
    by (auto simp: sched_ok_def inflight_def AList.distinct_update length_update)
qed

lemma forget_segment_ok [simp]: "sched_ok (forget_segment f sch) = sched_ok sch"
  by (simp add: forget_segment_def)

lemma on_retryable_ok [simp]: "sched_ok (on_retryable now job sch) = sched_ok sch"
  by (simp add: on_retryable_def Let_def)

lemma on_failed_ok:
  "node_ok nd \<Longrightarrow> sched_ok sch \<Longrightarrow> on_failed cfg now u job (nd, sch) = (nd', sch')
    \<Longrightarrow> node_ok nd' \<and> sched_ok sch'"
  by (auto simp: on_failed_def count_unresponsive_def Let_def drop_peer_ok split: prod.splits if_splits)

lemma on_saved_ok:
  "node_ok nd \<Longrightarrow> sched_ok sch \<Longrightarrow> on_saved h cfg now job (nd, fs, sch) = (nd', fs', sch')
    \<Longrightarrow> node_ok nd' \<and> sched_ok sch'"
  by (auto simp: on_saved_def Let_def)

lemma finish_job_ok:
  assumes "node_ok nd" and "sched_ok sch" and "finish_job h cfg now fin (nd, fs, sch) = (nd', fs', sch')"
  shows "node_ok nd' \<and> sched_ok sch'"
proof -
  let ?nd0 = "if fin_ok fin then nd else nd\<lparr>n_registry := remove_receiver (fin_id fin) (n_registry nd)\<rparr>"
  let ?nd = "record_pull now (job_peer (fin_job fin)) (pull_result_of fin) (fin_latency fin)
    (case fin_bytes fin of Some b \<Rightarrow> b | None \<Rightarrow> 0) ?nd0"
  let ?sch = "sch\<lparr>active := AList.delete (fin_id fin) (active sch)\<rparr>"
  have "registry_ok (n_registry nd)" using assms(1) by (simp add: node_ok_def)
  then have nd: "node_ok ?nd"
    using assms(1) by (intro record_pull_ok) (simp add: remove_receiver_ok)
  have sch: "sched_ok ?sch" using assms(2) by (rule sched_ok_delete)
  consider "pull_result_of fin = PullOk" | "pull_result_of fin = PullRetryableNotFound"
    | "pull_result_of fin \<noteq> PullOk" "pull_result_of fin \<noteq> PullRetryableNotFound" by blast
  then show ?thesis
  proof cases
    case 1
    with assms(3) have "on_saved h cfg now (fin_job fin) (?nd, fs, ?sch) = (nd', fs', sch')"
      by (simp only: finish_job_def prod.case Let_def simp_thms if_True)
    then show ?thesis by (rule on_saved_ok [OF nd sch])
  next
    case 2
    with assms(3) have "nd' = ?nd" "sch' = on_retryable now (fin_job fin) ?sch"
      by (simp_all only: finish_job_def prod.case Let_def if_True if_False simp_thms prod.inject pull_result.simps)
    with nd sch show ?thesis by simp
  next
    case 3
    obtain nd1 sch1 where f: "on_failed cfg now (fin_unresponsive fin) (fin_job fin) (?nd, ?sch) = (nd1, sch1)"
      by (metis surj_pair)
    with assms(3) 3 have "nd' = nd1" "sch' = sch1"
      by (simp_all only: finish_job_def prod.case Let_def if_False prod.inject)
    with on_failed_ok [OF nd sch f] show ?thesis by simp
  qed
qed

lemma finish_jobs_ok:
  "node_ok nd \<Longrightarrow> sched_ok sch \<Longrightarrow> fold (finish_job h cfg now) fins (nd, fs, sch) = (nd', fs', sch')
    \<Longrightarrow> node_ok nd' \<and> sched_ok sch'"
proof (induction fins arbitrary: nd fs sch)
  case (Cons fin fins)
  obtain nd1 fs1 sch1 where f: "finish_job h cfg now fin (nd, fs, sch) = (nd1, fs1, sch1)"
    by (metis prod_cases3)
  from finish_job_ok [OF Cons.prems(1,2) f] Cons.prems(3) show ?case
    by (intro Cons.IH [of nd1 sch1 fs1]) (simp_all add: f)
qed simp

lemma reap_jobs_ok:
  assumes "node_ok nd" and "sched_ok sch" and "reap_jobs h cfg now (nd, fs, sch) = (nd', fs', sch')"
  shows "node_ok nd' \<and> sched_ok sch'"
  by (rule finish_jobs_ok [OF assms(1,2)]) (use assms(3) in \<open>simp add: reap_jobs_def\<close>)

lemma fresh_id_exists:
  assumes "registry_ok reg" and "34 \<le> card (random_id ` set clocks)"
  shows "\<exists>tid. fresh_id reg clocks = Some tid"
proof (rule ccontr)
  assume "\<nexists>tid. fresh_id reg clocks = Some tid"
  then have "random_id ` set clocks \<subseteq> {tid. \<not> id_free reg tid}"
    using fresh_id_None [of reg clocks] by auto
  then have "card (random_id ` set clocks) \<le> 33"
    using taken_ids [OF assms(1)] by (meson card_mono le_trans)
  with assms(2) show False by simp
qed

lemma start_receiver_step:
  assumes "registry_ok reg" and "34 \<le> card (random_id ` set clocks)"
  shows "\<exists>res reg' n'. start_receiver st clocks now dst dir f reg n = Some (res, reg', n') \<and> registry_ok reg'"
proof -
  obtain tid where "fresh_id reg clocks = Some tid" using fresh_id_exists [OF assms] by blast
  then have "\<exists>res reg' n'. start_receiver st clocks now dst dir f reg n = Some (res, reg', n')"
    by (simp add: start_receiver_def Let_def)
  then show ?thesis using start_receiver_ok [OF assms(1)] by blast
qed

lemma fill_slots_step:
  assumes "node_ok nd" and "sched_ok sch" and clocks: "\<And>k. 34 \<le> card (random_id ` set (clocks k))"
  shows "\<exists>nd' sch'. fill_slots fl st clocks cfg now queue (nd, sch) = Some (nd', sch')
    \<and> node_ok nd' \<and> sched_ok sch'"
  using assms(1,2)
proof (induction queue arbitrary: nd sch)
  case (Cons f queue)
  have reg: "registry_ok (n_registry nd)" using Cons.prems(1) by (simp add: node_ok_def)
  obtain op r where pick: "pick_peer fl cfg now nd sch f = (op, r)" by (cases "pick_peer fl cfg now nd sch f")
  show ?case
  proof (cases "length (active sch) \<ge> MAX_PARALLEL_DOWNLOADS \<or> op = None")
    case True
    with Cons.prems pick show ?thesis by auto
  next
    case False
    then obtain p where p: "op = Some p" by auto
    obtain res reg' n' where start: "start_receiver st (clocks (length queue)) now p (data_dir cfg) f
        (n_registry nd) (node_net nd) = Some (res, reg', n')" "registry_ok reg'"
      using start_receiver_step [OF reg clocks] by blast
    have nd: "node_ok (with_registry (reg', n') nd)" using Cons.prems(1) start(2) by (rule with_registry_ok)
    have "sched_ok (sch\<lparr>sched_rng := r, active := AList.update tid \<lparr>job_filename = f, job_peer = p\<rparr> (active sch)\<rparr>)" for tid
      using sched_ok_start [of "sch\<lparr>sched_rng := r\<rparr>" p tid f] pick_peer_usable [OF pick [unfolded p]] Cons.prems(2) False
      by (simp add: usable_def inflight_def)
    then have "sched_ok (sch\<lparr>sched_rng := r, active := AList.update tid \<lparr>job_filename = f, job_peer = p\<rparr> (active sch),
        tried := t\<rparr>)" for tid t by simp
    with False start(1) nd Cons.prems(2) Cons.IH show ?thesis
      by (cases res) (simp_all add: pick p Let_def)
  qed
qed simp

lemma schedule_jobs_step:
  assumes "node_ok nd" and "sched_ok sch" and "\<And>k. 34 \<le> card (random_id ` set (clocks k))"
  shows "\<exists>nd' fs' sch'. schedule_jobs fl st h clocks cfg now (nd, fs, sch) = Some (nd', fs', sch')
    \<and> node_ok nd' \<and> sched_ok sch'"
proof -
  obtain nd1 fs1 sch1 where reap: "reap_jobs h cfg now (nd, fs, sch) = (nd1, fs1, sch1)" by (metis prod_cases3)
  from reap_jobs_ok [OF assms(1,2) reap] have ok: "node_ok nd1" "sched_ok sch1" by simp_all
  have "\<exists>nd' sch'. fill_slots fl st clocks cfg now (pull_queue sch1) (nd1, sch1) = Some (nd', sch')
      \<and> node_ok nd' \<and> sched_ok sch'"
    by (rule fill_slots_step [OF ok assms(3)])
  then obtain nd' sch'
    where "fill_slots fl st clocks cfg now (pull_queue sch1) (nd1, sch1) = Some (nd', sch')"
      "node_ok nd'" "sched_ok sch'" by blast
  with reap show ?thesis by (simp add: schedule_jobs_def)
qed

text \<open>C26: One round of the scheduler always returns and keeps its bounds: at most four downloads
  run, each under its own transfer id, at most two of them from one peer, and the node stays
  well formed, given clock readings that yield 34 different ids for each search.\<close>

theorem schedule_bounded:
  assumes "node_ok nd" and "sched_ok sch" and "\<And>k. 34 \<le> card (random_id ` set (clocks k))"
  shows "\<exists>nd' fs' sch'. schedule_jobs fl st h clocks cfg now (nd, fs, sch) = Some (nd', fs', sch')
    \<and> length (active sch') \<le> 4 \<and> distinct (map fst (active sch'))
    \<and> (\<forall>p. length (filter (\<lambda>(_, j). job_peer j = p) (active sch')) \<le> 2)
    \<and> node_ok nd'"
  using schedule_jobs_step [OF assms, where fl = fl and st = st and h = h and cfg = cfg and now = now and fs = fs]
  by (fastforce simp: sched_ok_def inflight_def MAX_PARALLEL_DOWNLOADS_def MAX_INFLIGHT_PER_PEER_def)

theorem schedule_bounded_witness:
  "\<exists>nd' fs' sch'. schedule_jobs exact_ops (settings_from_env (\<lambda>_. None)) demo_host (\<lambda>_. map Some [0..<34])
     demo_config 9 (joined_node, demo_disk, idle_scheduler\<lparr>pull_queue := [''b'']\<rparr>) = Some (nd', fs', sch')
     \<and> length (active sch') \<le> 4"
proof -
  have "node_ok joined_node" unfolding joined_node_def demo_node_def by (intro register_peer_ok node_new_ok)
  moreover have "sched_ok (idle_scheduler\<lparr>pull_queue := [''b'']\<rparr>)"
    by (simp add: sched_ok_def idle_scheduler_def inflight_def)
  ultimately show ?thesis
    using schedule_bounded [of joined_node "idle_scheduler\<lparr>pull_queue := [''b'']\<rparr>" "\<lambda>_. map Some [0..<34]"
        exact_ops "settings_from_env (\<lambda>_. None)" demo_host demo_config 9 demo_disk] clocks_34 by blast
qed

end
