(* ===== verification/Mainloop.thy ===== *)
theory Mainloop
  imports Scheduler
begin

text \<open>
  The two main loops: the peer's, \<open>run\<close> of \<open>src/src/peer.rs\<close>, and the master's, \<open>run\<close> and
  \<open>run_loop\<close> of \<open>src/src/server.rs\<close>. One round waits for a datagram no longer than the
  earliest deadline, handles it and runs the timers. What the operating system does in a
  round, and when, is an argument. Errors end the loop, as the code's \<open>?\<close> does.
\<close>

datatype received = Datagram bytes socket_addr | Nothing_received | Receive_error

text \<open>A round: what is received and when, when the timers run, the ids' clock readings.\<close>

record round_input =
  rd_received :: received
  rd_time :: instant
  rd_tick_time :: instant
  rd_clocks :: "nat \<Rightarrow> nat option list"
  rd_host :: host

text \<open>How long to wait: to the earliest deadline, but at least a nanosecond.\<close>

definition wait_for :: "instant \<Rightarrow> instant \<Rightarrow> duration" where
  "wait_for now d = (let rem = duration_since d now in if rem = 0 then from_nanos 1 else rem)"

section \<open>The master\<close>

text \<open>\<open>Path::parent\<close> of a file's path; a bare name has the empty path as its parent.\<close>

definition path_parent :: "string \<Rightarrow> string" where
  "path_parent p =
     (let d = dropWhile (\<lambda>c. c \<noteq> CHR ''/'') (rev p) in
      if d = [] then []
      else let e = dropWhile (\<lambda>c. c = CHR ''/'') d in if e = [] then ''/'' else rev e)"

text \<open>\<open>None\<close>: the manifest is missing and the process exits.\<close>

definition master_new ::
    "(string \<Rightarrow> string option) \<Rightarrow> nat option \<Rightarrow> instant \<Rightarrow> socket_addr option \<Rightarrow> udp_socket \<Rightarrow> string
      \<Rightarrow> string \<Rightarrow> fault_injector \<Rightarrow> bool \<Rightarrow> file_system \<Rightarrow> node option" where
  "master_new env clock now la sock name manifest_path flt http fs =
     (if fs_is_file fs manifest_path
      then Some (node_new env clock now la sock name ''master'' manifest_path (path_parent manifest_path) flt
        (if http then Some \<lparr>snap_lines = [], snap_json = [], snap_metrics = []\<rparr> else None))
      else None)"

definition master_timeout :: "instant \<Rightarrow> node \<Rightarrow> duration option" where
  "master_timeout now nd = map_option (wait_for now) (node_next_deadline now nd)"

text \<open>The outer option is a panic, \<open>Inl\<close> the error the loop returns.\<close>

definition master_round ::
    "settings \<Rightarrow> (string \<Rightarrow> string option) \<Rightarrow> round_input \<Rightarrow> node \<times> file_system
      \<Rightarrow> (io_error + node \<times> file_system) option" where
  "master_round st env rd w =
     (case rd_received rd of
        Receive_error \<Rightarrow> Some (Inl SocketFailed)
      | Nothing_received \<Rightarrow> map_option Inr (node_tick st (rd_host rd) (rd_tick_time rd) w)
      | Datagram d src \<Rightarrow>
          (case node_handle st env (rd_time rd) d src w of
             None \<Rightarrow> None
           | Some (_, w) \<Rightarrow> map_option Inr (node_tick st (rd_host rd) (rd_tick_time rd) w)))"

section \<open>The peer's state\<close>

record peer_state =
  lp_node :: node
  lp_sched :: scheduler
  lp_handshake_done :: bool
  lp_next_handshake_retry :: instant
  lp_poll_timeout :: "instant option"
  lp_pending :: "(socket_addr \<times> instant) list"
  lp_next_poll :: instant
  lp_next_peerlist :: instant

definition handshake_request :: "node \<Rightarrow> message" where
  "handshake_request nd =
     HandshakeRequest (case n_claimed nd of Some a \<Rightarrow> a | None \<Rightarrow> V4 0 0) (n_name nd)"

definition draw_ms :: "u64 \<Rightarrow> scheduler \<Rightarrow> duration \<times> scheduler" where
  "draw_ms bound sch =
     (case rng_next (sched_rng sch) of (x, r) \<Rightarrow> (from_millis (unat (x mod bound)), sch\<lparr>sched_rng := r\<rparr>))"

text \<open>
  The peer as it enters the loop. \<open>upnp\<close> is the endpoint the router granted, if any.
\<close>

definition peer_new ::
    "(string \<Rightarrow> string option) \<Rightarrow> nat option \<Rightarrow> instant \<Rightarrow> udp_socket \<Rightarrow> string \<Rightarrow> peer_config
      \<Rightarrow> fault_injector \<Rightarrow> socket_addr option \<Rightarrow> host \<Rightarrow> file_system \<Rightarrow> peer_state \<times> file_system" where
  "peer_new env clock now sock name cfg flt upnp h fs =
     (let dir = data_dir cfg;
          fs = snd (fs_remove h (path_join dir ''playback.m3u8'') fs);
          nd = node_new env clock now (Some (local_addr cfg)) sock name ''peer'' (path_join dir ''live.m3u8'')
                 dir flt (Some \<lparr>snap_lines = [], snap_json = [], snap_metrics = []\<rparr>);
          nd = (if env ''QSTREAM_NO_UPNP'' = None
                then (case upnp of Some addr \<Rightarrow> set_claimed addr nd | None \<Rightarrow> nd) else nd);
          sch = \<lparr>active = [], pull_queue = [], queued = {}, tried = [], failed_at = [], retry_after = [],
                 parents = {}, unresponsive_hits = [], sched_rng = rng_new 0 clock\<rparr>;
          (stagger, sch) = draw_ms POLL_JITTER_MS sch;
          (stagger2, sch) = draw_ms (2 * POLL_JITTER_MS) sch in
      (\<lparr>lp_node = node_send (encode (handshake_request nd)) (bootstrap cfg) now nd, lp_sched = sch,
        lp_handshake_done = False, lp_next_handshake_retry = now + HANDSHAKE_TIMEOUT,
        lp_poll_timeout = None, lp_pending = [], lp_next_poll = now + stagger,
        lp_next_peerlist = now + stagger2\<rparr>, fs))"

definition peer_deadlines :: "instant \<Rightarrow> peer_state \<Rightarrow> instant list" where
  "peer_deadlines now ps =
     (case node_next_deadline now (lp_node ps) of Some d \<Rightarrow> [d] | None \<Rightarrow> [])
     @ map snd (lp_pending ps)
     @ (if lp_handshake_done ps then [] else [lp_next_handshake_retry ps])
     @ [lp_next_poll ps, lp_next_peerlist ps]
     @ (case lp_poll_timeout ps of Some t \<Rightarrow> [t] | None \<Rightarrow> [])"

definition peer_timeout :: "instant \<Rightarrow> peer_state \<Rightarrow> duration" where
  "peer_timeout now ps = wait_for now (Min (set (peer_deadlines now ps)))"

section \<open>What a datagram means to the peer\<close>

definition on_handshake_response ::
    "peer_config \<Rightarrow> instant \<Rightarrow> socket_addr \<Rightarrow> string \<Rightarrow> peer_state \<Rightarrow> peer_state" where
  "on_handshake_response cfg now src name ps =
     (let ps = ps\<lparr>lp_node := register_peer now src name (lp_node ps)\<rparr>;
          ps = (if src = bootstrap cfg \<and> \<not> lp_handshake_done ps
                then ps\<lparr>lp_handshake_done := True, lp_next_poll := now, lp_next_peerlist := now\<rparr> else ps) in
      ps\<lparr>lp_pending := AList.delete src (lp_pending ps)\<rparr>)"

definition on_manifest_response ::
    "host \<Rightarrow> peer_config \<Rightarrow> instant \<Rightarrow> bytes \<Rightarrow> peer_state \<times> file_system
      \<Rightarrow> io_error + peer_state \<times> file_system" where
  "on_manifest_response h cfg now data = (\<lambda>(ps, fs).
     if data = [] then Inr (ps\<lparr>lp_poll_timeout := None\<rparr>, fs)
     else
       (case write_manifest (data_dir cfg) data fs of
          (Inl e, fs) \<Rightarrow> Inl e
        | (Inr False, fs) \<Rightarrow> Inr (ps\<lparr>lp_poll_timeout := None\<rparr>, fs)
        | (Inr True, fs) \<Rightarrow>
            let ps = ps\<lparr>lp_sched := sync_queue fs now (data_dir cfg) data (lp_sched ps)\<rparr> in
            (case refresh_playback_manifest h (data_dir cfg) (playback_holdback cfg) fs of
               (Inl e, fs) \<Rightarrow> Inl e
             | (Inr _, fs) \<Rightarrow> Inr (ps\<lparr>lp_poll_timeout := None\<rparr>, fs))))"

definition remote_me :: "node \<Rightarrow> bool" where
  "remote_me nd = (case n_my_public nd of Some a \<Rightarrow> remote_public a | None \<Rightarrow> False)"

definition skip_entry :: "peer_config \<Rightarrow> bool \<Rightarrow> socket_addr \<times> u8 \<Rightarrow> bool" where
  "skip_entry cfg remote = (\<lambda>(peer, flags).
     peer = local_addr cfg \<or> addr_port peer = 0
     \<or> remote \<and> \<not> remote_public peer
     \<or> flags AND PEER_SAME_IP \<noteq> 0 \<and> remote)"

definition on_peer_entry ::
    "peer_config \<Rightarrow> instant \<Rightarrow> bool \<Rightarrow> socket_addr \<times> u8 \<Rightarrow> peer_state \<Rightarrow> peer_state" where
  "on_peer_entry cfg now remote e ps =
     (if skip_entry cfg remote e then ps
      else
        (case e of (peer, flags) \<Rightarrow>
           let sch = lp_sched ps;
               ps = (if flags AND PEER_PARENT \<noteq> 0
                     then ps\<lparr>lp_sched := sch\<lparr>parents := insert peer (parents sch)\<rparr>\<rparr> else ps) in
           if known_peer (lp_node ps) peer \<or> map_of (lp_pending ps) peer \<noteq> None then ps
           else ps\<lparr>lp_pending := AList.update peer (now + HANDSHAKE_TIMEOUT) (lp_pending ps),
                   lp_node := node_send (encode (handshake_request (lp_node ps))) peer now (lp_node ps)\<rparr>))"

definition on_peerlist_response ::
    "peer_config \<Rightarrow> instant \<Rightarrow> (socket_addr \<times> u8) list \<Rightarrow> peer_state \<Rightarrow> peer_state" where
  "on_peerlist_response cfg now peers ps =
     (let ps = ps\<lparr>lp_sched := (lp_sched ps)\<lparr>parents := {}\<rparr>\<rparr>;
          remote = remote_me (lp_node ps) in
      fold (on_peer_entry cfg now remote) peers ps)"

fun on_event ::
    "host \<Rightarrow> peer_config \<Rightarrow> instant \<Rightarrow> event \<Rightarrow> peer_state \<times> file_system \<Rightarrow> io_error + peer_state \<times> file_system" where
  "on_event h cfg now (HandshakeResponseEvent src name) (ps, fs) =
     Inr (on_handshake_response cfg now src name ps, fs)"
| "on_event h cfg now (ManifestResponseEvent data) (ps, fs) = on_manifest_response h cfg now data (ps, fs)"
| "on_event h cfg now (PeerlistResponseEvent peers) (ps, fs) =
     Inr (on_peerlist_response cfg now peers ps, fs)"
| "on_event h cfg now NoEvent (ps, fs) = Inr (ps, fs)"

definition peer_receive ::
    "settings \<Rightarrow> (string \<Rightarrow> string option) \<Rightarrow> peer_config \<Rightarrow> round_input \<Rightarrow> peer_state \<times> file_system
      \<Rightarrow> (io_error + peer_state \<times> file_system) option" where
  "peer_receive st env cfg rd = (\<lambda>(ps, fs).
     (case rd_received rd of
        Receive_error \<Rightarrow> Some (Inl SocketFailed)
      | Nothing_received \<Rightarrow> Some (Inr (ps, fs))
      | Datagram d src \<Rightarrow>
          (case node_handle st env (rd_time rd) d src (lp_node ps, fs) of
             None \<Rightarrow> None
           | Some (ev, nd, fs) \<Rightarrow> Some (on_event (rd_host rd) cfg (rd_time rd) ev (ps\<lparr>lp_node := nd\<rparr>, fs)))))"

section \<open>The peer's timers\<close>

definition retry_handshake :: "peer_config \<Rightarrow> instant \<Rightarrow> peer_state \<Rightarrow> peer_state" where
  "retry_handshake cfg now ps =
     (if \<not> lp_handshake_done ps \<and> now \<ge> lp_next_handshake_retry ps
      then ps\<lparr>lp_node := node_send (encode (handshake_request (lp_node ps))) (bootstrap cfg) now (lp_node ps),
              lp_next_handshake_retry := now + HANDSHAKE_TIMEOUT\<rparr>
      else ps)"

definition expire_handshakes :: "instant \<Rightarrow> peer_state \<Rightarrow> peer_state" where
  "expire_handshakes now ps =
     (let late = map fst (filter (\<lambda>(_, deadline). now \<ge> deadline) (lp_pending ps)) in
      ps\<lparr>lp_node := fold drop_peer late (lp_node ps),
         lp_pending := filter (\<lambda>(_, deadline). \<not> now \<ge> deadline) (lp_pending ps)\<rparr>)"

definition poll_manifest :: "peer_config \<Rightarrow> instant \<Rightarrow> peer_state \<Rightarrow> peer_state" where
  "poll_manifest cfg now ps =
     (if now \<ge> lp_next_poll ps then
        (case draw_ms POLL_JITTER_MS (lp_sched ps) of
           (jitter, sch) \<Rightarrow>
             ps\<lparr>lp_node := node_send (encode ManifestRequest) (bootstrap cfg) now (lp_node ps),
                lp_sched := sch,
                lp_next_poll := now + MANIFEST_POLL_INTERVAL + jitter,
                lp_poll_timeout := Some (now + MANIFEST_RESPONSE_TIMEOUT)\<rparr>)
      else ps)"

definition expire_poll :: "instant \<Rightarrow> peer_state \<Rightarrow> peer_state" where
  "expire_poll now ps =
     (case lp_poll_timeout ps of
        Some t \<Rightarrow> if now \<ge> t then ps\<lparr>lp_poll_timeout := None\<rparr> else ps
      | None \<Rightarrow> ps)"

definition poll_peerlist :: "peer_config \<Rightarrow> instant \<Rightarrow> peer_state \<Rightarrow> peer_state" where
  "poll_peerlist cfg now ps =
     (if now \<ge> lp_next_peerlist ps then
        (case draw_ms (2 * POLL_JITTER_MS) (lp_sched ps) of
           (jitter, sch) \<Rightarrow>
             ps\<lparr>lp_node := node_send (encode PeerlistRequest) (bootstrap cfg) now (lp_node ps),
                lp_sched := sch,
                lp_next_peerlist := now + PEERLIST_POLL_INTERVAL + jitter\<rparr>)
      else ps)"

definition peer_timers :: "peer_config \<Rightarrow> instant \<Rightarrow> peer_state \<Rightarrow> peer_state" where
  "peer_timers cfg now ps =
     (let ps = ps\<lparr>lp_node := prune_peers PEER_TTL now (lp_node ps)\<rparr> in
      poll_peerlist cfg now (expire_poll now (poll_manifest cfg now
        (expire_handshakes now (retry_handshake cfg now ps)))))"

definition peer_schedule ::
    "'f float_ops \<Rightarrow> settings \<Rightarrow> peer_config \<Rightarrow> round_input \<Rightarrow> peer_state \<times> file_system
      \<Rightarrow> (peer_state \<times> file_system) option" where
  "peer_schedule fl st cfg rd = (\<lambda>(ps, fs).
     (case schedule_jobs fl st (rd_host rd) (rd_clocks rd) cfg (rd_tick_time rd) (lp_node ps, fs, lp_sched ps) of
        None \<Rightarrow> None
      | Some (nd, fs, sch) \<Rightarrow>
          Some (ps\<lparr>lp_sched := sch,
                   lp_node := nd\<lparr>n_queue_depth := of_nat (length (pull_queue sch)),
                                 n_inflight := of_nat (length (active sch))\<rparr>\<rparr>, fs)))"

definition peer_round ::
    "'f float_ops \<Rightarrow> settings \<Rightarrow> (string \<Rightarrow> string option) \<Rightarrow> peer_config \<Rightarrow> round_input
      \<Rightarrow> peer_state \<times> file_system \<Rightarrow> (io_error + peer_state \<times> file_system) option" where
  "peer_round fl st env cfg rd w =
     (case peer_receive st env cfg rd w of
        None \<Rightarrow> None
      | Some (Inl e) \<Rightarrow> Some (Inl e)
      | Some (Inr (ps, fs)) \<Rightarrow>
          (case node_tick st (rd_host rd) (rd_tick_time rd) (lp_node ps, fs) of
             None \<Rightarrow> None
           | Some (nd, fs) \<Rightarrow>
               map_option Inr
                 (peer_schedule fl st cfg rd (peer_timers cfg (rd_tick_time rd) (ps\<lparr>lp_node := nd\<rparr>), fs))))"

section \<open>How long the loops wait\<close>

lemma wait_for_pos: "0 < wait_for now d"
  by (simp add: wait_for_def from_nanos_def Let_def)

text \<open>C40: The master's read timeout knows only transfers and delayed datagrams. With none of
  them it waits for the next datagram without limit, whatever the times of the next
  keep-alive, pruning and snapshot are, so an idle master sends no PING at its interval.\<close>

theorem idle_master_sleeps:
  assumes "active_count (n_registry nd) = 0" and "delayed (n_fault nd) = []" and "held (n_fault nd) = None"
  shows "master_timeout now nd = None"
  using assms
  by (simp add: master_timeout_def node_next_deadline_def registry_next_deadline_def fault_next_deadline_def
      active_count_def)

theorem idle_master_sleeps_witness:
  "master_timeout (from_secs 3600) (register_peer 0 (V4 1 2) ''p'' demo_node) = None
   \<and> n_next_ping (register_peer 0 (V4 1 2) ''p'' demo_node) \<le> from_secs 3600"
proof
  let ?nd = "register_peer 0 (V4 1 2) ''p'' demo_node"
  have "active_count (n_registry ?nd) = 0" "delayed (n_fault ?nd) = []" "held (n_fault ?nd) = None"
    by (simp_all add: register_peer_def demo_node_def node_new_def registry_new_def active_count_def demo_net_def
        fault_from_env_def)
  then show "master_timeout (from_secs 3600) ?nd = None" by (rule idle_master_sleeps)
  show "n_next_ping ?nd \<le> from_secs 3600"
    by (simp add: register_peer_def demo_node_def node_new_def PING_INTERVAL_def from_secs_def)
qed

section \<open>The peer's loop keeps its invariant\<close>

definition peer_ok :: "peer_state \<Rightarrow> bool" where
  "peer_ok ps \<longleftrightarrow> node_ok (lp_node ps) \<and> sched_ok (lp_sched ps) \<and> distinct (map fst (lp_pending ps))"

lemma peer_ok_frame [simp]:
  "peer_ok (ps\<lparr>lp_handshake_done := b\<rparr>) = peer_ok ps" "peer_ok (ps\<lparr>lp_next_handshake_retry := t\<rparr>) = peer_ok ps"
  "peer_ok (ps\<lparr>lp_poll_timeout := o1\<rparr>) = peer_ok ps" "peer_ok (ps\<lparr>lp_next_poll := t\<rparr>) = peer_ok ps"
  "peer_ok (ps\<lparr>lp_next_peerlist := t\<rparr>) = peer_ok ps"
  by (simp_all add: peer_ok_def)

lemma peer_ok_node [simp]: "peer_ok ps \<Longrightarrow> peer_ok (ps\<lparr>lp_node := nd\<rparr>) = node_ok nd"
  by (simp add: peer_ok_def)

lemma peer_ok_sched [simp]: "peer_ok ps \<Longrightarrow> peer_ok (ps\<lparr>lp_sched := sch\<rparr>) = sched_ok sch"
  by (simp add: peer_ok_def)

lemma peer_okD: "peer_ok ps \<Longrightarrow> node_ok (lp_node ps)" "peer_ok ps \<Longrightarrow> sched_ok (lp_sched ps)"
  by (simp_all add: peer_ok_def)

lemma sync_queue_ok [simp]: "sched_ok (sync_queue fs now dir m sch) = sched_ok sch"
  by (simp add: sync_queue_def Let_def split: prod.split)

lemma on_handshake_response_ok: "peer_ok ps \<Longrightarrow> peer_ok (on_handshake_response cfg now src name ps)"
  by (auto simp: on_handshake_response_def Let_def peer_ok_def register_peer_ok AList.distinct_delete)

lemma on_manifest_response_ok:
  "peer_ok ps \<Longrightarrow> on_manifest_response h cfg now data (ps, fs) = Inr (ps', fs') \<Longrightarrow> peer_ok ps'"
  by (auto simp: on_manifest_response_def Let_def peer_okD split: if_splits prod.splits sum.splits bool.splits)

lemma on_peer_entry_ok: "peer_ok ps \<Longrightarrow> peer_ok (on_peer_entry cfg now r e ps)"
  by (auto simp: on_peer_entry_def Let_def peer_ok_def AList.distinct_update split: prod.split)

lemma on_peerlist_response_ok: "peer_ok ps \<Longrightarrow> peer_ok (on_peerlist_response cfg now peers ps)"
proof -
  have "peer_ok (fold (on_peer_entry cfg now r) es ps)" if "peer_ok ps" for r es ps
    using that by (induction es arbitrary: ps) (simp_all add: on_peer_entry_ok)
  then show "peer_ok ps \<Longrightarrow> peer_ok (on_peerlist_response cfg now peers ps)"
    by (simp add: on_peerlist_response_def Let_def peer_okD)
qed

lemma on_event_ok: "peer_ok ps \<Longrightarrow> on_event h cfg now ev (ps, fs) = Inr (ps', fs') \<Longrightarrow> peer_ok ps'"
  by (cases ev) (auto simp: on_handshake_response_ok on_peerlist_response_ok dest: on_manifest_response_ok)

lemma draw_ms_ok: "draw_ms b sch = (d, sch') \<Longrightarrow> sched_ok sch' = sched_ok sch"
  by (auto simp: draw_ms_def split: prod.splits)

lemma expire_handshakes_ok: "peer_ok ps \<Longrightarrow> peer_ok (expire_handshakes now ps)"
proof -
  have "node_ok (fold drop_peer as nd)" if "node_ok nd" for as nd
    using that by (induction as arbitrary: nd) (simp_all add: drop_peer_ok)
  then show "peer_ok ps \<Longrightarrow> peer_ok (expire_handshakes now ps)"
    by (simp add: expire_handshakes_def peer_ok_def Let_def distinct_map_filter)
qed

lemma poll_manifest_ok: "peer_ok ps \<Longrightarrow> peer_ok (poll_manifest cfg now ps)"
  by (auto simp: poll_manifest_def peer_okD draw_ms_ok split: prod.split)

lemma poll_peerlist_ok: "peer_ok ps \<Longrightarrow> peer_ok (poll_peerlist cfg now ps)"
  by (auto simp: poll_peerlist_def peer_okD draw_ms_ok split: prod.split)

lemma peer_timers_ok: "peer_ok ps \<Longrightarrow> peer_ok (peer_timers cfg now ps)"
  by (simp add: peer_timers_def Let_def poll_peerlist_ok poll_manifest_ok expire_handshakes_ok expire_poll_def
      retry_handshake_def prune_peers_ok peer_okD split: option.split)

lemma peer_new_ok: "peer_ok (fst (peer_new env clock now sock name cfg flt upnp h fs))"
proof -
  have "sched_ok \<lparr>active = [], pull_queue = [], queued = {}, tried = [], failed_at = [], retry_after = [],
      parents = {}, unresponsive_hits = [], sched_rng = r\<rparr>" for r
    by (simp add: sched_ok_def inflight_def)
  then show ?thesis
    by (auto simp: peer_new_def Let_def peer_ok_def node_new_ok set_claimed_def draw_ms_ok split: prod.split option.split)
qed

lemma dispatch_manifest:
  "dispatch st env now src m (nd, fs) = Some (ManifestResponseEvent data, nd', fs') \<Longrightarrow> m = ManifestResponse data \<and> fs' = fs"
  by (cases m) (auto simp: Let_def split: option.splits prod.splits)

lemma handle_manifest:
  "node_handle st env now d src (nd, fs) = Some (ManifestResponseEvent data, nd', fs')
    \<Longrightarrow> decode d = Inr (ManifestResponse data) \<and> fs' = fs"
  by (auto simp: node_handle_def dest: dispatch_manifest split: sum.splits)

lemma manifest_event:
  assumes "decode d = Inr (ManifestResponse data)"
    and "node_handle st env now d src (nd, fs) = Some (ev, nd', fs')"
  shows "ev = ManifestResponseEvent data \<and> fs' = fs"
  using assms by (auto simp: node_handle_def)

text \<open>
  Where storing a file by way of a temporary one fails: the operating system refuses the
  write or the rename. Otherwise the contents are under the final name.
\<close>

definition store_refused :: "file_system \<Rightarrow> string \<Rightarrow> string \<Rightarrow> bytes \<Rightarrow> io_error \<Rightarrow> bool" where
  "store_refused fs tmp path data e \<longleftrightarrow>
     write_failure fs tmp data \<noteq> None \<and> e = WriteFailed tmp
     \<or> write_failure fs tmp data = None \<and> \<not> rename_ok fs tmp path \<and> e = RenameFailed tmp"

definition stored :: "file_system \<Rightarrow> string \<Rightarrow> string \<Rightarrow> bytes \<Rightarrow> file_system" where
  "stored fs tmp path data =
     fs\<lparr>files := AList.update path data (AList.delete tmp (AList.update tmp data (files fs)))\<rparr>"

lemma store_atomically_error:
  "(\<exists>fs'. store_atomically tmp path data fs = (Inl e, fs')) \<longleftrightarrow> store_refused fs tmp path data e"
  by (auto simp: store_atomically_def store_refused_def fs_write_def fs_rename_def fs_read_def AList.update_conv'
      split: option.splits)

lemma store_atomically_stored:
  "store_atomically tmp path data fs = (Inr u, fs') \<Longrightarrow> fs' = stored fs tmp path data \<and> \<not> store_refused fs tmp path data e"
  by (auto simp: store_atomically_def store_refused_def stored_def fs_write_def fs_rename_def fs_read_def
      AList.update_conv' split: option.splits if_splits)

lemma store_atomically_cases:
  obtains e fs' where "store_atomically tmp path data fs = (Inl e, fs')"
  | "store_atomically tmp path data fs = (Inr (), stored fs tmp path data)"
proof (cases "store_atomically tmp path data fs")
  case (Pair r fs')
  then show thesis using that store_atomically_stored by (cases r) auto
qed

text \<open>
  The errors of a received manifest: it is new and it cannot be stored, or it is stored and
  the playlist for players made from it is new and cannot be stored.
\<close>

definition manifest_refused :: "peer_config \<Rightarrow> bytes \<Rightarrow> file_system \<Rightarrow> io_error \<Rightarrow> bool" where
  "manifest_refused cfg data fs e \<longleftrightarrow>
     (let inside = path_join (data_dir cfg); fs' = stored fs (inside ''live.m3u8.tmp'') (inside ''live.m3u8'') data in
      data \<noteq> [] \<and> fs_read fs (inside ''live.m3u8'') \<noteq> Some data
      \<and> (store_refused fs (inside ''live.m3u8.tmp'') (inside ''live.m3u8'') data e
         \<or> (\<forall>e. \<not> store_refused fs (inside ''live.m3u8.tmp'') (inside ''live.m3u8'') data e)
           \<and> (\<exists>out. playback_playlist fs' (data_dir cfg) data (playback_holdback cfg) = Some out
                \<and> fs_read fs' (inside ''playback.m3u8'') \<noteq> Some out
                \<and> store_refused fs' (inside ''playback.m3u8.tmp'') (inside ''playback.m3u8'') out e)))"

lemma stored_read: "fs_read (stored fs tmp path data) path = Some data"
  by (simp add: stored_def fs_read_def AList.update_conv')

lemma on_manifest_error:
  "on_manifest_response h cfg now data (ps, fs) = Inl e \<longleftrightarrow> manifest_refused cfg data fs e"
proof -
  let ?at = "path_join (data_dir cfg)"
  let ?tmp = "?at ''live.m3u8.tmp''" and ?live = "?at ''live.m3u8''"
  let ?fs = "stored fs ?tmp ?live data"
  show ?thesis
  proof (cases "data = [] \<or> fs_read fs ?live = Some data")
    case True
    then show ?thesis by (auto simp: on_manifest_response_def manifest_refused_def write_manifest_def Let_def)
  next
    case False
    show ?thesis
    proof (rule store_atomically_cases [of ?tmp ?live data fs])
      fix e' fs'
      assume s: "store_atomically ?tmp ?live data fs = (Inl e', fs')"
      then have "\<exists>e. store_refused fs ?tmp ?live data e" using store_atomically_error by blast
      moreover have "store_refused fs ?tmp ?live data e \<longleftrightarrow> e' = e"
        using s store_atomically_error [of ?tmp ?live data fs e] by auto
      ultimately show ?thesis
        using False s by (auto simp: on_manifest_response_def manifest_refused_def write_manifest_def Let_def)
    next
      assume s: "store_atomically ?tmp ?live data fs = (Inr (), ?fs)"
      then have ok: "\<not> store_refused fs ?tmp ?live data e" for e using store_atomically_stored by blast
      have "on_manifest_response h cfg now data (ps, fs) = Inl e \<longleftrightarrow>
          (\<exists>fs'. refresh_playback_manifest h (data_dir cfg) (playback_holdback cfg) ?fs = (Inl e, fs'))"
        using False s by (auto simp: on_manifest_response_def write_manifest_def Let_def split: sum.splits prod.splits)
      also have "\<dots> \<longleftrightarrow> (\<exists>out. playback_playlist ?fs (data_dir cfg) data (playback_holdback cfg) = Some out
          \<and> fs_read ?fs (?at ''playback.m3u8'') \<noteq> Some out
          \<and> store_refused ?fs (?at ''playback.m3u8.tmp'') (?at ''playback.m3u8'') out e)"
        by (auto simp: refresh_playback_manifest_def stored_read Let_def simp flip: store_atomically_error
            split: option.splits)
      finally show ?thesis using False ok by (simp add: manifest_refused_def Let_def)
    qed
  qed
qed

text \<open>The ways a round ends the loop.\<close>

definition round_error :: "peer_config \<Rightarrow> file_system \<Rightarrow> received \<Rightarrow> io_error \<Rightarrow> bool" where
  "round_error cfg fs rc e \<longleftrightarrow>
     rc = Receive_error \<and> e = SocketFailed
     \<or> (\<exists>d src data. rc = Datagram d src \<and> decode d = Inr (ManifestResponse data) \<and> manifest_refused cfg data fs e)"

definition clocks_ok :: "round_input \<Rightarrow> bool" where
  "clocks_ok rd \<longleftrightarrow> (\<forall>k. 34 \<le> card (random_id ` set (rd_clocks rd k)))"

lemma peer_receive_step:
  assumes "peer_ok ps"
  shows "\<exists>r. peer_receive st env cfg rd (ps, fs) = Some r
    \<and> (\<forall>ps' fs'. r = Inr (ps', fs') \<longrightarrow> peer_ok ps')
    \<and> (\<forall>e. r = Inl e \<longleftrightarrow> round_error cfg fs (rd_received rd) e)"
proof (cases "rd_received rd")
  case (Datagram d src)
  obtain ev nd' fs' where h: "node_handle st env (rd_time rd) d src (lp_node ps, fs) = Some (ev, nd', fs')" "node_ok nd'"
    using node_handle_step [OF peer_okD(1) [OF assms]] by blast
  have ok: "peer_ok (ps\<lparr>lp_node := nd'\<rparr>)" using assms h(2) by simp
  let ?r = "on_event (rd_host rd) cfg (rd_time rd) ev (ps\<lparr>lp_node := nd'\<rparr>, fs')"
  have err: "?r = Inl e \<longleftrightarrow> round_error cfg fs (rd_received rd) e" for e
  proof (cases "\<exists>data. ev = ManifestResponseEvent data")
    case True
    then obtain data where ev: "ev = ManifestResponseEvent data" by blast
    with handle_manifest h(1) have "decode d = Inr (ManifestResponse data)" "fs' = fs" by blast+
    then show ?thesis by (simp add: ev on_manifest_error round_error_def Datagram)
  next
    case False
    then have "?r \<noteq> Inl e" by (cases ev) simp_all
    moreover have "decode d \<noteq> Inr (ManifestResponse data)" for data using manifest_event [OF _ h(1)] False by blast
    ultimately show ?thesis by (simp add: round_error_def Datagram)
  qed
  have "peer_receive st env cfg rd (ps, fs) = Some ?r" using h(1) Datagram by (simp add: peer_receive_def)
  with err on_event_ok [OF ok] show ?thesis by blast
qed (use assms in \<open>auto simp: peer_receive_def round_error_def\<close>)

lemma peer_round_step:
  assumes "peer_ok ps" and "clocks_ok rd"
  shows "\<exists>r. peer_round fl st env cfg rd (ps, fs) = Some r
    \<and> (\<forall>ps' fs'. r = Inr (ps', fs') \<longrightarrow> peer_ok ps')
    \<and> (\<forall>e. r = Inl e \<longleftrightarrow> round_error cfg fs (rd_received rd) e)"
proof -
  from peer_receive_step [OF assms(1), of st env cfg rd fs]
  obtain r where r: "peer_receive st env cfg rd (ps, fs) = Some r" "\<forall>ps' fs'. r = Inr (ps', fs') \<longrightarrow> peer_ok ps'"
    "\<forall>e. r = Inl e \<longleftrightarrow> round_error cfg fs (rd_received rd) e"
    by (elim exE conjE)
  show ?thesis
  proof (cases r)
    case (Inl e)
    with r(1) have "peer_round fl st env cfg rd (ps, fs) = Some r" by (simp add: peer_round_def)
    with r(3) Inl show ?thesis by (intro exI [of _ r]) simp
  next
    case (Inr w)
    then obtain ps1 fs1 where w: "r = Inr (ps1, fs1)" by (cases w) auto
    then have ok: "peer_ok ps1" using r(2) by blast
    obtain nd2 fs2 where t: "node_tick st (rd_host rd) (rd_tick_time rd) (lp_node ps1, fs1) = Some (nd2, fs2)" "node_ok nd2"
      using node_tick_step [OF peer_okD(1) [OF ok]] by blast
    let ?ps = "peer_timers cfg (rd_tick_time rd) (ps1\<lparr>lp_node := nd2\<rparr>)"
    have ok2: "peer_ok ?ps" using ok t(2) by (intro peer_timers_ok) simp
    obtain nd3 fs3 sch3 where s: "schedule_jobs fl st (rd_host rd) (rd_clocks rd) cfg (rd_tick_time rd)
        (lp_node ?ps, fs2, lp_sched ?ps) = Some (nd3, fs3, sch3)" "node_ok nd3" "sched_ok sch3"
      using schedule_jobs_step [OF peer_okD [OF ok2], of "rd_clocks rd"] assms(2) unfolding clocks_ok_def by blast
    have "peer_ok (?ps\<lparr>lp_sched := sch3, lp_node := nd3\<lparr>n_queue_depth := q, n_inflight := i\<rparr>\<rparr>)" for q i
      using ok2 s(2,3) by (simp add: peer_ok_def)
    moreover have "\<forall>e. \<not> round_error cfg fs (rd_received rd) e" using r(3) unfolding w by simp
    ultimately show ?thesis using r(1) w t(1) s(1) by (simp add: peer_round_def peer_schedule_def)
  qed
qed

text \<open>A round, or a change of the file system by another process.\<close>

inductive peer_step ::
    "'f float_ops \<Rightarrow> settings \<Rightarrow> (string \<Rightarrow> string option) \<Rightarrow> peer_config \<Rightarrow> peer_state \<times> file_system
      \<Rightarrow> peer_state \<times> file_system \<Rightarrow> bool" for fl st env cfg where
  round: "peer_round fl st env cfg rd w = Some (Inr w') \<Longrightarrow> clocks_ok rd \<Longrightarrow> peer_step fl st env cfg w w'"
| disk: "peer_step fl st env cfg (ps, fs) (ps, fs')"

inductive_cases peer_stepE: "peer_step fl st env cfg w w'"

lemma peer_step_ok: "peer_step fl st env cfg w w' \<Longrightarrow> peer_ok (fst w) \<Longrightarrow> peer_ok (fst w')"
proof (induction rule: peer_step.induct)
  case (round rd w w')
  then show ?case using peer_round_step [of "fst w" rd fl st env cfg "snd w"] by (cases w') auto
qed simp

lemma peer_reachable_ok:
  assumes "(peer_step fl st env cfg)\<^sup>*\<^sup>* w w'" and "peer_ok (fst w)"
  shows "peer_ok (fst w')"
  using assms by (induction rule: rtranclp_induct) (auto intro: peer_step_ok)

text \<open>C8: However long a peer runs, whatever it receives from whomever, at whatever times and with
  whatever on its disk, no round panics. A round ends the loop exactly for an error of the
  socket, or when a manifest is received that differs from the stored one and the operating
  system refuses to write or rename it, or takes it and refuses the changed playlist for
  players; the error says which. Every other datagram, an unchanged or empty manifest too,
  leaves the loop running. The clock must yield enough different transfer ids. In every state at most four downloads run, at most two from one
  peer, and the node's invariant holds.\<close>

theorem peer_loop_safe:
  assumes "(peer_step fl st env cfg)\<^sup>*\<^sup>* (peer_new env clock now sock name cfg flt upnp h fs0) (ps, fs)"
    and "clocks_ok rd"
  shows "peer_round fl st env cfg rd (ps, fs) \<noteq> None
    \<and> (\<forall>e. peer_round fl st env cfg rd (ps, fs) = Some (Inl e) \<longleftrightarrow> round_error cfg fs (rd_received rd) e)
    \<and> length (active (lp_sched ps)) \<le> 4
    \<and> (\<forall>p. inflight (lp_sched ps) p \<le> 2)
    \<and> node_ok (lp_node ps)"
proof -
  have ok: "peer_ok ps" using peer_reachable_ok [OF assms(1)] peer_new_ok by simp
  obtain r where "peer_round fl st env cfg rd (ps, fs) = Some r"
    "\<forall>e. r = Inl e \<longleftrightarrow> round_error cfg fs (rd_received rd) e"
    using peer_round_step [OF ok assms(2), of fl st env cfg fs] by (elim exE conjE)
  then show ?thesis
    using ok by (auto simp: peer_ok_def sched_ok_def MAX_PARALLEL_DOWNLOADS_def MAX_INFLIGHT_PER_PEER_def)
qed

definition demo_round :: round_input where
  "demo_round = \<lparr>rd_received = Datagram [1, 2, 3] (V4 1 2), rd_time = from_secs 1, rd_tick_time = from_secs 2,
     rd_clocks = (\<lambda>_. map Some [0..<34]), rd_host = demo_host\<rparr>"

theorem peer_loop_safe_witness:
  "peer_round exact_ops (settings_from_env (\<lambda>_. None)) (\<lambda>_. None) demo_config demo_round
     (peer_new (\<lambda>_. None) None 0 (snd demo_net) ''peer'' demo_config (fst demo_net) None demo_host demo_disk) \<noteq> None"
proof -
  let ?w = "peer_new (\<lambda>_. None) None 0 (snd demo_net) ''peer'' demo_config (fst demo_net) None demo_host demo_disk"
  have "clocks_ok demo_round" using clocks_34 by (simp add: clocks_ok_def demo_round_def)
  with peer_loop_safe [of exact_ops "settings_from_env (\<lambda>_. None)" "\<lambda>_. None" demo_config None 0 "snd demo_net"
      "''peer''" "fst demo_net" None demo_host demo_disk "fst ?w" "snd ?w" demo_round]
  show ?thesis by simp
qed

section \<open>The peer keeps asking\<close>

text \<open>C32: A peer never sleeps past its next manifest poll: the wait ends at the latest when the
  poll is due. Then, on a clean link, exactly one MANIFEST_REQUEST leaves for the bootstrap
  node and the next poll is due within two to three seconds; before, nothing is sent.\<close>

theorem peer_keeps_polling:
  assumes "clean (node_net (lp_node ps))"
  shows "peer_timeout now ps \<le> max (from_nanos 1) (lp_next_poll ps - now)
    \<and> (let ps' = poll_manifest cfg now ps in
       if lp_next_poll ps \<le> now
       then wire (n_socket (lp_node ps')) = wire (n_socket (lp_node ps)) @ [(encode ManifestRequest, bootstrap cfg)]
         \<and> now + from_secs 2 \<le> lp_next_poll ps' \<and> lp_next_poll ps' < now + from_secs 3
       else ps' = ps)"
proof -
  have "lp_next_poll ps \<in> set (peer_deadlines now ps)" by (simp add: peer_deadlines_def)
  then have "Min (set (peer_deadlines now ps)) \<le> lp_next_poll ps" by (intro Min_le) simp_all
  then have w: "peer_timeout now ps \<le> max (from_nanos 1) (lp_next_poll ps - now)"
    by (auto simp: peer_timeout_def wait_for_def duration_since_def Let_def max_def)
  have j: "unat (x mod POLL_JITTER_MS) < 1000" for x :: u64
    using word_mod_less_divisor [of POLL_JITTER_MS x] by (simp add: POLL_JITTER_MS_def word_less_nat_alt)
  have "wire (n_socket (node_send bs dst now (lp_node ps))) = wire (n_socket (lp_node ps)) @ [(bs, dst)]" for bs dst
    using assms clean_send [of "n_fault (lp_node ps)" "n_socket (lp_node ps)"]
    by (simp add: node_send_def with_net_def node_net_def)
  then show ?thesis
    using w j by (auto simp: poll_manifest_def draw_ms_def Let_def MANIFEST_POLL_INTERVAL_def from_secs_def
        from_millis_def split: prod.splits)
qed

theorem peer_keeps_polling_witness:
  "let ps = fst (peer_new (\<lambda>_. None) None 0 (snd demo_net) ''peer'' demo_config (fst demo_net) None demo_host demo_disk) in
   wire (n_socket (lp_node (poll_manifest demo_config (from_secs 9) (ps\<lparr>lp_next_poll := from_secs 8\<rparr>))))
     = wire (n_socket (lp_node ps)) @ [(encode ManifestRequest, bootstrap demo_config)]"
proof -
  let ?ps = "fst (peer_new (\<lambda>_. None) None 0 (snd demo_net) ''peer'' demo_config (fst demo_net) None demo_host demo_disk)"
  have "clean (n_fault nd, n_socket nd) \<Longrightarrow> clean (node_net (node_send bs dst now nd))" for nd bs dst now
    by (simp add: node_send_def with_net_def node_net_def clean_send)
  moreover have "clean demo_net"
    by (simp add: demo_net_def clean_def fault_from_env_def fault_enabled_def accepting_def)
  ultimately have "clean (node_net (lp_node (?ps\<lparr>lp_next_poll := from_secs 8\<rparr>)))"
    by (simp add: peer_new_def Let_def node_new_def split: prod.split)
  from peer_keeps_polling [OF this, of "from_secs 9" demo_config] show ?thesis
    by (simp add: Let_def from_secs_def)
qed

end
