(* ===== verification/Parse_Addr.thy ===== *)
theory Parse_Addr
  imports Format
begin

text \<open>
  \<open>FromStr\<close> of \<open>std::net\<close>'s IP addresses, which the command line and the UPnP client call: a
  recursive-descent parser over the text's bytes. A parser returns its value and the rest,
  or \<open>None\<close>, after which the caller goes on from where it was (\<open>read_atomically\<close>).
\<close>

datatype ip_addr = IpV4 ipv4 | IpV6 ipv6

fun socket_addr_of :: "ip_addr \<Rightarrow> u16 \<Rightarrow> socket_addr" where
  "socket_addr_of (IpV4 a) port = V4 a port"
| "socket_addr_of (IpV6 a) port = V6 a port 0 0"

section \<open>Numbers\<close>

definition hex_value_of :: "char \<Rightarrow> nat option" where
  "hex_value_of c =
     (let n = of_char c in
      if 48 \<le> n \<and> n \<le> 57 then Some (n - 48)
      else if 97 \<le> n \<and> n \<le> 102 then Some (n - 87)
      else if 65 \<le> n \<and> n \<le> 70 then Some (n - 55)
      else None)"

text \<open>The digits read so far have the value \<open>acc\<close> and are \<open>cnt\<close>.\<close>

fun read_digits ::
    "(char \<Rightarrow> nat option) \<Rightarrow> nat \<Rightarrow> nat \<Rightarrow> nat \<Rightarrow> nat \<Rightarrow> nat \<Rightarrow> string \<Rightarrow> (nat \<times> nat \<times> string) option" where
  "read_digits dig radix bound max_digits acc cnt [] = Some (acc, cnt, [])"
| "read_digits dig radix bound max_digits acc cnt (c # cs) =
     (case dig c of
        None \<Rightarrow> Some (acc, cnt, c # cs)
      | Some d \<Rightarrow>
          if bound \<le> acc * radix + d \<or> max_digits < cnt + 1 then None
          else read_digits dig radix bound max_digits (acc * radix + d) (cnt + 1) cs)"

definition read_number ::
    "(char \<Rightarrow> nat option) \<Rightarrow> nat \<Rightarrow> nat \<Rightarrow> nat \<Rightarrow> bool \<Rightarrow> string \<Rightarrow> (nat \<times> string) option" where
  "read_number dig radix bound max_digits allow_zero_prefix s =
     (case read_digits dig radix bound max_digits 0 0 s of
        None \<Rightarrow> None
      | Some (v, cnt, rest) \<Rightarrow>
          if cnt = 0 \<or> \<not> allow_zero_prefix \<and> starts_with s ''0'' \<and> 1 < cnt then None else Some (v, rest))"

text \<open>A separator stands before every element but the first.\<close>

definition read_separator :: "char \<Rightarrow> nat \<Rightarrow> (string \<Rightarrow> ('a \<times> string) option) \<Rightarrow> string \<Rightarrow> ('a \<times> string) option" where
  "read_separator sep i f s =
     (if 0 < i then (case s of [] \<Rightarrow> None | c # cs \<Rightarrow> if c = sep then f cs else None) else f s)"

section \<open>Addresses\<close>

definition read_octet :: "string \<Rightarrow> (u8 \<times> string) option" where
  "read_octet s = map_option (\<lambda>(v, rest). (of_nat v, rest)) (read_number digit_of 10 256 3 False s)"

fun read_octets :: "nat \<Rightarrow> nat \<Rightarrow> string \<Rightarrow> (bytes \<times> string) option" where
  "read_octets 0 i s = Some ([], s)"
| "read_octets (Suc k) i s =
     (case read_separator CHR ''.'' i read_octet s of
        None \<Rightarrow> None
      | Some (o1, rest) \<Rightarrow> map_option (\<lambda>(os, r). (o1 # os, r)) (read_octets k (i + 1) rest))"

definition read_v4 :: "string \<Rightarrow> (ipv4 \<times> string) option" where
  "read_v4 s = map_option (\<lambda>(os, rest). (from_be os, rest)) (read_octets 4 0 s)"

definition read_group :: "string \<Rightarrow> (u16 \<times> string) option" where
  "read_group s = map_option (\<lambda>(v, rest). (of_nat v, rest)) (read_number hex_value_of 16 65536 4 True s)"

text \<open>
  At most \<open>k\<close> more groups from position \<open>i\<close> on, the last two perhaps as an IPv4 address; the
  flag says whether they were.
\<close>

fun read_groups :: "nat \<Rightarrow> nat \<Rightarrow> string \<Rightarrow> u16 list \<times> bool \<times> string" where
  "read_groups 0 i s = ([], False, s)"
| "read_groups (Suc k) i s =
     (case (if 0 < k then read_separator CHR '':'' i read_v4 s else None) of
        Some (a, rest) \<Rightarrow> ([ucast (drop_bit 16 a), ucast a], True, rest)
      | None \<Rightarrow>
          (case read_separator CHR '':'' i read_group s of
             None \<Rightarrow> ([], False, s)
           | Some (g, rest) \<Rightarrow> (case read_groups k (i + 1) rest of (gs, v4, r) \<Rightarrow> (g # gs, v4, r))))"

definition v6_of_groups :: "u16 list \<Rightarrow> ipv6" where
  "v6_of_groups gs = foldl (\<lambda>a g. push_bit 16 a OR ucast g) 0 gs"

definition read_v6 :: "string \<Rightarrow> (ipv6 \<times> string) option" where
  "read_v6 s =
     (case read_groups 8 0 s of
        (head, head_v4, rest) \<Rightarrow>
          if length head = 8 then Some (v6_of_groups head, rest)
          else if head_v4 then None
          else
            (case strip_prefix ''::'' rest of
               None \<Rightarrow> None
             | Some r \<Rightarrow>
                 (case read_groups (8 - (length head + 1)) 0 r of
                    (tail, _, r) \<Rightarrow>
                      Some (v6_of_groups (head @ replicate (8 - length head - length tail) 0 @ tail), r))))"

text \<open>\<open>Ipv4Addr::from_str\<close> refuses a text longer than any address.\<close>

definition parse_v4 :: "string \<Rightarrow> ipv4 option" where
  "parse_v4 s =
     (if 15 < length s then None
      else (case read_v4 s of Some (a, []) \<Rightarrow> Some a | _ \<Rightarrow> None))"

definition parse_ip :: "string \<Rightarrow> ip_addr option" where
  "parse_ip s =
     (case read_v4 s of
        Some (a, rest) \<Rightarrow> if rest = [] then Some (IpV4 a) else None
      | None \<Rightarrow> (case read_v6 s of Some (a, []) \<Rightarrow> Some (IpV6 a) | _ \<Rightarrow> None))"

section \<open>A printed address parses\<close>

lemma read_digits_show:
  assumes "parse_digits b acc ds = Some v" "cnt + length ds \<le> m" "\<forall>c cs. rest = c # cs \<longrightarrow> digit_of c = None"
  shows "read_digits digit_of 10 b m acc cnt (ds @ rest) = Some (v, cnt + length ds, rest)"
  using assms
proof (induction ds arbitrary: acc cnt)
  case Nil
  then show ?case by (cases rest) auto
next
  case (Cons c ds)
  then show ?case by (auto simp: Let_def mult.commute split: option.splits if_splits)
qed

lemma show_nat_zero: "starts_with (show_nat n) ''0'' \<Longrightarrow> n = 0"
proof (induction n rule: show_nat.induct)
  case (1 n)
  show ?case
  proof (cases "n < 10")
    case True
    then have "(of_char (char_of (48 + n)) :: nat) = 48 + n" by simp
    moreover have "char_of (48 + n) = CHR ''0''" using "1.prems" True by (simp add: show_nat.simps [of n] starts_with_def)
    ultimately show ?thesis by simp
  next
    case False
    then have "starts_with (show_nat (n div 10)) ''0''"
      using "1.prems" show_nat_head [of "n div 10"] by (auto simp: show_nat.simps [of n] starts_with_def)
    with 1 False show ?thesis by simp
  qed
qed

lemma read_octet_show:
  assumes "\<forall>c cs. rest = c # cs \<longrightarrow> digit_of c = None"
  shows "read_octet (show_word b @ rest) = Some (b, rest)"
proof -
  have b: "unat b < 256" using unsigned_less [of b, where ?'a = nat] by simp
  then have l: "length (show_nat (unat b)) \<le> 3" using length_show_nat [of "unat b" 3] by simp
  obtain d cs where h: "show_nat (unat b) = char_of (48 + d :: nat) # cs" using show_nat_head by blast
  have z: "length (show_nat (unat b)) = 1" if "starts_with (show_nat (unat b) @ rest) ''0''"
  proof -
    have "starts_with (show_nat (unat b)) ''0''" using that unfolding h by (simp add: starts_with_def)
    then have "unat b = 0" by (rule show_nat_zero)
    then show ?thesis by (simp add: show_nat.simps)
  qed
  have "read_digits digit_of 10 256 3 0 0 (show_nat (unat b) @ rest)
    = Some (unat b, 0 + length (show_nat (unat b)), rest)"
    by (rule read_digits_show) (use b l assms in \<open>simp_all add: parse_digits_show\<close>)
  with z show ?thesis by (auto simp: read_octet_def read_number_def show_word_def h)
qed

lemma v4_word_lengths: "length (show_v4 a) \<le> 15"
proof -
  have "length (show_word b) \<le> 3" for b :: u8
    using length_show_nat [of "unat b" 3] unsigned_less [of b, where ?'a = nat] by (simp add: show_word_def)
  from this [of "ucast (drop_bit 24 a)"] this [of "ucast (drop_bit 16 a)"] this [of "ucast (drop_bit 8 a)"]
    this [of "ucast a"]
  show ?thesis by (simp add: show_v4_def v4_octets_def to_be_4)
qed

lemma read_v4_show:
  assumes "\<forall>c cs. rest = c # cs \<longrightarrow> digit_of c = None"
  shows "read_v4 (show_v4 a @ rest) = Some (a, rest)"
proof -
  have dot: "digit_of CHR ''.'' = None" by (simp add: digit_of_def)
  obtain p q r s where o4: "to_be 4 a = [p, q, r, s]" by (simp add: to_be_4)
  have a: "from_be [p, q, r, s] = a" using from_be_to_be_32 [of a] by (simp add: o4)
  have four: "read_octets 4 = read_octets (Suc (Suc (Suc (Suc 0))))" by (simp add: numeral_eq_Suc)
  show ?thesis
    unfolding read_v4_def four using assms
    by (simp add: show_v4_def v4_octets_def o4 a read_separator_def read_octet_show dot)
qed

lemma parse_v4_show: "parse_v4 (show_v4 a) = Some a"
  using read_v4_show [of "[]" a] v4_word_lengths [of a] by (simp add: parse_v4_def)

text \<open>An IPv4 address printed by \<open>Display\<close> is read back as itself, also where any IP address
  is accepted, and what follows it, a port for instance, is left.\<close>

theorem printed_v4_parses:
  "parse_v4 (show_v4 a) = Some a \<and> parse_ip (show_v4 a) = Some (IpV4 a)
   \<and> read_v4 (show_v4 a @ '':'' @ rest) = Some (a, '':'' @ rest)"
  using parse_v4_show [of a] read_v4_show [of "[]" a] read_v4_show [of "'':'' @ rest" a]
  by (simp add: parse_ip_def digit_of_def)

end
