(* ===== verification/Upnp.thy ===== *)
theory Upnp
  imports Http Parse_Addr
begin

text \<open>
  The UPnP client of \<open>src/src/upnp.rs\<close>: discovery of a router's description, the two SOAP calls
  and the text scans on their answers. The network is a record of what it answers: the
  datagrams that arrive in the search, what each of the HTTP connections does, in order, and
  the address the kernel would send from; \<open>igd_sent\<close> collects the requests written.
  \<open>str::to_lowercase\<close> needs the Unicode case tables, so it is a field of that record.
\<close>

section \<open>Searching text\<close>

text \<open>\<open>str::find\<close> and \<open>contains\<close> with a string, \<open>trim_end_matches\<close> with a character.\<close>

fun str_find :: "string \<Rightarrow> string \<Rightarrow> nat option" where
  "str_find p [] = (if p = [] then Some 0 else None)"
| "str_find p (c # cs) = (if starts_with (c # cs) p then Some 0 else map_option Suc (str_find p cs))"

definition str_contains :: "string \<Rightarrow> string \<Rightarrow> bool" where
  "str_contains s p \<longleftrightarrow> str_find p s \<noteq> None"

definition trim_end_char :: "char \<Rightarrow> string \<Rightarrow> string" where
  "trim_end_char c s = rev (dropWhile (\<lambda>x. x = c) (rev s))"

text \<open>\<open>i\<close> is the first position of \<open>p\<close> in \<open>s\<close>.\<close>

definition first_at :: "string \<Rightarrow> string \<Rightarrow> nat \<Rightarrow> bool" where
  "first_at p s i \<longleftrightarrow> i \<le> length s \<and> prefix p (drop i s) \<and> (\<forall>j<i. \<not> prefix p (drop j s))"

lemma first_at_Cons:
  "first_at p (c # cs) i \<longleftrightarrow>
     (if prefix p (c # cs) then i = 0 else (\<exists>j. i = Suc j \<and> first_at p cs j))"
  by (cases i) (auto simp: first_at_def All_less_Suc2)

lemma str_find_iff: "str_find p s = Some i \<longleftrightarrow> first_at p s i"
proof (induction s arbitrary: i)
  case Nil
  then show ?case by (auto simp: first_at_def)
next
  case (Cons c cs)
  then show ?case by (auto simp: first_at_Cons starts_with_def)
qed

lemma str_find_None: "str_find p s = None \<longleftrightarrow> \<not> sublist p s"
proof (induction s)
  case Nil
  then show ?case by simp
next
  case (Cons c cs)
  then show ?case by (simp add: starts_with_def sublist_Cons_right)
qed

lemma str_find_split: "str_find p s = Some i \<Longrightarrow> s = take i s @ p @ drop (i + length p) s"
proof -
  assume "str_find p s = Some i"
  then obtain r where "drop i s = p @ r" by (auto simp: str_find_iff first_at_def prefix_def)
  moreover from this have "r = drop (i + length p) s" by (metis add.commute append_eq_conv_conj drop_drop)
  ultimately show ?thesis by (metis append_take_drop_id)
qed

lemma str_find_no_head: "p \<noteq> [] \<Longrightarrow> hd p \<notin> set s \<Longrightarrow> str_find p (s @ t) = map_option ((+) (length s)) (str_find p t)"
proof (induction s)
  case (Cons c cs)
  then have "\<not> prefix p (c # cs @ t)" by (cases p) auto
  with Cons show ?case by (simp add: starts_with_def option.map_comp comp_def)
next
  case Nil
  have "(+) (0 :: nat) = (\<lambda>x. x)" by auto
  then show ?case by (simp add: option.map_ident)
qed

section \<open>Scans of answers\<close>

definition crlf :: string where
  "crlf = [CHR 0x0D, CHR 0x0A]"

definition http_scheme :: string where
  "http_scheme = ''http://''"

lemma length_http_scheme [simp]: "length http_scheme = 7"
  by (simp add: http_scheme_def)

definition split_url :: "string \<Rightarrow> (string \<times> string) option" where
  "split_url url =
     (case strip_prefix http_scheme url of
        None \<Rightarrow> None
      | Some rest \<Rightarrow>
          (case str_find ''/'' rest of
             Some i \<Rightarrow> Some (take i rest, drop i rest)
           | None \<Rightarrow> Some (rest, ''/'')))"

definition open_tag :: "string \<Rightarrow> string" where
  "open_tag tag = ''<'' @ tag @ ''>''"

definition close_tag :: "string \<Rightarrow> string" where
  "close_tag tag = ''</'' @ tag @ ''>''"

definition tag_text :: "string \<Rightarrow> string \<Rightarrow> string option" where
  "tag_text xml tag =
     (case str_find (open_tag tag) xml of
        None \<Rightarrow> None
      | Some i \<Rightarrow>
          let rest = drop (i + length (open_tag tag)) xml in
          (case str_find (close_tag tag) rest of
             None \<Rightarrow> None
           | Some j \<Rightarrow> Some (str_trim (take j rest))))"

definition body_of :: "string \<Rightarrow> string option" where
  "body_of response = map_option (\<lambda>idx. drop (idx + 4) response) (str_find (crlf @ crlf) response)"

section \<open>Requests\<close>

definition SSDP_ADDR :: string where
  "SSDP_ADDR = ''239.255.255.250:1900''"

definition SERVICE :: string where
  "SERVICE = ''urn:schemas-upnp-org:service:WANIPConnection:1''"

definition SERVICE_PPP :: string where
  "SERVICE_PPP = ''urn:schemas-upnp-org:service:WANPPPConnection:1''"

definition search_request :: string where
  \<open>search_request =
     ''M-SEARCH * HTTP/1.1'' @ crlf @ ''HOST: '' @ SSDP_ADDR @ crlf @ ''MAN: "ssdp:discover"'' @ crlf
     @ ''MX: 1'' @ crlf @ ''ST: urn:schemas-upnp-org:device:InternetGatewayDevice:1'' @ crlf @ crlf\<close>

definition get_request :: "string \<Rightarrow> string \<Rightarrow> string" where
  "get_request host path =
     ''GET '' @ path @ '' HTTP/1.1'' @ crlf @ ''Host: '' @ host @ crlf @ ''Connection: close'' @ crlf @ crlf"

definition newline :: string where
  "newline = [CHR 0x0A]"

definition soap_envelope :: "string \<Rightarrow> string \<Rightarrow> string" where
  \<open>soap_envelope action args =
     ''<?xml version="1.0"?>'' @ newline
     @ ''<s:Envelope xmlns:s="http://schemas.xmlsoap.org/soap/envelope/" ''
     @ ''s:encodingStyle="http://schemas.xmlsoap.org/soap/encoding/">'' @ newline
     @ ''<s:Body>'' @ newline
     @ ''<u:'' @ action @ '' xmlns:u="'' @ SERVICE @ ''">'' @ newline @ args @ newline @ ''</u:'' @ action @ ''>'' @ newline
     @ ''</s:Body>'' @ newline
     @ ''</s:Envelope>''\<close>

definition soap_request :: "string \<Rightarrow> string \<Rightarrow> string \<Rightarrow> string \<Rightarrow> string" where
  \<open>soap_request host path action args =
     (let envelope = soap_envelope action args in
      ''POST '' @ path @ '' HTTP/1.1'' @ crlf
      @ ''Host: '' @ host @ crlf
      @ ''Content-Type: text/xml; charset="utf-8"'' @ crlf
      @ ''SOAPAction: "'' @ SERVICE @ ''#'' @ action @ ''"'' @ crlf
      @ ''Content-Length: '' @ show_nat (length envelope) @ crlf
      @ ''Connection: close'' @ crlf @ crlf @ envelope)\<close>

definition mapping_args :: "u16 \<Rightarrow> ipv4 \<Rightarrow> string" where
  "mapping_args port internal =
     ''<NewRemoteHost></NewRemoteHost>''
     @ ''<NewExternalPort>'' @ show_word port @ ''</NewExternalPort>''
     @ ''<NewProtocol>UDP</NewProtocol>''
     @ ''<NewInternalPort>'' @ show_word port @ ''</NewInternalPort>''
     @ ''<NewInternalClient>'' @ show_v4 internal @ ''</NewInternalClient>''
     @ ''<NewEnabled>1</NewEnabled>''
     @ ''<NewPortMappingDescription>qstream</NewPortMappingDescription>''
     @ ''<NewLeaseDuration>0</NewLeaseDuration>''"

section \<open>The network\<close>

text \<open>
  A connection may fail before the request is written, after it (also by a timeout), or give
  the bytes read up to its end; bytes that are not UTF-8 are an error of \<open>read_to_string\<close>.
\<close>

datatype http_answer = NoConnection | NoAnswer | Answered bytes

record igd =
  igd_answers :: "http_answer list"
  igd_sent :: "(string \<times> string) list"

record lan =
  lan_searched :: bool
  lan_replies :: "bytes list"
  lan_source :: "socket_addr option"
  lan_lowercase :: "string \<Rightarrow> string"

definition http_exchange :: "string \<Rightarrow> string \<Rightarrow> igd \<Rightarrow> string option \<times> igd" where
  "http_exchange host request w =
     (case igd_answers w of
        [] \<Rightarrow> (None, w)
      | NoConnection # as \<Rightarrow> (None, w\<lparr>igd_answers := as\<rparr>)
      | NoAnswer # as \<Rightarrow> (None, w\<lparr>igd_answers := as, igd_sent := igd_sent w @ [(host, request)]\<rparr>)
      | Answered bs # as \<Rightarrow>
          (from_utf8 bs, w\<lparr>igd_answers := as, igd_sent := igd_sent w @ [(host, request)]\<rparr>))"

definition http_get :: "string \<Rightarrow> string \<Rightarrow> igd \<Rightarrow> string option \<times> igd" where
  "http_get host path w = http_exchange host (get_request host path) w"

definition soap_call :: "string \<Rightarrow> string \<Rightarrow> string \<Rightarrow> igd \<Rightarrow> string option \<times> igd" where
  "soap_call control_url action args w =
     (case split_url control_url of
        None \<Rightarrow> (None, w)
      | Some (host, path) \<Rightarrow>
          (case http_exchange host (soap_request host path action args) w of
             (response, w) \<Rightarrow> (Option.bind response body_of, w)))"

section \<open>Discovery\<close>

text \<open>A relative control URL is resolved against the description's.\<close>

definition resolve_control :: "string \<Rightarrow> string \<Rightarrow> string option" where
  "resolve_control location control =
     (if starts_with control http_scheme then Some control
      else
        let base = trim_end_char CHR ''/'' location in
        if starts_with control ''/'' then
          (case str_find ''://'' base of
             None \<Rightarrow> None
           | Some scheme_end \<Rightarrow>
               (case str_find ''/'' (drop (scheme_end + 3) base) of
                  Some i \<Rightarrow> Some (take (scheme_end + 3 + i) base @ control)
                | None \<Rightarrow> Some (base @ control)))
        else Some (base @ ''/'' @ control))"

text \<open>The control URL in a device description.\<close>

definition control_of :: "string \<Rightarrow> string \<Rightarrow> string option" where
  "control_of location body =
     (let marker =
        (if str_contains body SERVICE then Some SERVICE
         else if str_contains body SERVICE_PPP then Some SERVICE_PPP else None) in
      Option.bind marker (\<lambda>service_marker.
      Option.bind (str_find service_marker body) (\<lambda>idx.
      Option.bind (tag_text (drop idx body) ''controlURL'') (resolve_control location))))"

definition device_control_url :: "string \<Rightarrow> igd \<Rightarrow> string option \<times> igd" where
  "device_control_url location w =
     (case split_url location of
        None \<Rightarrow> (None, w)
      | Some (host, path) \<Rightarrow>
          (case http_get host path w of
             (response, w) \<Rightarrow> (Option.bind (Option.bind response body_of) (control_of location), w)))"

definition reply_locations :: "lan \<Rightarrow> bytes \<Rightarrow> string list" where
  "reply_locations h reply =
     List.map_filter (\<lambda>line. map_option str_trim (strip_prefix ''location:'' line))
       (str_lines (lan_lowercase h (from_utf8_lossy reply)))"

fun first_device :: "string list \<Rightarrow> igd \<Rightarrow> string option \<times> igd" where
  "first_device [] w = (None, w)"
| "first_device (location # ls) w =
     (case device_control_url location w of
        (Some url, w) \<Rightarrow> (Some url, w)
      | (None, w) \<Rightarrow> first_device ls w)"

definition discover_control_url :: "lan \<Rightarrow> igd \<Rightarrow> string option \<times> igd" where
  "discover_control_url h w =
     (if lan_searched h then first_device (concat (map (reply_locations h) (lan_replies h))) w else (None, w))"

section \<open>The mapping\<close>

definition get_external_ip :: "string \<Rightarrow> igd \<Rightarrow> ipv4 option \<times> igd" where
  "get_external_ip control_url w =
     (case soap_call control_url ''GetExternalIPAddress'' [] w of
        (body, w) \<Rightarrow>
          (Option.bind (Option.bind body (\<lambda>b. tag_text b ''NewExternalIPAddress'')) (\<lambda>ip. parse_v4 (str_trim ip)), w))"

definition local_ip :: "lan \<Rightarrow> ipv4 option" where
  "local_ip h =
     (case lan_source h of
        Some (V4 ip _) \<Rightarrow> if v4_is_loopback ip then None else Some ip
      | _ \<Rightarrow> None)"

definition add_port_mapping :: "lan \<Rightarrow> string \<Rightarrow> u16 \<Rightarrow> igd \<Rightarrow> bool option \<times> igd" where
  "add_port_mapping h control_url port w =
     (case local_ip h of
        None \<Rightarrow> (None, w)
      | Some internal \<Rightarrow>
          (case soap_call control_url ''AddPortMapping'' (mapping_args port internal) w of
             (body, w) \<Rightarrow> (map_option (\<lambda>b. str_contains b ''AddPortMappingResponse'') body, w)))"

definition try_map :: "lan \<Rightarrow> u16 \<Rightarrow> igd \<Rightarrow> socket_addr option \<times> igd" where
  "try_map h port w =
     (case discover_control_url h w of
        (None, w) \<Rightarrow> (None, w)
      | (Some control_url, w) \<Rightarrow>
          (case get_external_ip control_url w of
             (None, w) \<Rightarrow> (None, w)
           | (Some external_ip, w) \<Rightarrow>
               (case add_port_mapping h control_url port w of
                  (Some True, w) \<Rightarrow> (Some (V4 external_ip port), w)
                | (_, w) \<Rightarrow> (None, w))))"

section \<open>What the scans find\<close>

text \<open>A tag's text is what stands between the first opening tag and the first closing tag
  after it, without the white space around it; without such a pair there is none.\<close>

theorem tag_text_spec:
  "(tag_text xml tag = Some t \<longleftrightarrow>
     (\<exists>i j. first_at (open_tag tag) xml i
        \<and> first_at (close_tag tag) (drop (i + length (open_tag tag)) xml) j
        \<and> t = str_trim (take j (drop (i + length (open_tag tag)) xml))))
   \<and> (tag_text xml tag = None \<longleftrightarrow>
     \<not> sublist (open_tag tag) xml
     \<or> (\<exists>i. first_at (open_tag tag) xml i
           \<and> \<not> sublist (close_tag tag) (drop (i + length (open_tag tag)) xml)))"
  by (intro conjI)
    (auto simp: tag_text_def Let_def str_find_iff [symmetric] str_find_None [symmetric] split: option.splits)

lemma str_find_slash:
  "CHR ''/'' \<notin> set h \<Longrightarrow> p = [] \<or> starts_with p ''/''
    \<Longrightarrow> str_find ''/'' (h @ p) = (if p = [] then None else Some (length h))"
  using str_find_no_head [of "''/''" h p] by (cases p) (auto simp: starts_with_def)

lemma split_url_Some:
  "split_url url = Some (host, path) \<longleftrightarrow>
     CHR ''/'' \<notin> set host \<and>
     (url = http_scheme @ host @ path \<and> starts_with path ''/'' \<or> url = http_scheme @ host \<and> path = ''/'')"
proof -
  have none: "str_find ''/'' r = None \<longleftrightarrow> CHR ''/'' \<notin> set r" for r
    by (induction r) (auto simp: starts_with_def)
  show ?thesis
  proof
    assume l: "split_url url = Some (host, path)"
    then obtain rest where u: "url = http_scheme @ rest"
      by (auto simp: split_url_def strip_prefix_Some split: option.splits)
    show "CHR ''/'' \<notin> set host \<and>
      (url = http_scheme @ host @ path \<and> starts_with path ''/'' \<or> url = http_scheme @ host \<and> path = ''/'')"
    proof (cases "str_find ''/'' rest")
      case None
      with l u none [of rest] show ?thesis by (auto simp: split_url_def strip_prefix_Some [THEN iffD2, OF u])
    next
      case (Some i)
      with l u have hp: "host = take i rest" "path = drop i rest"
        by (auto simp: split_url_def strip_prefix_Some [THEN iffD2, OF u])
      have f: "first_at ''/'' rest i" using Some by (simp add: str_find_iff)
      have "CHR ''/'' \<notin> set host"
      proof
        assume "CHR ''/'' \<in> set host"
        then obtain j where j: "j < length host" "host ! j = CHR ''/''" by (auto simp: in_set_conv_nth)
        then have "j < i" "j < length rest" "rest ! j = CHR ''/''" by (auto simp: hp)
        moreover from this have "prefix ''/'' (drop j rest)" by (simp add: Cons_nth_drop_Suc [symmetric])
        ultimately show False using f by (auto simp: first_at_def)
      qed
      moreover have "starts_with path ''/''" using f by (simp add: first_at_def starts_with_def hp)
      moreover have "rest = host @ path" by (simp add: hp)
      ultimately show ?thesis by (simp add: u)
    qed
  next
    assume r: "CHR ''/'' \<notin> set host \<and>
      (url = http_scheme @ host @ path \<and> starts_with path ''/'' \<or> url = http_scheme @ host \<and> path = ''/'')"
    then show "split_url url = Some (host, path)"
      using str_find_slash [of host path] str_find_slash [of host "[]"]
      by (auto simp: split_url_def strip_prefix_def starts_with_def)
  qed
qed

lemma trim_end_char_split: "\<exists>n. s = trim_end_char c s @ replicate n c"
proof -
  have "rev s = takeWhile (\<lambda>x. x = c) (rev s) @ dropWhile (\<lambda>x. x = c) (rev s)" by simp
  moreover have "takeWhile (\<lambda>x. x = c) (rev s) = replicate (length (takeWhile (\<lambda>x. x = c) (rev s))) c"
    by (metis (mono_tags) map_replicate_const replicate_length_same set_takeWhileD)
  ultimately have "s = trim_end_char c s @ rev (replicate (length (takeWhile (\<lambda>x. x = c) (rev s))) c)"
    unfolding trim_end_char_def by (metis rev_append rev_rev_ident)
  then show ?thesis by auto
qed

lemma trim_end_char_append:
  "trim_end_char c (xs @ ys) = (if trim_end_char c ys = [] then trim_end_char c xs else xs @ trim_end_char c ys)"
  by (auto simp: trim_end_char_def dropWhile_append)

lemma trim_end_char_last: "xs \<noteq> [] \<Longrightarrow> last xs \<noteq> c \<Longrightarrow> trim_end_char c xs = xs"
  by (cases xs rule: rev_cases) (auto simp: trim_end_char_def)

lemma trim_location:
  assumes "CHR ''/'' \<notin> set host" "host \<noteq> []" "path = [] \<or> starts_with path ''/''"
  obtains q where "trim_end_char CHR ''/'' (http_scheme @ host @ path) = http_scheme @ host @ q"
    "q = [] \<or> starts_with q ''/''"
proof -
  have "last host \<noteq> CHR ''/''" using assms(1,2) last_in_set by metis
  then have "trim_end_char CHR ''/'' (http_scheme @ host @ path) = http_scheme @ host @ trim_end_char CHR ''/'' path"
    using assms(2) by (simp add: trim_end_char_append trim_end_char_last)
  moreover have "trim_end_char CHR ''/'' path = [] \<or> starts_with (trim_end_char CHR ''/'' path) ''/''"
  proof -
    obtain n where n: "path = trim_end_char CHR ''/'' path @ replicate n CHR ''/''" using trim_end_char_split by blast
    show ?thesis
    proof (cases "trim_end_char CHR ''/'' path")
      case (Cons c cs)
      then have "path \<noteq> []" using n by auto
      then have "hd path = CHR ''/''" using assms(3) by (cases path) (auto simp: starts_with_def)
      moreover have "hd path = c" using n Cons by (metis append_Cons list.sel(1))
      ultimately show ?thesis using Cons by (simp add: starts_with_def)
    qed simp
  qed
  ultimately show ?thesis by (rule that)
qed

text \<open>C15: A control URL that is not absolute stays with the device: resolved against the
  description's URL it names the same host, and one that begins with a slash is the path asked
  for there.\<close>

theorem control_same_host:
  assumes "split_url location = Some (host, path)" "host \<noteq> []" "\<not> starts_with control http_scheme"
  shows "\<exists>url p. resolve_control location control = Some url \<and> split_url url = Some (host, p)
    \<and> (starts_with control ''/'' \<longrightarrow> p = control)"
proof -
  obtain p where h: "CHR ''/'' \<notin> set host" "location = http_scheme @ host @ p" "p = [] \<or> starts_with p ''/''"
    using assms(1) unfolding split_url_Some by auto
  obtain q where q: "trim_end_char CHR ''/'' location = http_scheme @ host @ q" "q = [] \<or> starts_with q ''/''"
    using trim_location [OF h(1) assms(2) h(3)] h(2) by metis
  have scheme: "str_find ''://'' (http_scheme @ r) = Some 4" for r
    by (simp_all add: http_scheme_def starts_with_def)
  have root: "resolve_control location control = Some (http_scheme @ host @ control)" if "starts_with control ''/''"
  proof (cases "q = []")
    case True
    then show ?thesis
      using that assms(3) q str_find_slash [OF h(1), of "[]"] by (simp add: resolve_control_def Let_def scheme)
  next
    case False
    then show ?thesis
      using that assms(3) q str_find_slash [OF h(1), of q] by (simp add: resolve_control_def Let_def scheme)
  qed
  show ?thesis
  proof (cases "starts_with control ''/''")
    case True
    with root h(1) show ?thesis by (simp add: split_url_Some)
  next
    case False
    then have "resolve_control location control = Some (trim_end_char CHR ''/'' location @ ''/'' @ control)"
      using assms(3) by (simp only: resolve_control_def Let_def if_False)
    then have "resolve_control location control = Some (http_scheme @ host @ (q @ ''/'' @ control))"
      by (simp add: q(1))
    moreover have "starts_with (q @ ''/'' @ control) ''/''"
      using q(2) by (cases q) (auto simp: starts_with_def)
    ultimately show ?thesis using h(1) False by (auto simp: split_url_Some)
  qed
qed

theorem control_same_host_witness:
  "resolve_control ''http://192.168.1.1:49152/rootdesc.xml'' ''/ctl/IPConn''
     = Some ''http://192.168.1.1:49152/ctl/IPConn''"
proof -
  have s: "split_url ''http://192.168.1.1:49152/rootdesc.xml'' = Some (''192.168.1.1:49152'', ''/rootdesc.xml'')"
    by code_simp
  obtain url p where r: "resolve_control ''http://192.168.1.1:49152/rootdesc.xml'' ''/ctl/IPConn'' = Some url"
    "split_url url = Some (''192.168.1.1:49152'', p)" "p = ''/ctl/IPConn''"
    using control_same_host [OF s, of "''/ctl/IPConn''"] by (auto simp: starts_with_def http_scheme_def)
  then have "url = ''http://192.168.1.1:49152/ctl/IPConn''" unfolding split_url_Some by (auto simp: http_scheme_def)
  with r show ?thesis by simp
qed

section \<open>What is asked of the router\<close>

text \<open>From \<open>w\<close> to \<open>w'\<close> the requests \<open>rs\<close> were sent and answers used up in order.\<close>

definition asked :: "igd \<Rightarrow> igd \<Rightarrow> (string \<times> string) list \<Rightarrow> bool" where
  "asked w w' rs \<longleftrightarrow> igd_sent w' = igd_sent w @ rs \<and> suffix (igd_answers w') (igd_answers w)"

lemma asked_refl: "asked w w []"
  by (simp add: asked_def)

lemma asked_trans: "asked u v rs \<Longrightarrow> asked v w qs \<Longrightarrow> asked u w (rs @ qs)"
  using suffix_order.trans by (auto simp: asked_def)

lemma exchange_asked:
  assumes "http_exchange host request w = (response, w')"
  obtains rs where "asked w w' rs" "rs = [] \<or> rs = [(host, request)]"
proof (cases "igd_answers w")
  case Nil
  with assms show thesis by (intro that [of "[]"]) (auto simp: http_exchange_def asked_refl)
next
  case (Cons a as)
  then have suf: "suffix as (igd_answers w)" by (simp add: suffix_ConsI)
  show thesis
  proof (cases a)
    case NoConnection
    with assms Cons suf show thesis by (intro that [of "[]"]) (auto simp: http_exchange_def asked_def)
  next
    case NoAnswer
    with assms Cons suf show thesis by (intro that [of "[(host, request)]"]) (auto simp: http_exchange_def asked_def)
  next
    case (Answered bs)
    with assms Cons suf show thesis
      by (intro that [of "[(host, request)]"]) (auto simp: http_exchange_def asked_def)
  qed
qed

lemma exchange_Some:
  assumes "http_exchange host request w = (Some response, w')"
  obtains bs where "igd_answers w = Answered bs # igd_answers w'" "igd_sent w' = igd_sent w @ [(host, request)]"
    "from_utf8 bs = Some response"
  using assms by (auto simp: http_exchange_def split: list.splits http_answer.splits)

lemma soap_call_asked:
  assumes "soap_call control_url action args w = (Some body, w')"
  obtains host path response bs where "split_url control_url = Some (host, path)"
    "igd_sent w' = igd_sent w @ [(host, soap_request host path action args)]"
    "igd_answers w = Answered bs # igd_answers w'" "from_utf8 bs = Some response" "body_of response = Some body"
proof -
  obtain host path where u: "split_url control_url = Some (host, path)"
    using assms by (auto simp: soap_call_def split: option.splits)
  obtain r where x: "http_exchange host (soap_request host path action args) w = (Some r, w')" "body_of r = Some body"
    using assms u by (auto simp: soap_call_def split: prod.splits option.splits bind_splits)
  show thesis by (rule exchange_Some [OF x(1)]) (rule that [OF u _ _ _ x(2)])
qed

text \<open>A description is asked for at the URL announced, with a plain GET.\<close>

definition describes :: "string list \<Rightarrow> string \<times> string \<Rightarrow> bool" where
  "describes ls r \<longleftrightarrow>
     (\<exists>location \<in> set ls. \<exists>host path. split_url location = Some (host, path) \<and> r = (host, get_request host path))"

lemma device_control_asked:
  assumes "device_control_url location w = (url, w')"
  obtains rs where "asked w w' rs" "length rs \<le> 1" "\<forall>r \<in> set rs. describes [location] r"
proof (cases "split_url location")
  case None
  with assms show thesis by (intro that [of "[]"]) (auto simp: device_control_url_def asked_refl)
next
  case (Some hp)
  obtain host path where hp: "hp = (host, path)" by (cases hp)
  obtain r where x: "http_exchange host (get_request host path) w = (r, w')"
    using assms Some hp by (auto simp: device_control_url_def http_get_def split: prod.splits)
  obtain rs where "asked w w' rs" "rs = [] \<or> rs = [(host, get_request host path)]" using exchange_asked [OF x] by metis
  then show thesis using Some hp by (intro that [of rs]) (auto simp: describes_def)
qed

lemma first_device_asked:
  "first_device ls w = (url, w') \<Longrightarrow> \<exists>rs. asked w w' rs \<and> length rs \<le> length ls \<and> (\<forall>r \<in> set rs. describes ls r)"
proof (induction ls arbitrary: w)
  case Nil
  then show ?case using asked_refl by fastforce
next
  case (Cons l ls)
  obtain u v where d: "device_control_url l w = (u, v)" by (cases "device_control_url l w")
  obtain rs where rs: "asked w v rs" "length rs \<le> 1" "\<forall>r \<in> set rs. describes [l] r"
    using device_control_asked [OF d] by metis
  show ?case
  proof (cases u)
    case None
    then have "first_device ls v = (url, w')" using Cons.prems d by simp
    then obtain qs where "asked v w' qs" "length qs \<le> length ls" "\<forall>r \<in> set qs. describes ls r" using Cons.IH by blast
    with rs show ?thesis
      by (intro exI [of _ "rs @ qs"]) (auto intro: asked_trans simp: describes_def)
  next
    case (Some x)
    then have "w' = v" using Cons.prems d by simp
    with rs show ?thesis by (intro exI [of _ rs]) (auto simp: describes_def)
  qed
qed

definition locations :: "lan \<Rightarrow> string list" where
  "locations h = concat (map (reply_locations h) (lan_replies h))"

lemma discover_asked:
  assumes "discover_control_url h w = (url, w')"
  obtains rs where "asked w w' rs" "length rs \<le> length (locations h)" "\<forall>r \<in> set rs. describes (locations h) r"
proof (cases "lan_searched h")
  case True
  then show thesis
    using assms first_device_asked [of "locations h" w url w'] that by (auto simp: discover_control_url_def locations_def)
next
  case False
  then show thesis using assms by (intro that [of "[]"]) (auto simp: discover_control_url_def asked_refl)
qed

lemma try_map_granted:
  assumes "try_map h port w = (Some a, w')"
  shows "\<exists>ds host path client ip src b1 b2 r1 r2 x1 x2 t rest.
    igd_sent w' = igd_sent w @ ds @
      [(host, soap_request host path ''GetExternalIPAddress'' []),
       (host, soap_request host path ''AddPortMapping'' (mapping_args port client))]
    \<and> length ds \<le> length (locations h) \<and> (\<forall>d \<in> set ds. describes (locations h) d)
    \<and> igd_answers w = rest @ [Answered x1, Answered x2] @ igd_answers w'
    \<and> lan_source h = Some (V4 client src) \<and> \<not> v4_is_loopback client
    \<and> from_utf8 x1 = Some r1 \<and> body_of r1 = Some b1 \<and> tag_text b1 ''NewExternalIPAddress'' = Some t
    \<and> parse_v4 (str_trim t) = Some ip \<and> a = V4 ip port
    \<and> from_utf8 x2 = Some r2 \<and> body_of r2 = Some b2 \<and> str_contains b2 ''AddPortMappingResponse''"
proof -
  obtain url v where d: "discover_control_url h w = (Some url, v)"
    using assms by (auto simp: try_map_def split: prod.splits option.splits)
  obtain ip u where g: "get_external_ip url v = (Some ip, u)"
    using assms d by (auto simp: try_map_def split: prod.splits option.splits)
  have m: "add_port_mapping h url port u = (Some True, w')" "a = V4 ip port"
    using assms d g by (auto simp: try_map_def split: prod.splits option.splits bool.splits)
  obtain ds where ds: "asked w v ds" "length ds \<le> length (locations h)" "\<forall>r \<in> set ds. describes (locations h) r"
    using discover_asked [OF d] by metis
  obtain rest where rest: "igd_answers w = rest @ igd_answers v" using ds(1) by (auto simp: asked_def suffix_def)
  obtain b1 t where b1: "soap_call url ''GetExternalIPAddress'' [] v = (Some b1, u)"
    "tag_text b1 ''NewExternalIPAddress'' = Some t" "parse_v4 (str_trim t) = Some ip"
    using g by (auto simp: get_external_ip_def split: prod.splits bind_splits)
  obtain host path r1 x1 where h1: "split_url url = Some (host, path)"
    "igd_sent u = igd_sent v @ [(host, soap_request host path ''GetExternalIPAddress'' [])]"
    "igd_answers v = Answered x1 # igd_answers u" "from_utf8 x1 = Some r1" "body_of r1 = Some b1"
    using soap_call_asked [OF b1(1)] by metis
  obtain client src where c: "lan_source h = Some (V4 client src)" "\<not> v4_is_loopback client" "local_ip h = Some client"
    using m(1) by (auto simp: add_port_mapping_def local_ip_def split: option.splits socket_addr.splits if_splits)
  obtain b2 where b2: "soap_call url ''AddPortMapping'' (mapping_args port client) u = (Some b2, w')"
    "str_contains b2 ''AddPortMappingResponse''"
    using m(1) c(3) by (auto simp: add_port_mapping_def split: prod.splits)
  obtain host2 path2 r2 x2 where u2: "split_url url = Some (host2, path2)"
    and "igd_sent w' = igd_sent u @ [(host2, soap_request host2 path2 ''AddPortMapping'' (mapping_args port client))]"
    and h: "igd_answers u = Answered x2 # igd_answers w'" "from_utf8 x2 = Some r2" "body_of r2 = Some b2"
    using soap_call_asked [OF b2(1)] by metis
  with h1(1) have h2: "igd_sent w' = igd_sent u @ [(host, soap_request host path ''AddPortMapping'' (mapping_args port client))]"
    by simp
  have "igd_answers w = rest @ [Answered x1, Answered x2] @ igd_answers w'" using rest h1(3) h(1) by simp
  moreover have "igd_sent w' = igd_sent w @ ds @
      [(host, soap_request host path ''GetExternalIPAddress'' []),
       (host, soap_request host path ''AddPortMapping'' (mapping_args port client))]"
    using ds(1) h1(2) h2 by (simp add: asked_def)
  ultimately show ?thesis
    using ds(2,3) c(1,2) b1(2,3) b2(2) h1(4,5) h(2,3) m(2)
    by - (intro exI conjI, assumption+)
qed

text \<open>An endpoint is claimed only if a router really granted it: after at most one description
  request per announced location, the same host was asked for its address and then for a UDP
  mapping of the port to itself at this node's own, non-loopback address; the endpoint is the
  address in the first answer with that port, and the second answer confirms the mapping.\<close>

theorem try_map_sound:
  assumes "try_map h port w = (Some a, w')"
  shows "\<exists>ds host path client ip src b1 b2 r1 r2 x1 x2 t rest.
    igd_sent w' = igd_sent w @ ds @
      [(host, soap_request host path ''GetExternalIPAddress'' []),
       (host, soap_request host path ''AddPortMapping'' (mapping_args port client))]
    \<and> length ds \<le> length (locations h) \<and> (\<forall>d \<in> set ds. describes (locations h) d)
    \<and> igd_answers w = rest @ [Answered x1, Answered x2] @ igd_answers w'
    \<and> lan_source h = Some (V4 client src) \<and> \<not> v4_is_loopback client
    \<and> from_utf8 x1 = Some r1 \<and> body_of r1 = Some b1 \<and> tag_text b1 ''NewExternalIPAddress'' = Some t
    \<and> parse_v4 (str_trim t) = Some ip \<and> a = V4 ip port
    \<and> from_utf8 x2 = Some r2 \<and> body_of r2 = Some b2 \<and> str_contains b2 ''AddPortMappingResponse''"
  using assms by (rule try_map_granted)

text \<open>
  What the mapping request says, byte for byte: the UDP port is mapped to the same port of
  the client, for good.
\<close>

definition asks_mapping :: "u16 \<Rightarrow> ipv4 \<Rightarrow> string \<Rightarrow> bool" where
  "asks_mapping port client request \<longleftrightarrow>
     (\<exists>before after. prefix ''POST '' request \<and> request = before
        @ ''<NewRemoteHost></NewRemoteHost><NewExternalPort>'' @ show_nat (unat port)
        @ ''</NewExternalPort><NewProtocol>UDP</NewProtocol><NewInternalPort>'' @ show_nat (unat port)
        @ ''</NewInternalPort><NewInternalClient>'' @ show_v4 client
        @ ''</NewInternalClient><NewEnabled>1</NewEnabled>'' @ after
      \<and> suffix (''</u:AddPortMapping>'' @ newline @ ''</s:Body>'' @ newline @ ''</s:Envelope>'') request)"

lemma mapping_asked: "asks_mapping port client (soap_request host path ''AddPortMapping'' (mapping_args port client))"
proof -
  define head where \<open>head args = path @ '' HTTP/1.1'' @ crlf
      @ ''Host: '' @ host @ crlf
      @ ''Content-Type: text/xml; charset="utf-8"'' @ crlf
      @ ''SOAPAction: "'' @ SERVICE @ ''#AddPortMapping"'' @ crlf
      @ ''Content-Length: '' @ show_nat (length (soap_envelope ''AddPortMapping'' args)) @ crlf
      @ ''Connection: close'' @ crlf @ crlf
      @ ''<?xml version="1.0"?>'' @ newline
      @ ''<s:Envelope xmlns:s="http://schemas.xmlsoap.org/soap/envelope/" ''
      @ ''s:encodingStyle="http://schemas.xmlsoap.org/soap/encoding/">'' @ newline
      @ ''<s:Body>'' @ newline
      @ ''<u:AddPortMapping xmlns:u="'' @ SERVICE @ ''">'' @ newline\<close> for args
  have head: "soap_request host path ''AddPortMapping'' args
      = ''POST '' @ head args @ args @ newline @ ''</u:AddPortMapping>'' @ newline @ ''</s:Body>'' @ newline @ ''</s:Envelope>''"
    for args
    unfolding soap_request_def Let_def head_def by (simp add: soap_envelope_def)
  show ?thesis
    unfolding asks_mapping_def head mapping_args_def show_word_def
    by (intro exI [of _ "''POST '' @ head (mapping_args port client)"]
      exI [of _ "''<NewPortMappingDescription>qstream</NewPortMappingDescription><NewLeaseDuration>0</NewLeaseDuration>''
        @ newline @ ''</u:AddPortMapping>'' @ newline @ ''</s:Body>'' @ newline @ ''</s:Envelope>''"])
      (simp add: mapping_args_def show_word_def suffix_def)
qed

section \<open>The announced URL is lower-cased\<close>

definition ascii_upper :: "char \<Rightarrow> bool" where
  "ascii_upper c \<longleftrightarrow> (of_char c :: nat) \<in> {65..90}"

definition ascii_lowercase :: "string \<Rightarrow> string" where
  "ascii_lowercase s = map (\<lambda>c. let n = of_char c :: nat in if 65 \<le> n \<and> n \<le> 90 then char_of (n + 32) else c) s"

text \<open>Facts to run the client on ASCII texts.\<close>

definition ascii_text :: "string \<Rightarrow> bool" where
  "ascii_text s \<longleftrightarrow> list_all (\<lambda>c. \<not> digit7 c) s"

definition graphic :: "char \<Rightarrow> bool" where
  "graphic c \<longleftrightarrow> (of_char c :: nat) \<in> {33..126}"

lemma ascii_text_byte: "\<not> digit7 c \<Longrightarrow> (of_char c :: u8) < 0x80"
proof (cases c)
  case (Char b0 b1 b2 b3 b4 b5 b6 b7)
  assume "\<not> digit7 c"
  with Char show ?thesis by (cases b0; cases b1; cases b2; cases b3; cases b4; cases b5; cases b6) simp_all
qed

lemma ascii_text_bytes: "ascii_text s \<Longrightarrow> ascii (as_bytes s)"
  by (simp add: ascii_text_def ascii_def as_bytes_def list_all_iff ascii_text_byte)

lemma ascii_text_ok: "ascii_text s \<Longrightarrow> str_ok s"
  by (induction s) (auto simp: ascii_text_def str_ok_def as_bytes_def ascii_text_byte)

lemma ascii_text_lossy: "ascii_text s \<Longrightarrow> from_utf8_lossy (as_bytes s) = s"
  by (simp add: from_utf8_lossy_ascii ascii_text_bytes)

lemma white_space_chars:
  "map (of_char \<circ> hd) white_space =
     [9, 10, 11, 12, 13, 32, 0xC2, 0xC2, 0xE1, 0xE2, 0xE2, 0xE2, 0xE2, 0xE2, 0xE2, 0xE2, 0xE2, 0xE2, 0xE2, 0xE2, 0xE2, 0xE2, 0xE2, 0xE2, 0xE3 :: nat]"
  "map (of_char \<circ> last) white_space =
     [9, 10, 11, 12, 13, 32, 0x85, 0xA0, 0x80, 0x80, 0x81, 0x82, 0x83, 0x84, 0x85, 0x86, 0x87, 0x88, 0x89, 0x8A,
      0xA8, 0xA9, 0xAF, 0x9F, 0x80 :: nat]"
  by (simp_all add: white_space_def of_bytes_def)


lemma trim_start_graphic: "graphic (hd s) \<Longrightarrow> trim_start_fuel n s = s"
proof (cases n)
  case (Suc m)
  assume g: "graphic (hd s)"
  have "\<not> starts_with s w" if "w \<in> set white_space" for w
  proof
    assume w: "starts_with s w"
    have "w \<noteq> []" using white_space_nonempty [OF that] by simp
    with w have "hd s = hd w" by (auto simp: starts_with_def prefix_def)
    moreover have "(of_char (hd w) :: nat) \<in> set (map (of_char \<circ> hd) white_space)" using that by simp
    ultimately show False using g unfolding white_space_chars graphic_def by auto
  qed
  then have "find (starts_with s) white_space = None" by (simp add: find_None_iff)
  with Suc show ?thesis by simp
qed simp

lemma trim_end_graphic: "graphic (last s) \<Longrightarrow> trim_end_fuel n s = s"
proof (cases n)
  case (Suc m)
  assume g: "graphic (last s)"
  have "\<not> ends_with s w" if "w \<in> set white_space" for w
  proof
    assume w: "ends_with s w"
    have "w \<noteq> []" using white_space_nonempty [OF that] by simp
    with w have "last s = last w" by (auto simp: ends_with_def suffix_def)
    moreover have "(of_char (last w) :: nat) \<in> set (map (of_char \<circ> last) white_space)" using that by simp
    ultimately show False using g unfolding white_space_chars graphic_def by auto
  qed
  then have "find (ends_with s) white_space = None" by (simp add: find_None_iff)
  with Suc show ?thesis by simp
qed simp

lemma str_trim_graphic: "graphic (hd s) \<Longrightarrow> graphic (last s) \<Longrightarrow> str_trim s = s"
  by (simp add: str_trim_def trim_start_graphic trim_end_graphic)

lemma str_trim_space: "s \<noteq> [] \<Longrightarrow> graphic (hd s) \<Longrightarrow> graphic (last s) \<Longrightarrow> str_trim (CHR '' '' # s) = s"
proof -
  assume s: "s \<noteq> []" "graphic (hd s)" "graphic (last s)"
  have "find (starts_with (CHR '' '' # s)) white_space = Some '' ''"
    by (simp add: white_space_def of_bytes_def starts_with_def)
  with s show ?thesis by (simp add: str_trim_def trim_start_graphic trim_end_graphic)
qed

definition demo_text :: "string list \<Rightarrow> string" where
  "demo_text ls = concat (map (\<lambda>l. l @ crlf) ls)"

definition demo_lan :: "lan" where
  "demo_lan =
     \<lparr>lan_searched = True,
      lan_replies = [as_bytes (demo_text [''HTTP/1.1 200 OK'', ''LOCATION: http://10.0.0.1:5000/rootDesc.xml''])],
      lan_source = Some (V4 0x0A000002 4444), lan_lowercase = ascii_lowercase\<rparr>"

definition demo_answer :: "string \<Rightarrow> http_answer" where
  "demo_answer body = Answered (as_bytes (demo_text [''HTTP/1.1 200 OK'', []] @ body))"

definition demo_description :: string where
  "demo_description = ''<serviceType>'' @ SERVICE @ ''</serviceType><controlURL>/ctl</controlURL>''"

definition demo_igd :: "igd" where
  "demo_igd =
     \<lparr>igd_answers =
        [demo_answer demo_description,
         demo_answer ''<NewExternalIPAddress>203.0.113.9</NewExternalIPAddress>'',
         demo_answer ''<u:AddPortMappingResponse/>''],
      igd_sent = []\<rparr>"

lemma char_of_code: "n < 256 \<Longrightarrow> char_of n = c \<longleftrightarrow> of_char c = n" for n :: nat
  by auto

lemma demo_locations: "locations demo_lan = [''http://10.0.0.1:5000/rootdesc.xml'']"
proof -
  define reply where "reply = demo_text [''HTTP/1.1 200 OK'', ''LOCATION: http://10.0.0.1:5000/rootDesc.xml'']"
  have "ascii_text reply" unfolding reply_def by code_simp
  moreover have "ascii_lowercase reply = demo_text [''http/1.1 200 ok'', ''location: http://10.0.0.1:5000/rootdesc.xml'']"
    by (simp add: reply_def demo_text_def ascii_lowercase_def crlf_def char_of_code)
  moreover have "str_lines (demo_text [''http/1.1 200 ok'', ''location: http://10.0.0.1:5000/rootdesc.xml''])
    = [''http/1.1 200 ok'', ''location: http://10.0.0.1:5000/rootdesc.xml'']"
    by code_simp
  ultimately have "str_lines (lan_lowercase demo_lan (from_utf8_lossy (as_bytes reply)))
    = [''http/1.1 200 ok'', ''location: http://10.0.0.1:5000/rootdesc.xml'']"
    by (simp add: ascii_text_lossy demo_lan_def)
  then have "reply_locations demo_lan (as_bytes reply) = [''http://10.0.0.1:5000/rootdesc.xml'']"
    by (simp add: reply_locations_def strip_prefix_def starts_with_def str_trim_space graphic_def map_filter_simps)
  then show ?thesis by (simp add: locations_def demo_lan_def reply_def)
qed

lemma demo_answered:
  "ascii_text body \<Longrightarrow> http_exchange host request \<lparr>igd_answers = demo_answer body # as, igd_sent = sent\<rparr>
    = (Some (demo_text [''HTTP/1.1 200 OK'', []] @ body), \<lparr>igd_answers = as, igd_sent = sent @ [(host, request)]\<rparr>)"
proof -
  assume "ascii_text body"
  moreover have "ascii_text (demo_text [''HTTP/1.1 200 OK'', []])" by code_simp
  ultimately have "ascii_text (demo_text [''HTTP/1.1 200 OK'', []] @ body)" by (simp add: ascii_text_def)
  then show ?thesis by (simp add: http_exchange_def demo_answer_def ascii_text_ok)
qed

lemma demo_body: "body_of (demo_text [''HTTP/1.1 200 OK'', []] @ body) = Some body"
  by (simp add: body_of_def demo_text_def crlf_def starts_with_def)

lemma demo_discover:
  "discover_control_url demo_lan demo_igd =
     (Some ''http://10.0.0.1:5000/ctl'',
      \<lparr>igd_answers = [demo_answer ''<NewExternalIPAddress>203.0.113.9</NewExternalIPAddress>'',
                      demo_answer ''<u:AddPortMappingResponse/>''],
       igd_sent = [(''10.0.0.1:5000'', get_request ''10.0.0.1:5000'' ''/rootdesc.xml'')]\<rparr>)"
proof -
  have "ascii_text demo_description" by code_simp
  moreover have "split_url ''http://10.0.0.1:5000/rootdesc.xml'' = Some (''10.0.0.1:5000'', ''/rootdesc.xml'')" by code_simp
  moreover have "str_find SERVICE demo_description = Some 13" by code_simp
  moreover have "tag_text (drop 13 demo_description) ''controlURL'' = Some ''/ctl''"
    by (simp add: demo_description_def tag_text_def open_tag_def close_tag_def SERVICE_def starts_with_def
      str_trim_graphic graphic_def)
  moreover have "resolve_control ''http://10.0.0.1:5000/rootdesc.xml'' ''/ctl'' = Some ''http://10.0.0.1:5000/ctl''"
    by code_simp
  ultimately show ?thesis
    using demo_locations
    by (simp add: discover_control_url_def locations_def device_control_url_def http_get_def demo_igd_def
      demo_answered demo_body control_of_def str_contains_def)
       (simp add: demo_lan_def)
qed

lemma demo_try_map: "fst (try_map demo_lan 4444 demo_igd) = Some (V4 0xCB007109 4444)"
proof -
  have "ascii_text ''<NewExternalIPAddress>203.0.113.9</NewExternalIPAddress>''" "ascii_text ''<u:AddPortMappingResponse/>''"
    by code_simp+
  moreover have "split_url ''http://10.0.0.1:5000/ctl'' = Some (''10.0.0.1:5000'', ''/ctl'')" by code_simp
  moreover have "tag_text ''<NewExternalIPAddress>203.0.113.9</NewExternalIPAddress>'' ''NewExternalIPAddress''
    = Some ''203.0.113.9''"
    by (simp add: tag_text_def open_tag_def close_tag_def starts_with_def str_trim_graphic graphic_def)
  moreover have "parse_v4 (str_trim ''203.0.113.9'') = Some 0xCB007109"
  proof -
    have "show_v4 0xCB007109 = ''203.0.113.9''" by code_simp
    then show ?thesis using parse_v4_show [of "0xCB007109"] by (simp add: str_trim_graphic graphic_def)
  qed
  moreover have "str_contains ''<u:AddPortMappingResponse/>'' ''AddPortMappingResponse''" by code_simp
  moreover have "local_ip demo_lan = Some 0x0A000002"
    by (simp add: local_ip_def demo_lan_def v4_is_loopback_def v4_octet_0)
  ultimately show ?thesis
    by (simp add: try_map_def demo_discover get_external_ip_def add_port_mapping_def soap_call_def demo_answered demo_body)
qed

theorem try_map_sound_witness:
  "fst (try_map demo_lan 4444 demo_igd) = Some (V4 0xCB007109 4444)
   \<and> (\<exists>ds host path client. igd_sent (snd (try_map demo_lan 4444 demo_igd)) = ds @
      [(host, soap_request host path ''GetExternalIPAddress'' []),
       (host, soap_request host path ''AddPortMapping'' (mapping_args 4444 client))])"
proof -
  obtain w' where t: "try_map demo_lan 4444 demo_igd = (Some (V4 0xCB007109 4444), w')"
    using demo_try_map by (metis prod.collapse)
  have "igd_sent demo_igd = []" by (simp add: demo_igd_def)
  with try_map_sound [OF t] show ?thesis unfolding t fst_conv snd_conv by (metis append_Nil)
qed

lemma reply_locations_lower:
  assumes "\<And>s c. c \<in> set (lan_lowercase h s) \<Longrightarrow> \<not> ascii_upper c" "l \<in> set (reply_locations h reply)" "c \<in> set l"
  shows "\<not> ascii_upper c"
proof -
  obtain line r where line: "line \<in> set (str_lines (lan_lowercase h (from_utf8_lossy reply)))"
    "strip_prefix ''location:'' line = Some r" "l = str_trim r"
    using assms(2) by (auto simp: reply_locations_def map_filter_def)
  have "c \<in> set r" using assms(3) line(3) str_trim_sub by blast
  then have "c \<in> set line" using line(2) by (auto simp: strip_prefix_Some)
  then have "c \<in> set (lan_lowercase h (from_utf8_lossy reply))"
    using lines_acc_chars [of line "[]"] line(1) by (auto simp: str_lines_def)
  then show ?thesis by (rule assms(1))
qed

text \<open>C17: The search answer is lower-cased whole, the announced URL with it: whatever the routers
  announce, no description is ever asked for under a path with a capital letter, so a device
  that serves its description under such a path is not found.\<close>

theorem description_lowercased:
  assumes "\<And>s c. c \<in> set (lan_lowercase h s) \<Longrightarrow> \<not> ascii_upper c"
    and "discover_control_url h w = (url, w')"
  shows "\<exists>rs. igd_sent w' = igd_sent w @ rs
    \<and> (\<forall>(host, request) \<in> set rs. \<exists>path. request = get_request host path \<and> (\<forall>c \<in> set path. \<not> ascii_upper c))"
proof -
  obtain rs where rs: "asked w w' rs" "\<forall>r \<in> set rs. describes (locations h) r"
    using discover_asked [OF assms(2)] by metis
  have "\<exists>path. request = get_request host path \<and> (\<forall>c \<in> set path. \<not> ascii_upper c)"
    if "(host, request) \<in> set rs" for host request
  proof -
    have "describes (locations h) (host, request)" using rs(2) that by blast
    then obtain l path where l: "l \<in> set (locations h)" "split_url l = Some (host, path)" "request = get_request host path"
      by (auto simp: describes_def)
    then obtain reply where "l \<in> set (reply_locations h reply)" by (auto simp: locations_def)
    then have lower: "\<not> ascii_upper c" if "c \<in> set l" for c using reply_locations_lower assms(1) that by blast
    have "set path \<subseteq> insert CHR ''/'' (set l)" using l(2) unfolding split_url_Some by auto
    moreover have "\<not> ascii_upper CHR ''/''" by (simp add: ascii_upper_def)
    ultimately have "\<forall>c \<in> set path. \<not> ascii_upper c" using lower by auto
    with l(3) show ?thesis by blast
  qed
  with rs(1) show ?thesis by (auto simp: asked_def)
qed

lemma ascii_lowercase_lower: "c \<in> set (ascii_lowercase s) \<Longrightarrow> \<not> ascii_upper c"
proof -
  assume "c \<in> set (ascii_lowercase s)"
  then obtain x where "c = (let n = of_char x :: nat in if 65 \<le> n \<and> n \<le> 90 then char_of (n + 32) else x)"
    by (auto simp: ascii_lowercase_def)
  then show ?thesis by (auto simp: ascii_upper_def Let_def split: if_splits)
qed

theorem description_lowercased_witness:
  "\<exists>w' rs. discover_control_url demo_lan demo_igd = (Some ''http://10.0.0.1:5000/ctl'', w') \<and> igd_sent w' = rs
    \<and> (\<forall>(host, request) \<in> set rs. \<exists>path. request = get_request host path \<and> (\<forall>c \<in> set path. \<not> ascii_upper c))"
proof -
  obtain w' where d: "discover_control_url demo_lan demo_igd = (Some ''http://10.0.0.1:5000/ctl'', w')"
    using demo_discover by blast
  have "\<And>s c. c \<in> set (lan_lowercase demo_lan s) \<Longrightarrow> \<not> ascii_upper c"
    using ascii_lowercase_lower by (auto simp: demo_lan_def)
  from description_lowercased [OF this d] d show ?thesis by (auto simp: demo_igd_def)
qed

end
