(* ===== verification/Logger.thy ===== *)
theory Logger
  imports Format "HOL-Library.Signed_Division"
begin

text \<open>
  The logger of \<open>src/src/log.rs\<close>: the verbosity, the UTC time stamp and the line written for a
  message. The calendar arithmetic is on \<open>i64\<close> with a division that rounds towards zero
  (\<open>sdiv\<close>); no time of a \<open>SystemTime\<close> makes it overflow, so the numbers are \<open>int\<close>. It is
  proved equal to counting days one by one through the Gregorian calendar.
\<close>

section \<open>Verbosity\<close>

definition DEFAULT_LEVEL :: u8 where
  "DEFAULT_LEVEL = 2"

text \<open>\<open>LEVEL\<close> is the state; an unknown name leaves it.\<close>

definition set_level :: "string \<Rightarrow> u8 \<Rightarrow> u8" where
  "set_level level cur =
     (if level = ''error'' then 0
      else if level = ''warn'' then 1
      else if level = ''info'' then 2
      else if level = ''debug'' then 3
      else if level = ''trace'' then 4
      else cur)"

definition level_enabled :: "u8 \<Rightarrow> u8 \<Rightarrow> bool" where
  "level_enabled cur level \<longleftrightarrow> level \<le> cur"

section \<open>Dates\<close>

definition civil_from_days :: "int \<Rightarrow> int \<times> int \<times> int" where
  "civil_from_days days =
     (let z = days + 719468;
          era = (if z \<ge> 0 then z sdiv 146097 else (z - 146096) sdiv 146097);
          day_of_era = z - era * 146097;
          year_of_era =
            (day_of_era - day_of_era sdiv 1460 + day_of_era sdiv 36524 - day_of_era sdiv 146096) sdiv 365;
          year = year_of_era + era * 400;
          day_of_year = day_of_era - (365 * year_of_era + year_of_era sdiv 4 - year_of_era sdiv 100);
          month_part = (5 * day_of_year + 2) sdiv 153;
          day = day_of_year - (153 * month_part + 2) sdiv 5 + 1;
          month = month_part + (if month_part < 10 then 3 else - 9);
          year = year + (if month \<le> 2 then 1 else 0) in
      (year, month, day))"

text \<open>
  \<open>{n:0w}\<close> of a signed integer, the sign counted in the width.
\<close>

definition pad_int :: "nat \<Rightarrow> int \<Rightarrow> string" where
  "pad_int w n =
     (if n < 0 then ''-'' @ pad_zeros (w - 1) (show_nat (nat (- n))) else pad_zeros w (show_nat (nat n)))"

text \<open>The time is in nanoseconds from the epoch; a time before it counts as the epoch.\<close>

definition utc_timestamp :: "int \<Rightarrow> string" where
  "utc_timestamp now =
     (let elapsed = max 0 now;
          seconds = elapsed div 1000000000;
          days = seconds div 86400;
          day_seconds = seconds mod 86400;
          (year, month, day) = civil_from_days days;
          hour = day_seconds sdiv 3600;
          minute = (day_seconds smod 3600) sdiv 60;
          second = day_seconds smod 60;
          millis = elapsed mod 1000000000 div 1000000 in
      pad_int 4 year @ ''-'' @ pad_int 2 month @ ''-'' @ pad_int 2 day @ ''T''
        @ pad_int 2 hour @ '':'' @ pad_int 2 minute @ '':'' @ pad_int 2 second @ ''.'' @ pad_int 3 millis)"

text \<open>\<open>{name:<w}\<close>: spaces after a short name.\<close>

definition pad_right :: "nat \<Rightarrow> string \<Rightarrow> string" where
  "pad_right w s = s @ replicate (w - length s) CHR '' ''"

definition log_line :: "u8 \<Rightarrow> int \<Rightarrow> string \<Rightarrow> u8 \<Rightarrow> string \<Rightarrow> string option" where
  "log_line cur now level_name level msg =
     (if level_enabled cur level
      then Some (''['' @ utc_timestamp now @ ''] '' @ pad_right 5 level_name @ '' '' @ msg)
      else None)"

datatype log_call = Trace | Debug | Info | Warn | Error

fun log_level :: "log_call \<Rightarrow> string \<times> u8" where
  "log_level Trace = (''TRACE'', 4)"
| "log_level Debug = (''DEBUG'', 3)"
| "log_level Info = (''INFO'', 2)"
| "log_level Warn = (''WARN'', 1)"
| "log_level Error = (''ERROR'', 0)"

text \<open>\<open>trace\<close>, \<open>debug\<close>, \<open>info\<close>, \<open>warn\<close> and \<open>error\<close>.\<close>

definition log_at :: "log_call \<Rightarrow> u8 \<Rightarrow> int \<Rightarrow> string \<Rightarrow> string option" where
  "log_at l cur now msg = (case log_level l of (level_name, level) \<Rightarrow> log_line cur now level_name level msg)"

section \<open>The calendar as a specification\<close>

text \<open>The Gregorian calendar, one day at a time.\<close>

definition leap_year :: "int \<Rightarrow> bool" where
  "leap_year y \<longleftrightarrow> y mod 4 = 0 \<and> (y mod 100 \<noteq> 0 \<or> y mod 400 = 0)"

definition month_days :: "int \<Rightarrow> int \<Rightarrow> int" where
  "month_days y m = (if m = 2 then (if leap_year y then 29 else 28) else if m \<in> {4, 6, 9, 11} then 30 else 31)"

fun next_day :: "int \<times> int \<times> int \<Rightarrow> int \<times> int \<times> int" where
  "next_day (y, m, d) =
     (if d < month_days y m then (y, m, d + 1) else if m < 12 then (y, m + 1, 1) else (y + 1, 1, 1))"

fun date_ok :: "int \<times> int \<times> int \<Rightarrow> bool" where
  "date_ok (y, m, d) \<longleftrightarrow> 1 \<le> m \<and> m \<le> 12 \<and> 1 \<le> d \<and> d \<le> month_days y m"

text \<open>The number of a date, in years that begin in March.\<close>

definition march_days :: "int \<Rightarrow> int \<Rightarrow> int \<Rightarrow> int" where
  "march_days y mp d =
     365 * y + y div 4 - y div 100 + y div 400 + ((153 * mp + 2) div 5 + d - 1) - 719468"

fun day_number :: "int \<times> int \<times> int \<Rightarrow> int" where
  "day_number (y, m, d) = (if m \<le> 2 then march_days (y - 1) (m + 9) d else march_days y (m - 3) d)"

lemma sdiv_nonneg: "0 \<le> a \<Longrightarrow> 0 < b \<Longrightarrow> a sdiv b = a div b" for a b :: int
  by (cases "a = 0") (simp_all add: signed_divide_int_def sgn_if)

lemma era_div: "(if z \<ge> 0 then z sdiv 146097 else (z - 146096) sdiv 146097) = z div 146097" for z :: int
proof (cases "z \<ge> 0")
  case True
  then show ?thesis by (simp add: sdiv_nonneg)
next
  case False
  then have "(z - 146096) sdiv 146097 = - ((146096 - z) div 146097)"
    by (simp add: signed_divide_int_def sgn_if)
  also have "(146096 - z) div 146097 = - (z div 146097)"
    by (rule int_div_pos_eq [where r = "146096 - z mod 146097"]) (simp_all add: minus_div_mult_eq_mod [symmetric])
  finally show ?thesis using False by simp
qed

text \<open>Division of a number one less, and of a year in its era.\<close>

lemma div_pred: "0 < k \<Longrightarrow> (y - 1) div k = y div k - (if y mod k = 0 then 1 else 0)" for y k :: int
proof (cases "y mod k = 0")
  case True
  assume "0 < k"
  then have "(y - 1) div k = y div k - 1"
    by (intro int_div_pos_eq [where r = "k - 1"])
      (use True in \<open>simp_all add: algebra_simps minus_mod_eq_mult_div [symmetric]\<close>)
  with True show ?thesis by simp
next
  case False
  assume k: "0 < k"
  then have "0 \<le> y mod k - 1" "y mod k - 1 < k"
    using False pos_mod_sign [of k y] pos_mod_bound [of k y] by linarith+
  then have "(y - 1) div k = y div k"
    by (intro int_div_pos_eq [where r = "y mod k - 1"]) simp_all
  with False show ?thesis by simp
qed

lemma mod_era: "k dvd 400 \<Longrightarrow> (y mod 400 + 1) mod k = (y + 1) mod k" for y k :: int
  by (metis mod_add_left_eq mod_mod_cancel)

lemma div_era: "400 = k * j \<Longrightarrow> 0 < k \<Longrightarrow> y div k = j * (y div 400) + y mod 400 div k" for y k j :: int
proof -
  assume "400 = k * j" "0 < k"
  then have "y div k = (y mod 400 + k * (j * (y div 400))) div k" by (simp add: mult.assoc [symmetric])
  with \<open>0 < k\<close> show ?thesis by simp
qed


section \<open>The calendar is computed right\<close>

text \<open>A year in its era of 400, by centuries and groups of four years.\<close>

lemma year_in_era:
  fixes c q y doy doe :: int
  assumes c: "0 \<le> c" "c \<le> 3" and q: "0 \<le> q" "q \<le> 24" and y: "0 \<le> y" "y \<le> 3"
    and doy: "0 \<le> doy" "doy \<le> 365" "doy = 365 \<longrightarrow> y = 3 \<and> (q < 24 \<or> c = 3)"
    and doe: "doe = 36524 * c + 1461 * q + 365 * y + doy"
  shows "0 \<le> doe \<and> doe \<le> 146096
    \<and> (doe - doe div 1460 + doe div 36524 - doe div 146096) div 365 = 100 * c + 4 * q + y"
proof -
  define z where "z = (if c = 3 \<and> q = 24 \<and> y = 3 \<and> doy = 365 then 1 else 0 :: int)"
  define turn where "turn = (if 1460 \<le> 24 * c + q + 365 * y + doy then 1 else 0 :: int)"
  have b: "0 \<le> doe" "doe \<le> 146096" using assms by auto
  have d1: "doe div 146096 = z"
  proof (cases "c = 3 \<and> q = 24 \<and> y = 3 \<and> doy = 365")
    case False
    then have "doe < 146096" using assms by auto
    then show ?thesis using False b by (simp add: z_def)
  qed (simp add: z_def doe)
  have d2: "doe div 36524 = c + z"
  proof (cases "c = 3 \<and> q = 24 \<and> y = 3 \<and> doy = 365")
    case False
    then have "1461 * q + 365 * y + doy < 36524" using assms by auto
    then show ?thesis using False assms by (simp add: z_def)
  qed (simp add: z_def doe)
  have d3: "doe div 1460 = 25 * c + q + turn"
  proof -
    have "doe = 1460 * (25 * c + q) + (24 * c + q + 365 * y + doy)" using doe by simp
    then have "doe div 1460 = 25 * c + q + (24 * c + q + 365 * y + doy) div 1460" by simp
    moreover have "(24 * c + q + 365 * y + doy) div 1460 = turn"
    proof (cases "1460 \<le> 24 * c + q + 365 * y + doy")
      case True
      moreover have "24 * c + q + 365 * y + doy < 2920" using assms by auto
      ultimately have "(24 * c + q + 365 * y + doy) div 1460 = 1"
        by (intro int_div_pos_eq [where r = "24 * c + q + 365 * y + doy - 1460"]) simp_all
      then show ?thesis using True by (simp add: turn_def)
    next
      case False
      then show ?thesis using assms by (simp add: turn_def div_pos_pos_trivial)
    qed
    ultimately show ?thesis by simp
  qed
  have "0 \<le> doy - turn \<and> doy - turn \<le> 364"
    using assms by (auto simp: turn_def split: if_splits)
  moreover have "doe - doe div 1460 + doe div 36524 - doe div 146096 = 365 * (100 * c + 4 * q + y) + (doy - turn)"
    unfolding d1 d2 d3 using doe by simp
  ultimately have "(doe - doe div 1460 + doe div 36524 - doe div 146096) div 365 = 100 * c + 4 * q + y"
    by (intro int_div_pos_eq [where r = "doy - turn"]) simp_all
  with b show ?thesis by simp
qed

lemma year_of_era:
  fixes yoe doy doe :: int
  assumes yoe: "0 \<le> yoe" "yoe \<le> 399"
    and doy: "0 \<le> doy" "doy \<le> 365" "doy = 365 \<longrightarrow> leap_year (yoe + 1)"
    and doe: "doe = 365 * yoe + yoe div 4 - yoe div 100 + doy"
  shows "0 \<le> doe \<and> doe \<le> 146096
    \<and> (doe - doe div 1460 + doe div 36524 - doe div 146096) div 365 = yoe"
proof -
  define c where "c = yoe div 100"
  define q where "q = yoe mod 100 div 4"
  define y where "y = yoe mod 100 mod 4"
  have "yoe mod 100 = 4 * q + y" "yoe = 100 * c + yoe mod 100" unfolding c_def q_def y_def by simp_all
  then have yoe_eq: "yoe = 100 * c + 4 * q + y" by simp
  have y: "0 \<le> y" "y \<le> 3" unfolding y_def by presburger+
  have q: "0 \<le> q" "q \<le> 24" unfolding q_def by presburger+
  have c: "0 \<le> c" "c \<le> 3" using yoe unfolding c_def by presburger+
  have four: "yoe div 4 = 25 * c + q"
    by (rule int_div_pos_eq [where r = y]) (use yoe_eq y in simp_all)
  have "doe = 36524 * c + 1461 * q + 365 * y + doy"
    using doe [unfolded four, folded c_def] yoe_eq by linarith
  moreover have "y = 3 \<and> (q < 24 \<or> c = 3)" if "doy = 365"
  proof -
    have l: "(yoe + 1) mod 4 = 0" "(yoe + 1) mod 100 \<noteq> 0 \<or> (yoe + 1) mod 400 = 0"
      using that doy(3) by (simp_all add: leap_year_def)
    have y3: "y = 3" using l(1) y yoe_eq by presburger
    have False if "q = 24" "c \<noteq> 3"
    proof -
      have "c = 0 \<or> c = 1 \<or> c = 2" using c that by presburger
      then show False using l(2) yoe_eq y3 that by (elim disjE) simp_all
    qed
    with y3 q show ?thesis by force
  qed
  ultimately show ?thesis using year_in_era [of c q y doy doe] doy yoe_eq c q y by simp
qed

lemma month_split:
  fixes mp d :: int
  assumes "0 \<le> mp" "mp \<le> 11" "1 \<le> d" "d \<le> (if mp = 11 then 29 else if mp \<in> {1, 3, 6, 8} then 30 else 31)"
  defines "doy \<equiv> (153 * mp + 2) div 5 + d - 1"
  shows "(5 * doy + 2) div 153 = mp \<and> 0 \<le> doy \<and> doy \<le> 365 \<and> (doy = 365 \<longrightarrow> mp = 11 \<and> d = 29)"
proof -
  have "mp = 0 \<or> mp = 1 \<or> mp = 2 \<or> mp = 3 \<or> mp = 4 \<or> mp = 5 \<or> mp = 6 \<or> mp = 7 \<or> mp = 8
    \<or> mp = 9 \<or> mp = 10 \<or> mp = 11" using assms(1,2) by presburger
  then show ?thesis using assms(3,4) unfolding doy_def by (elim disjE; simp; presburger)
qed

lemma leap_era: "leap_year (y mod 400 + 1) = leap_year (y + 1)"
  by (simp add: leap_year_def mod_era)

lemma civil_march:
  fixes y mp d :: int
  assumes mp: "0 \<le> mp" "mp \<le> 11"
    and d: "1 \<le> d" "d \<le> (if mp = 11 then 29 else if mp \<in> {1, 3, 6, 8} then 30 else 31)"
    and leap: "mp = 11 \<and> d = 29 \<longrightarrow> leap_year (y + 1)"
  shows "civil_from_days (march_days y mp d) =
    (if mp < 10 then (y, mp + 3, d) else (y + 1, mp - 9, d))"
proof -
  define doy where "doy = (153 * mp + 2) div 5 + d - 1"
  define yoe where "yoe = y mod 400"
  define doe where "doe = 365 * yoe + yoe div 4 - yoe div 100 + doy"
  note m = month_split [OF mp d, folded doy_def]
  have yoe: "0 \<le> yoe" "yoe \<le> 399" by (simp_all add: yoe_def pos_mod_bound [of 400 y, simplified] zle_diff1_eq [symmetric])
  have "doy = 365 \<longrightarrow> leap_year (yoe + 1)" using m leap leap_era [of y] by (simp add: yoe_def)
  then have e: "0 \<le> doe" "doe \<le> 146096" "(doe - doe div 1460 + doe div 36524 - doe div 146096) div 365 = yoe"
    using year_of_era [OF yoe _ _ _ doe_def] m by blast+
  have y: "y = 400 * (y div 400) + yoe" by (simp add: yoe_def)
  have parts: "y div 4 = 100 * (y div 400) + yoe div 4" "y div 100 = 4 * (y div 400) + yoe div 100"
    using div_era [of 4 100 y] div_era [of 100 4 y] by (simp_all add: yoe_def)
  have total: "365 * a + (100 * e + p) - (4 * e + q) + e + r - 719468 + 719468 = 146097 * e + (365 * b + p - q + r)"
    if "a = 400 * e + b" for a b e p q r :: int using that by simp
  have z: "march_days y mp d + 719468 = 146097 * (y div 400) + doe"
    unfolding march_days_def doe_def doy_def parts by (rule total [OF y])
  have era: "(march_days y mp d + 719468) div 146097 = y div 400" using z e by simp
  have rest: "march_days y mp d + 719468 - y div 400 * 146097 = doe" using z by simp
  have pos: "0 \<le> doe - doe div 1460 + doe div 36524 - doe div 146096"
    using e(3) yoe pos_imp_zdiv_nonneg_iff [of 365 "doe - doe div 1460 + doe div 36524 - doe div 146096"] by simp
  have nonneg: "doe sdiv 1460 = doe div 1460" "doe sdiv 36524 = doe div 36524"
    "doe sdiv 146096 = doe div 146096" "yoe sdiv 4 = yoe div 4" "yoe sdiv 100 = yoe div 100"
    "(5 * doy + 2) sdiv 153 = (5 * doy + 2) div 153" "(153 * mp + 2) sdiv 5 = (153 * mp + 2) div 5"
    using e yoe m mp by (simp_all add: sdiv_nonneg)
  have year: "(doe - doe sdiv 1460 + doe sdiv 36524 - doe sdiv 146096) sdiv 365 = yoe"
    unfolding nonneg using pos e by (simp add: sdiv_nonneg)
  have doy': "doe - (365 * yoe + yoe sdiv 4 - yoe sdiv 100) = doy" unfolding nonneg doe_def by simp
  have y': "yoe + y div 400 * 400 = y" unfolding yoe_def by simp
  have day: "doy - (153 * mp + 2) sdiv 5 + 1 = d" unfolding nonneg doy_def by simp
  have mp': "(5 * doy + 2) sdiv 153 = mp" unfolding nonneg using m by simp
  show ?thesis
    unfolding civil_from_days_def Let_def era_div era rest year doy' mp' day y' using mp by simp
qed

lemma civil_of_date: "date_ok x \<Longrightarrow> civil_from_days (day_number x) = x"
proof (cases x)
  case (fields y m d)
  assume ok: "date_ok x"
  show ?thesis
  proof (cases "m \<le> 2")
    case True
    with ok fields have "m = 1 \<or> m = 2" by auto
    with ok fields civil_march [of "m + 9" d "y - 1"] show ?thesis
      by (auto simp: month_days_def split: if_splits)
  next
    case False
    with ok fields civil_march [of "m - 3" d y] show ?thesis
      by (auto simp: month_days_def split: if_splits)
  qed
qed

lemma next_day_ok:
  assumes "date_ok x"
  shows "date_ok (next_day x) \<and> day_number (next_day x) = day_number x + 1"
proof (cases x)
  case (fields y m d)
  with assms have "1 \<le> m" "m \<le> 12" by simp_all
  then have m: "m = 1 \<or> m = 2 \<or> m = 3 \<or> m = 4 \<or> m = 5 \<or> m = 6 \<or> m = 7 \<or> m = 8 \<or> m = 9 \<or> m = 10
    \<or> m = 11 \<or> m = 12" by presburger
  show ?thesis
  proof (cases "d < month_days y m")
    case True
    with fields assms show ?thesis by (simp add: march_days_def)
  next
    case False
    with fields assms have d: "d = month_days y m" by simp
    show ?thesis
    proof (cases "m = 2")
      case True
      then show ?thesis using d fields
        by (auto simp: march_days_def month_days_def leap_year_def div_pred split: if_splits)
    next
      case False
      with m d fields show ?thesis
        by (elim disjE) (simp_all add: march_days_def month_days_def)
    qed
  qed
qed

lemma civil_days_ok:
  "date_ok ((next_day ^^ n) (1970, 1, 1)) \<and> day_number ((next_day ^^ n) (1970, 1, 1)) = int n"
proof (induction n)
  case (Suc n)
  then show ?case using next_day_ok [of "(next_day ^^ n) (1970, 1, 1)"] by simp
qed (simp add: march_days_def month_days_def)

text \<open>C12: The date of the log's time stamps is right: \<open>n\<close> days after the epoch it is the date
  reached by counting \<open>n\<close> days through the Gregorian calendar from the first of January 1970,
  and, for any day, before the epoch too, a calendar date is found from its own day number.\<close>

theorem civil_calendar:
  "civil_from_days (int n) = (next_day ^^ n) (1970, 1, 1)
   \<and> (date_ok x \<longrightarrow> civil_from_days (day_number x) = x)"
  using civil_days_ok [of n] civil_of_date [of x] civil_of_date [of "(next_day ^^ n) (1970, 1, 1)"]
  by simp

theorem civil_calendar_witness:
  "civil_from_days 20000 = (2024, 10, 4) \<and> civil_from_days (- 1) = (1969, 12, 31)"
  using civil_calendar [of 0 "(2024, 10, 4)"] civil_calendar [of 0 "(1969, 12, 31)"]
  by (simp add: march_days_def month_days_def)

section \<open>The time stamp can be read back\<close>

text \<open>A reader of the time stamp, by position: milliseconds from the epoch.\<close>

definition field_at :: "nat \<Rightarrow> nat \<Rightarrow> string \<Rightarrow> int option" where
  "field_at i w s = map_option int (parse_uint (2 ^ 64) (take w (drop i s)))"

definition read_timestamp :: "string \<Rightarrow> int option" where
  "read_timestamp s =
     (case (field_at 0 4 s, field_at 5 2 s, field_at 8 2 s, field_at 11 2 s, field_at 14 2 s,
            field_at 17 2 s, field_at 20 3 s) of
        (Some y, Some mo, Some d, Some h, Some mi, Some sec, Some ms) \<Rightarrow>
          Some ((((day_number (y, mo, d) * 24 + h) * 60 + mi) * 60 + sec) * 1000 + ms)
      | _ \<Rightarrow> None)"

lemma parse_pad_int: "0 \<le> n \<Longrightarrow> n < 2 ^ 64 \<Longrightarrow> parse_uint (2 ^ 64) (pad_int w n) = Some (nat n)"
  using parse_pad [of "nat n" "2 ^ 64" w] by (simp add: pad_int_def nat_less_iff)

lemma length_pad_int: "0 \<le> n \<Longrightarrow> n < 10 ^ w \<Longrightarrow> 0 < w \<Longrightarrow> length (pad_int w n) = w"
  using length_pad [of "nat n" w] by (simp add: pad_int_def nat_less_iff)

text \<open>Dates before the year 10000 have four digits.\<close>

lemma next_day_year: "fst x \<le> fst (next_day x)"
  by (cases x) simp

lemma march_days_late:
  assumes "10000 \<le> y" "0 \<le> mp" "1 \<le> d"
  shows "2932897 \<le> march_days y mp d"
proof -
  have "y div 100 = y div 4 div 25" using zdiv_zmult2_eq [of 25 y 4] by simp
  then have "25 * (y div 100) \<le> y div 4" by presburger
  moreover have "100 \<le> y div 100" "25 \<le> y div 400"
    using zdiv_mono1 [of 10000 y 100] zdiv_mono1 [of 10000 y 400] assms by simp_all
  moreover have "0 \<le> (153 * mp + 2) div 5" using assms by simp
  ultimately show ?thesis using assms unfolding march_days_def by linarith
qed

lemma day_number_late:
  assumes "date_ok x" "10000 \<le> fst x"
  shows "2932897 \<le> day_number x"
proof (cases x)
  case (fields y m d)
  show ?thesis
  proof (cases "m \<le> 2")
    case False
    with assms fields march_days_late [of y "m - 3" d] show ?thesis by simp
  next
    case True
    show ?thesis
    proof (cases "y = 10000")
      case True
      with assms fields \<open>m \<le> 2\<close> have "m = 1 \<or> m = 2" "1 \<le> d" by auto
      with True fields show ?thesis by (auto simp: march_days_def)
    next
      case False
      with True assms fields march_days_late [of "y - 1" "m + 9" d] show ?thesis by simp
    qed
  qed
qed

lemma civil_fields:
  assumes "0 \<le> days" "days < 2932897" "civil_from_days days = (y, m, d)"
  shows "1970 \<le> y \<and> y < 10000 \<and> 1 \<le> m \<and> m \<le> 12 \<and> 1 \<le> d \<and> d \<le> 31 \<and> day_number (y, m, d) = days"
proof -
  obtain n where n: "days = int n" using assms(1) nonneg_int_cases by blast
  note ok = civil_days_ok [of n]
  have x: "(next_day ^^ n) (1970, 1, 1) = (y, m, d)"
    using ok civil_of_date [of "(next_day ^^ n) (1970, 1, 1)"] assms(3) n by simp
  have "1970 \<le> fst ((next_day ^^ n) (1970, 1, 1))"
    by (induction n) (auto intro: order_trans [OF _ next_day_year])
  moreover have "y < 10000"
    using day_number_late [of "(y, m, d)"] ok assms(2) unfolding x n by force
  moreover have "month_days y m \<le> 31" by (simp add: month_days_def)
  ultimately show ?thesis using ok unfolding x n by auto
qed

text \<open>The parts of a time of day, and of a second.\<close>

lemma clock_split:
  "b = 86400 * (b div 86400) + a
    \<Longrightarrow> ((b div 86400 * 24 + a div 3600) * 60 + a mod 3600 div 60) * 60 + a mod 60 = b" for a b :: int
proof -
  assume b: "b = 86400 * (b div 86400) + a"
  have mi: "a mod 3600 = 60 * (a mod 3600 div 60) + a mod 60"
    using mult_div_mod_eq [of 60 "a mod 3600", symmetric] by (simp add: mod_mod_cancel)
  have sum: "((e * 24 + h) * 60 + mi) * 60 + s = c" if "a = 3600 * h + r" "r = 60 * mi + s" "c = 86400 * e + a"
    for e h mi s r c :: int using that by simp
  show ?thesis by (rule sum [OF _ mi b]) simp
qed

lemma millis_split: "a = 1000000000 * b + c \<Longrightarrow> c = 1000000 * d + e \<Longrightarrow> a = 1000000 * (b * 1000 + d) + e"
  for a b c d e :: int
  by simp

text \<open>The reader on any fields that fit their widths.\<close>

lemma read_fields:
  fixes y mo d h mi sec ms :: int
  assumes "0 \<le> y" "y < 10 ^ 4" "0 \<le> mo" "mo < 10 ^ 2" "0 \<le> d" "d < 10 ^ 2" "0 \<le> h" "h < 10 ^ 2"
    "0 \<le> mi" "mi < 10 ^ 2" "0 \<le> sec" "sec < 10 ^ 2" "0 \<le> ms" "ms < 10 ^ 3"
  defines "s \<equiv> pad_int 4 y @ ''-'' @ pad_int 2 mo @ ''-'' @ pad_int 2 d @ ''T'' @ pad_int 2 h @ '':''
    @ pad_int 2 mi @ '':'' @ pad_int 2 sec @ ''.'' @ pad_int 3 ms"
  shows "length s = 23
    \<and> read_timestamp s = Some ((((day_number (y, mo, d) * 24 + h) * 60 + mi) * 60 + sec) * 1000 + ms)"
proof -
  have len: "length (pad_int 4 y) = 4" "length (pad_int 2 mo) = 2" "length (pad_int 2 d) = 2"
    "length (pad_int 2 h) = 2" "length (pad_int 2 mi) = 2" "length (pad_int 2 sec) = 2" "length (pad_int 3 ms) = 3"
    using assms by (simp_all only: length_pad_int zero_less_numeral)
  have parse: "map_option int (parse_uint (2 ^ 64) (pad_int w v)) = Some v" if "0 \<le> v" "v < 10000" for v w
    using that by (subst parse_pad_int) simp_all
  have "field_at 0 4 s = Some y" "field_at 5 2 s = Some mo" "field_at 8 2 s = Some d"
    "field_at 11 2 s = Some h" "field_at 14 2 s = Some mi" "field_at 17 2 s = Some sec" "field_at 20 3 s = Some ms"
    unfolding field_at_def s_def
    using parse [of y 4] parse [of mo 2] parse [of d 2] parse [of h 2] parse [of mi 2] parse [of sec 2] parse [of ms 3]
      assms(1-14) by (simp_all add: len)
  moreover have "length s = 23" by (simp add: s_def len)
  ultimately show ?thesis by (simp only: read_timestamp_def prod.case option.case simp_thms)
qed

text \<open>Before the year 10000 a log line's time stamp has 23 characters and reads back as the
  time in whole milliseconds, so it loses nothing else and no two milliseconds share one.\<close>

theorem timestamp_reads_back:
  assumes "0 \<le> now" "now < 253402300800 * 1000000000"
  shows "length (utc_timestamp now) = 23 \<and> read_timestamp (utc_timestamp now) = Some (now div 1000000)"
proof -
  define secs where "secs = now div 1000000000"
  define ms where "ms = now mod 1000000000 div 1000000"
  define t where "t = secs mod 86400"
  obtain y m d where c: "civil_from_days (secs div 86400) = (y, m, d)" by (cases "civil_from_days (secs div 86400)")
  have "0 \<le> secs" "secs \<le> 253402300799"
    using assms zdiv_mono1 [of now "253402300800 * 1000000000 - 1" 1000000000]
    by (simp_all add: secs_def pos_imp_zdiv_nonneg_iff)
  then have "0 \<le> secs div 86400" "secs div 86400 < 2932897"
    using zdiv_mono1 [of secs 253402300799 86400] by (simp_all add: pos_imp_zdiv_nonneg_iff)
  note ymd = civil_fields [OF this c]
  have t: "0 \<le> t" "t < 86400" by (simp_all add: t_def)
  then have hms: "0 \<le> t div 3600" "t div 3600 < 10 ^ 2" "0 \<le> t mod 3600 div 60" "t mod 3600 div 60 < 10 ^ 2"
    "0 \<le> t mod 60" "t mod 60 < 10 ^ 2"
    using t zdiv_mono1 [of t 86399 3600] zdiv_mono1 [of "t mod 3600" 3599 60] pos_mod_bound [of 3600 t]
      pos_mod_bound [of 60 t]
    by (simp_all add: pos_imp_zdiv_nonneg_iff)
  have "now mod 1000000000 \<le> 999999999" using pos_mod_bound [of 1000000000 now] by linarith
  then have ms: "0 \<le> ms" "ms < 10 ^ 3"
    using zdiv_mono1 [of "now mod 1000000000" 999999999 1000000] by (simp_all add: ms_def pos_imp_zdiv_nonneg_iff)
  have stamp: "utc_timestamp now =
    pad_int 4 y @ ''-'' @ pad_int 2 m @ ''-'' @ pad_int 2 d @ ''T'' @ pad_int 2 (t div 3600) @ '':''
      @ pad_int 2 (t mod 3600 div 60) @ '':'' @ pad_int 2 (t mod 60) @ ''.'' @ pad_int 3 ms"
    using assms c t by (simp add: utc_timestamp_def Let_def secs_def [symmetric] t_def [symmetric]
      ms_def [symmetric] sdiv_nonneg smod_mod_positive)
  have r: "0 \<le> y" "y < 10 ^ 4" "0 \<le> m" "m < 10 ^ 2" "0 \<le> d" "d < 10 ^ 2"
    using ymd by (simp_all del: day_number.simps)
  have "day_number (y, m, d) * 24 + t div 3600 = secs div 86400 * 24 + t div 3600"
    using ymd by (simp only: simp_thms)
  moreover have "((secs div 86400 * 24 + t div 3600) * 60 + t mod 3600 div 60) * 60 + t mod 60 = secs"
    by (rule clock_split) (simp add: t_def)
  moreover have "now div 1000000 = secs * 1000 + ms"
    using mult_div_mod_eq [of 1000000 "now mod 1000000000", symmetric]
    by (intro int_div_pos_eq [where r = "now mod 1000000"] millis_split [of _ _ "now mod 1000000000"])
      (simp_all add: secs_def ms_def mod_mod_cancel)
  ultimately have total: "(((day_number (y, m, d) * 24 + t div 3600) * 60 + t mod 3600 div 60) * 60 + t mod 60) * 1000 + ms
    = now div 1000000" by presburger
  show ?thesis
    using read_fields [OF r hms ms] unfolding stamp total .
qed

theorem timestamp_reads_back_witness:
  "utc_timestamp 1728043506789000000 = ''2024-10-04T12:05:06.789''
   \<and> read_timestamp ''2024-10-04T12:05:06.789'' = Some 1728043506789"
proof -
  have "utc_timestamp 1728043506789000000 = ''2024-10-04T12:05:06.789''" by code_simp
  then show ?thesis using timestamp_reads_back [of 1728043506789000000] by simp
qed

end
