(* ===== verification/Messages.thy ===== *)
theory Messages
  imports Protocol Fault Format
begin

text \<open>
  The texts a node prints of its parts: the \<open>Display\<close> form of a decoding error
  (\<open>src/src/protocol.rs\<close>) and the summary of the fault injector (\<open>src/src/fault.rs\<close>).
\<close>

text \<open>\<open>{b:#04x}\<close>, and \<open>{bs:02x?}\<close> of an array.\<close>

definition show_hex_byte :: "u8 \<Rightarrow> string" where
  "show_hex_byte b = ''0x'' @ pad_zeros 2 (show_hex (unat b))"

definition show_hex_array :: "bytes \<Rightarrow> string" where
  "show_hex_array bs = ''['' @ join_with '', '' (map (\<lambda>b. pad_zeros 2 (show_hex (unat b))) bs) @ '']''"

fun show_protocol_error :: "protocol_error \<Rightarrow> string" where
  "show_protocol_error (TruncatedHeader len) = ''datagram too short for header: '' @ show_nat len @ '' bytes''"
| "show_protocol_error (BadMagic g) = ''bad magic: '' @ show_hex_array g @ '' (expected QST)''"
| "show_protocol_error (BadVersion g) = ''unsupported protocol version: '' @ show_hex_byte g"
| "show_protocol_error (UnknownMessageType code) = ''unknown message type: '' @ show_hex_byte code"
| "show_protocol_error (TruncatedPayload declared actual) =
     ''payload truncated: header says '' @ show_word declared @ '' bytes, datagram has '' @ show_nat actual"
| "show_protocol_error InvalidUtf8 = ''payload is not valid UTF-8''"
| "show_protocol_error (BadAckFlags g) = ''unknown ACK flags: '' @ show_hex_byte g"
| "show_protocol_error (BadAckPayload len) = ''progress ACK payload must be 4 bytes, got '' @ show_nat len"
| "show_protocol_error (BadPeerlistPayload len) =
     ''peerlist payload must be a multiple of 7 bytes, got '' @ show_nat len"
| "show_protocol_error (BadAvailabilityPayload len) =
     ''availability payload must be empty or 10 bytes, got '' @ show_nat len"

definition fault_summary :: "fault_injector \<Rightarrow> string" where
  "fault_summary f =
     ''fault injection: drop '' @ show_word (drop_pct f) @ ''% dup '' @ show_word (dup_pct f)
     @ ''% delay '' @ show_word (delay_ms f) @ ''ms reorder '' @ show_word (reorder_pct f)
     @ ''% burst '' @ show_word (burst_dur_ms f) @ ''/'' @ show_word (burst_every_ms f) @ ''ms seed rng''"

text \<open>The number at the end of a text can be read back, so errors with different sizes differ.\<close>

lemma show_nat_inj: "show_nat m = show_nat n \<longleftrightarrow> m = n"
proof
  assume "show_nat m = show_nat n"
  then have "parse_digits (Suc (max m n)) 0 (show_nat m) = Some n"
    using parse_digits_show [of n "Suc (max m n)"] by simp
  then show "m = n" using parse_digits_show [of m "Suc (max m n)"] by simp
qed simp

lemma printed_sizes_differ:
  "show_protocol_error (TruncatedHeader m) = show_protocol_error (TruncatedHeader n) \<longleftrightarrow> m = n"
  "show_protocol_error (BadPeerlistPayload m) = show_protocol_error (BadPeerlistPayload n) \<longleftrightarrow> m = n"
  "show_protocol_error (BadAckPayload m) = show_protocol_error (BadAckPayload n) \<longleftrightarrow> m = n"
  by (simp_all add: show_nat_inj)

end
