(* ===== verification/Program.thy ===== *)
theory Program
  imports Mainloop Upnp Logger Messages
begin

text \<open>
  The program as a whole, \<open>src/src/main.rs\<close>: the command line, its messages and exit codes, and
  what a started peer is made of. The arguments are those after the program's name; an
  argument that is not Unicode panics in \<open>std::env::args\<close> and is not modelled. The two loops
  are a parameter of \<open>run_main\<close>: the error they end with, as text, if they end.
\<close>

section \<open>The command line\<close>

datatype command =
    Run_server u16 string string "u16 option"
  | Run_peer u16 socket_addr string string "u16 option"

datatype cli = Exit string string nat | Run command

text \<open>The dash of the first line is U+2014.\<close>

definition em_dash :: string where
  "em_dash = of_bytes [0xE2, 0x80, 0x94]"

definition USAGE :: string where
  \<open>USAGE = concat (map (\<lambda>l. l @ newline)
     [''qstream '' @ em_dash @ '' P2P live video streaming over UDP (see SPEC.md)'',
      '''',
      ''USAGE:'',
      ''    qstream server <port> <manifest-path> [http-port]                       Master/seed mode'',
      ''    qstream peer <local-port> <remote-ip> <remote-port> [data-dir] [http-port]   Peer mode'',
      ''    qstream --help                                                          Show this help'',
      '''',
      ''EXAMPLES:'',
      ''    qstream server 3333 live/live.m3u8 8080'',
      ''    qstream peer 4444 127.0.0.1 3333 ./data 8081'',
      '''',
      ''Play the stream: ffplay http://127.0.0.1:8080/live.m3u8 -live_start_index 0'',
      ''Stats:        curl http://127.0.0.1:8080/stats   (JSON) | /peers (ranking) | /metrics (Prometheus)'',
      '''',
      ''Env:'',
      ''    QSTREAM_NAME            node name sent in handshake (default "master" / "peer")'',
      ''    QSTREAM_LOG             log level: error | warn | info | debug | trace (default info)'',
      ''    QSTREAM_PACING_MS       pacing between packets, ms (default 1)'',
      ''    QSTREAM_QUIET_MS        receiver quiet period, ms (default 150; adaptive M5)'',
      ''    QSTREAM_FIRST_TIMEOUT_MS  first-response timeout, ms (default 4000)'',
      ''    QSTREAM_RETENTION_SECS  keep old segments this long for playback (default 0 = off)'',
      ''    QSTREAM_PLAYBACK_HOLDBACK_SEGMENTS  complete HLS segments held behind the peer edge (default 3)'',
      ''Fault injection (M5, per-node):'',
      ''    QSTREAM_FAULT_DROP_PCT     %% of outgoing datagrams dropped'',
      ''    QSTREAM_FAULT_DUP_PCT      %% sent twice'',
      ''    QSTREAM_FAULT_DELAY_MS     fixed one-way latency on outgoing datagrams'',
      ''    QSTREAM_FAULT_REORDER_PCT  %% of sends swapped with the next one'',
      ''    QSTREAM_FAULT_BURST_EVERY_MS / QSTREAM_FAULT_BURST_DUR_MS  drop bursts'',
      ''    QSTREAM_FAULT_SEED         RNG seed (0 = time-based)''])\<close>

definition parse_u16 :: "string \<Rightarrow> u16 option" where
  "parse_u16 s = map_option of_nat (parse_uint (2 ^ 16) s)"

definition node_name :: "(string \<Rightarrow> string option) \<Rightarrow> string \<Rightarrow> string" where
  "node_name env dflt = (case env ''QSTREAM_NAME'' of Some n \<Rightarrow> n | None \<Rightarrow> dflt)"

definition parse_port :: "string \<Rightarrow> string + u16" where
  "parse_port s = (case parse_u16 s of Some p \<Rightarrow> Inr p | None \<Rightarrow> Inl (''invalid http port: '' @ s))"

text \<open>\<open>args.get(i)\<close>; a message on standard error, with and without the usage text.\<close>

definition arg :: "string list \<Rightarrow> nat \<Rightarrow> string option" where
  "arg args i = (if i < length args then Some (args ! i) else None)"

definition usage_failure :: "string \<Rightarrow> cli" where
  "usage_failure msg = Exit USAGE (msg @ newline) 1"

definition plain_failure :: "string \<Rightarrow> cli" where
  "plain_failure msg = Exit [] (msg @ newline) 1"

definition http_port_arg :: "string list \<Rightarrow> nat \<Rightarrow> string + u16 option" where
  "http_port_arg args i =
     (case arg args i of
        None \<Rightarrow> Inr None
      | Some s \<Rightarrow> (case parse_port s of Inl e \<Rightarrow> Inl e | Inr p \<Rightarrow> Inr (Some p)))"

definition server_command :: "(string \<Rightarrow> string option) \<Rightarrow> string list \<Rightarrow> cli" where
  "server_command env args =
     (case arg args 1 of
        None \<Rightarrow> usage_failure ''server: missing <port>''
      | Some port_str \<Rightarrow>
     (case arg args 2 of
        None \<Rightarrow> usage_failure ''server: missing <manifest-path>''
      | Some manifest_path \<Rightarrow>
     (case parse_u16 port_str of
        None \<Rightarrow> plain_failure (''server: invalid port: '' @ port_str)
      | Some port \<Rightarrow>
     (case http_port_arg args 3 of
        Inl e \<Rightarrow> plain_failure (''server: '' @ e)
      | Inr http_port \<Rightarrow> Run (Run_server port manifest_path (node_name env ''master'') http_port)))))"

definition peer_command :: "(string \<Rightarrow> string option) \<Rightarrow> string list \<Rightarrow> cli" where
  "peer_command env args =
     (case arg args 1 of
        None \<Rightarrow> usage_failure ''peer: missing <local-port>''
      | Some local_port_str \<Rightarrow>
     (case arg args 2 of
        None \<Rightarrow> usage_failure ''peer: missing <remote-ip>''
      | Some remote_ip_str \<Rightarrow>
     (case arg args 3 of
        None \<Rightarrow> usage_failure ''peer: missing <remote-port>''
      | Some remote_port_str \<Rightarrow>
     (case parse_u16 local_port_str of
        None \<Rightarrow> plain_failure (''peer: invalid local port: '' @ local_port_str)
      | Some local_port \<Rightarrow>
     (case parse_ip remote_ip_str of
        None \<Rightarrow> plain_failure (''peer: invalid remote ip: '' @ remote_ip_str)
      | Some remote_ip \<Rightarrow>
     (case parse_u16 remote_port_str of
        None \<Rightarrow> plain_failure (''peer: invalid remote port: '' @ remote_port_str)
      | Some remote_port \<Rightarrow>
     (case http_port_arg args 5 of
        Inl e \<Rightarrow> plain_failure (''peer: '' @ e)
      | Inr http_port \<Rightarrow>
          Run (Run_peer local_port (socket_addr_of remote_ip remote_port) (node_name env ''peer'')
            (case arg args 4 of Some d \<Rightarrow> d | None \<Rightarrow> ''./data'') http_port))))))))"

definition cli_main :: "(string \<Rightarrow> string option) \<Rightarrow> string list \<Rightarrow> cli" where
  "cli_main env args =
     (case args of
        [] \<Rightarrow> Exit USAGE [] 0
      | a # _ \<Rightarrow>
          if a = ''--help'' \<or> a = ''-h'' then Exit USAGE [] 0
          else if a = ''server'' then server_command env args
          else if a = ''peer'' then peer_command env args
          else usage_failure (''unknown command: '' @ a))"

text \<open>
  The verbosity that is set, what is written to standard output and standard error, and the
  exit code.
\<close>

definition run_main ::
    "(command \<Rightarrow> string option) \<Rightarrow> (string \<Rightarrow> string option) \<Rightarrow> string list \<Rightarrow> u8 \<times> string \<times> string \<times> nat" where
  "run_main run env args =
     (set_level (case env ''QSTREAM_LOG'' of Some l \<Rightarrow> l | None \<Rightarrow> []) DEFAULT_LEVEL,
      (case cli_main env args of
         Exit out err code \<Rightarrow> (out, err, code)
       | Run cmd \<Rightarrow>
           (case run cmd of
              None \<Rightarrow> ([], [], 0)
            | Some e \<Rightarrow>
                ([], (case cmd of Run_server _ _ _ _ \<Rightarrow> ''server error: '' | Run_peer _ _ _ _ _ \<Rightarrow> ''peer error: '')
                   @ e @ newline, 1))))"

section \<open>A peer from its command\<close>

text \<open>\<open>local\<close> is what \<open>local_addr\<close> says of the bound socket.\<close>

definition start_peer ::
    "(string \<Rightarrow> string option) \<Rightarrow> nat option \<Rightarrow> instant \<Rightarrow> udp_socket \<Rightarrow> socket_addr \<Rightarrow> u16 \<Rightarrow> socket_addr \<Rightarrow> string
      \<Rightarrow> string \<Rightarrow> fault_injector \<Rightarrow> lan \<Rightarrow> igd \<Rightarrow> host \<Rightarrow> file_system \<Rightarrow> peer_state \<times> file_system" where
  "start_peer env clock now sock local local_port remote name dir flt nw w h fs =
     (let cfg = \<lparr>data_dir = dir, playback_holdback = playback_holdback_segments env,
                 local_addr = local, bootstrap = remote\<rparr>;
          upnp = (if env ''QSTREAM_NO_UPNP'' = None then fst (try_map nw local_port w) else None) in
      peer_new env clock now sock name cfg flt upnp h fs)"

text \<open>
  Starting up: \<open>created\<close> and \<open>bound\<close> say whether the data directory could be made and the
  socket bound.
\<close>

definition peer_startup ::
    "bool \<Rightarrow> bool \<Rightarrow> (string \<Rightarrow> string option) \<Rightarrow> nat option \<Rightarrow> instant \<Rightarrow> udp_socket \<Rightarrow> socket_addr \<Rightarrow> u16
      \<Rightarrow> socket_addr \<Rightarrow> string \<Rightarrow> string \<Rightarrow> fault_injector \<Rightarrow> lan \<Rightarrow> igd \<Rightarrow> host \<Rightarrow> file_system
      \<Rightarrow> io_error + peer_state \<times> file_system" where
  "peer_startup created bound env clock now sock local local_port remote name dir flt nw w h fs =
     (if \<not> created then Inl (WriteFailed dir)
      else if \<not> bound then Inl SocketFailed
      else Inr (start_peer env clock now sock local local_port remote name dir flt nw w h fs))"

datatype server_start = Manifest_missing | Bind_failed | Server_started node

definition server_startup ::
    "bool \<Rightarrow> (string \<Rightarrow> string option) \<Rightarrow> nat option \<Rightarrow> instant \<Rightarrow> socket_addr option \<Rightarrow> udp_socket \<Rightarrow> string
      \<Rightarrow> string \<Rightarrow> fault_injector \<Rightarrow> bool \<Rightarrow> file_system \<Rightarrow> server_start" where
  "server_startup bound env clock now la sock name manifest_path flt http fs =
     (case master_new env clock now la sock name manifest_path flt http fs of
        None \<Rightarrow> Manifest_missing
      | Some nd \<Rightarrow> if bound then Server_started nd else Bind_failed)"

text \<open>
  The HTTP thread: what its listener accepts, and the answer to every connection, from the
  files and the statistics as they are when it is handled. A failed accept is skipped.
\<close>

datatype accepted = Connection "bytes list" | Accept_failed

definition http_serve ::
    "bool \<Rightarrow> string \<Rightarrow> (accepted \<times> file_system \<times> stats_snapshot option) list \<Rightarrow> io_error + bytes option list" where
  "http_serve bound dir incoming =
     (if \<not> bound then Inl SocketFailed
      else Inr (List.map_filter
        (\<lambda>(a, fs, stats). case a of
           Connection chunks \<Rightarrow> Some (handle_connection fs dir stats chunks)
         | Accept_failed \<Rightarrow> None) incoming))"

section \<open>What the command line means\<close>

lemma arg_simps:
  "arg (a # p # q # r # rest) 1 = Some p" "arg (a # p # q # r # rest) 2 = Some q"
  "arg (a # p # q # r # rest) 3 = Some r"
  "arg (a # p # q # r # rest) 4 = (case rest of [] \<Rightarrow> None | d # _ \<Rightarrow> Some d)"
  "arg (a # p # q # r # rest) 5 = (case rest of _ # h # _ \<Rightarrow> Some h | _ \<Rightarrow> None)"
  by (auto simp: arg_def split: list.split)

lemma three_args: "arg args 3 = Some x \<Longrightarrow> \<exists>a p q r rest. args = a # p # q # r # rest"
proof -
  assume "arg args 3 = Some x"
  then have "Suc (Suc (Suc (Suc 0))) \<le> length args" by (simp add: arg_def split: if_splits)
  then show ?thesis by (auto simp: Suc_le_length_iff)
qed

lemma http_port_arg_Inr:
  "http_port_arg args i = Inr http \<longleftrightarrow>
     (case arg args i of None \<Rightarrow> http = None | Some s \<Rightarrow> http \<noteq> None \<and> parse_u16 s = http)"
  by (auto simp: http_port_arg_def parse_port_def split: option.splits)

text \<open>C16: A peer starts exactly when its three required arguments are there and well formed, and
  with just what they say: a port, an IPv4 or IPv6 address with a port, the data directory,
  \<open>./data\<close> unless it is named, and the HTTP port where one is given, which must be a port too.\<close>

theorem peer_starts_iff:
  "cli_main env args = Run (Run_peer port remote name dir http) \<longleftrightarrow>
     (\<exists>p ip rp rest addr rport.
        args = ''peer'' # p # ip # rp # rest
        \<and> parse_u16 p = Some port \<and> parse_ip ip = Some addr \<and> parse_u16 rp = Some rport
        \<and> remote = socket_addr_of addr rport
        \<and> name = (case env ''QSTREAM_NAME'' of Some n \<Rightarrow> n | None \<Rightarrow> ''peer'')
        \<and> dir = (case rest of d # _ \<Rightarrow> d | [] \<Rightarrow> ''./data'')
        \<and> (case rest of _ # h # _ \<Rightarrow> http \<noteq> None \<and> parse_u16 h = http | _ \<Rightarrow> http = None))"
proof -
  have run: "cli_main env args = Run (Run_peer port remote name dir http) \<longleftrightarrow>
    (\<exists>rest. args = ''peer'' # rest) \<and> peer_command env args = Run (Run_peer port remote name dir http)"
    by (auto simp: cli_main_def server_command_def plain_failure_def usage_failure_def
        split: list.splits option.splits sum.splits)
  have peer: "peer_command env args = Run (Run_peer port remote name dir http) \<longleftrightarrow>
    (\<exists>p ip rp addr rport. arg args 1 = Some p \<and> arg args 2 = Some ip \<and> arg args 3 = Some rp
      \<and> parse_u16 p = Some port \<and> parse_ip ip = Some addr \<and> parse_u16 rp = Some rport
      \<and> remote = socket_addr_of addr rport \<and> name = node_name env ''peer''
      \<and> dir = (case arg args 4 of Some d \<Rightarrow> d | None \<Rightarrow> ''./data'') \<and> http_port_arg args 5 = Inr http)"
    by (auto simp: peer_command_def plain_failure_def usage_failure_def split: option.splits sum.splits)
  show ?thesis
  proof (cases "\<exists>p ip rp rest. args = ''peer'' # p # ip # rp # rest")
    case True
    then obtain p ip rp rest where args: "args = ''peer'' # p # ip # rp # rest" by blast
    have "arg args 1 = Some p" "arg args 2 = Some ip" "arg args 3 = Some rp"
      "(case arg args 4 of Some d \<Rightarrow> d | None \<Rightarrow> ''./data'') = (case rest of d # _ \<Rightarrow> d | [] \<Rightarrow> ''./data'')"
      "http_port_arg args 5 = Inr http \<longleftrightarrow>
         (case rest of _ # h # _ \<Rightarrow> http \<noteq> None \<and> parse_u16 h = http | _ \<Rightarrow> http = None)"
      unfolding args by (simp_all only: arg_simps http_port_arg_Inr) (simp_all split: list.split)
    then show ?thesis unfolding run peer by (simp add: args node_name_def)
  next
    case False
    have "\<not> (\<exists>rest. args = ''peer'' # rest) \<or> arg args 3 = None"
    proof (cases "arg args 3")
      case (Some x)
      then obtain a p q r rest where "args = a # p # q # r # rest" using three_args by blast
      with False show ?thesis by simp
    qed simp
    then have "cli_main env args \<noteq> Run (Run_peer port remote name dir http)" unfolding run peer by force
    moreover have "args \<noteq> ''peer'' # p # ip # rp # rest" for p ip rp rest using False by blast
    ultimately show ?thesis by simp
  qed
qed

text \<open>Without a mode to run the program says why: help, asked for or for want of arguments, is
  the usage text alone and exit code 0; anything else that does not start a node is a message
  on standard error and exit code 1. A server or peer that ends with an error exits with 1 too,
  its message naming the mode.\<close>

theorem main_exits:
  "run_main run env args = (level, out, err, code) \<Longrightarrow>
     (\<exists>cmd. cli_main env args = Run cmd \<and> out = []
        \<and> (case run cmd of
             None \<Rightarrow> err = [] \<and> code = 0
           | Some e \<Rightarrow> code = 1 \<and> (err = ''server error: '' @ e @ newline \<or> err = ''peer error: '' @ e @ newline)
               \<and> (err = ''peer error: '' @ e @ newline \<longleftrightarrow> args \<noteq> [] \<and> hd args = ''peer'')))
     \<or> (args = [] \<or> hd args \<in> {''--help'', ''-h''}) \<and> out = USAGE \<and> err = [] \<and> code = 0
     \<or> args \<noteq> [] \<and> hd args \<notin> {''--help'', ''-h''} \<and> out \<in> {USAGE, []} \<and> suffix newline err \<and> err \<noteq> newline \<and> code = 1"
proof -
  assume m: "run_main run env args = (level, out, err, code)"
  have server: "\<exists>port path name http. server_command env as = Run (Run_server port path name http)
    \<or> (\<exists>o' msg. server_command env as = Exit o' (msg @ newline) 1 \<and> o' \<in> {USAGE, []} \<and> msg \<noteq> [])" for as
    by (auto simp: server_command_def usage_failure_def plain_failure_def split: option.splits sum.splits)
  have peer: "\<exists>port remote name dir http. peer_command env as = Run (Run_peer port remote name dir http)
    \<or> (\<exists>o' msg. peer_command env as = Exit o' (msg @ newline) 1 \<and> o' \<in> {USAGE, []} \<and> msg \<noteq> [])" for as
    by (auto simp: peer_command_def usage_failure_def plain_failure_def split: option.splits sum.splits)
  show ?thesis
  proof (cases "args = [] \<or> hd args \<in> {''--help'', ''-h''}")
    case True
    then have "cli_main env args = Exit USAGE [] 0" by (cases args) (auto simp: cli_main_def)
    with m True show ?thesis by (auto simp: run_main_def)
  next
    case False
    then obtain a as where args: "args = a # as" "a \<notin> {''--help'', ''-h''}" by (cases args) auto
    consider "a = ''server''" | "a = ''peer''" | "a \<notin> {''server'', ''peer''}" by blast
    then show ?thesis
    proof cases
      case 1
      with args have "cli_main env args = server_command env args" by (simp add: cli_main_def)
      with m args 1 server [of args] show ?thesis by (auto simp: run_main_def suffix_def split: option.splits)
    next
      case 2
      with args have "cli_main env args = peer_command env args" by (simp add: cli_main_def)
      with m args 2 peer [of args] show ?thesis by (auto simp: run_main_def suffix_def split: option.splits)
    next
      case 3
      with args m show ?thesis by (auto simp: cli_main_def run_main_def usage_failure_def suffix_def)
    qed
  qed
qed

theorem main_exits_witness:
  "run_main (\<lambda>_. None) (\<lambda>_. None) [''seed''] = (2, USAGE, ''unknown command: seed'' @ newline, 1)
   \<and> suffix newline (''unknown command: seed'' @ newline)"
proof -
  have m: "run_main (\<lambda>_. None) (\<lambda>_. None) [''seed''] = (2, USAGE, ''unknown command: seed'' @ newline, 1)"
    by (simp add: run_main_def cli_main_def usage_failure_def set_level_def DEFAULT_LEVEL_def)
  from main_exits [OF m] m show ?thesis by (auto simp: cli_main_def usage_failure_def suffix_def)
qed

section \<open>What a peer claims\<close>

lemma node_send_claimed [simp]: "n_claimed (node_send bs dst now nd) = n_claimed nd"
  by (simp add: node_send_def with_net_def split: prod.split)

text \<open>C13: The endpoint a peer announces in its handshake is never made up. If it claims one, UPnP
  was not disabled and a router granted it: the last two requests sent went to one host and
  were answered by the last two answers taken. The first asked for the external address,
  which is the address claimed; the second is a POST that asks, byte for byte, to map the UDP
  port this peer was started on to the same port of this host's own, non-loopback address,
  and its answer confirms the mapping. The port claimed is that port. Otherwise the peer
  claims no endpoint.\<close>

theorem peer_claims_granted:
  assumes "n_claimed (lp_node (fst (start_peer env clock now sock local port remote name dir flt nw w h fs))) = Some a"
  shows "env ''QSTREAM_NO_UPNP'' = None
    \<and> (\<exists>sent answers host path query client src ip b1 b2 r1 r2 x1 x2 t.
         igd_sent (snd (try_map nw port w))
           = igd_sent w @ sent @ [(host, soap_request host path ''GetExternalIPAddress'' []), (host, query)]
         \<and> igd_answers w = answers @ [Answered x1, Answered x2] @ igd_answers (snd (try_map nw port w))
         \<and> asks_mapping port client query
         \<and> lan_source nw = Some (V4 client src) \<and> \<not> v4_is_loopback client
         \<and> from_utf8 x1 = Some r1 \<and> body_of r1 = Some b1 \<and> tag_text b1 ''NewExternalIPAddress'' = Some t
         \<and> parse_v4 (str_trim t) = Some ip \<and> a = V4 ip port
         \<and> from_utf8 x2 = Some r2 \<and> body_of r2 = Some b2 \<and> str_contains b2 ''AddPortMappingResponse'')"
proof -
  have "env ''QSTREAM_NO_UPNP'' = None \<and> fst (try_map nw port w) = Some a"
    using assms
    by (auto simp: start_peer_def peer_new_def node_new_def set_claimed_def Let_def split: prod.splits if_splits option.splits)
  then obtain w' where env: "env ''QSTREAM_NO_UPNP'' = None" and m: "try_map nw port w = (Some a, w')"
    by (metis prod.collapse)
  from try_map_granted [OF m]
  obtain ds host path client ip src b1 b2 r1 r2 x1 x2 t rest where g:
    "igd_sent w' = igd_sent w @ ds @
      [(host, soap_request host path ''GetExternalIPAddress'' []),
       (host, soap_request host path ''AddPortMapping'' (mapping_args port client))]"
    "igd_answers w = rest @ [Answered x1, Answered x2] @ igd_answers w'"
    "lan_source nw = Some (V4 client src)" "\<not> v4_is_loopback client"
    "from_utf8 x1 = Some r1" "body_of r1 = Some b1" "tag_text b1 ''NewExternalIPAddress'' = Some t"
    "parse_v4 (str_trim t) = Some ip" "a = V4 ip port"
    "from_utf8 x2 = Some r2" "body_of r2 = Some b2" "str_contains b2 ''AddPortMappingResponse''"
    by (elim exE conjE)
  have s: "igd_sent (snd (try_map nw port w)) = igd_sent w @ ds @
      [(host, soap_request host path ''GetExternalIPAddress'' []),
       (host, soap_request host path ''AddPortMapping'' (mapping_args port client))]"
    using g(1) m by simp
  have q: "asks_mapping port client (soap_request host path ''AddPortMapping'' (mapping_args port client))"
    by (rule mapping_asked)
  have n: "igd_answers w = rest @ [Answered x1, Answered x2] @ igd_answers (snd (try_map nw port w))"
    using g(2) m by simp
  show ?thesis
    using env s n q g(3-12) by - (intro exI conjI, assumption+)
qed

theorem peer_claims_granted_witness:
  "let ps = lp_node (fst (start_peer (\<lambda>_. None) None 0 (snd demo_net) (V4 0 4444) 4444 (V4 0x7F000001 3333) ''peer''
     ''./data'' (fst demo_net) demo_lan demo_igd demo_host demo_disk)) in
   n_claimed ps = Some (V4 0xCB007109 4444)
   \<and> (\<exists>client. \<exists>(host, query) \<in> set (igd_sent (snd (try_map demo_lan 4444 demo_igd))). asks_mapping 4444 client query)"
proof -
  have c: "n_claimed (lp_node (fst (start_peer (\<lambda>_. None) None 0 (snd demo_net) (V4 0 4444) 4444 (V4 0x7F000001 3333)
     ''peer'' ''./data'' (fst demo_net) demo_lan demo_igd demo_host demo_disk))) = Some (V4 0xCB007109 4444)"
    by (simp add: start_peer_def peer_new_def node_new_def set_claimed_def Let_def demo_try_map split: prod.split)
  from peer_claims_granted [OF c] obtain sent host path query client where
    "igd_sent (snd (try_map demo_lan 4444 demo_igd))
       = igd_sent demo_igd @ sent @ [(host, soap_request host path ''GetExternalIPAddress'' []), (host, query)]"
    "asks_mapping 4444 client query"
    by (elim exE conjE)
  then have "(host, query) \<in> set (igd_sent (snd (try_map demo_lan 4444 demo_igd)))" "asks_mapping 4444 client query"
    by simp_all
  with c show ?thesis unfolding Let_def by blast
qed

end
