(* ===== verification/Spec2Isabelle.thy ===== *)
theory Spec2Isabelle
  imports Accounting Delivery Relay Program
begin

text \<open>
  A verification library for qstream, a peer-to-peer distribution of live video (HLS segments)
  over UDP, written in Rust (\<open>src/src\<close>).

  \<^bold>\<open>The program.\<close> A master has a playlist and its segments on disk and answers requests for
  them. A peer polls the bootstrap node for the playlist and the list of peers, pulls missing
  segments from whoever has them, serves them on, and offers the stream to a local player over
  HTTP. \<open>main.rs\<close> reads the command line and starts \<open>server::run\<close> or \<open>peer::run\<close>. Both own one
  \<open>Node\<close> (\<open>node.rs\<close>): the tables of peers, their ranking and their inventories, the seed leases,
  and a \<open>TransferRegistry\<close> (\<open>transfer.rs\<close>) with one sender or receiver per running transfer. All
  datagrams are encoded by \<open>protocol.rs\<close> and leave through the fault injector of \<open>fault.rs\<close>. The
  peer's loop (\<open>peer.rs\<close>) adds the download scheduler, and the port mapping of \<open>upnp.rs\<close> before
  it starts; \<open>http.rs\<close> serves files and the published statistics from a thread of its own;
  \<open>log.rs\<close> prints.

  \<^bold>\<open>The theories\<close>, each with the code it models, in the order they build on each other:

  \<^item> \<open>Prelude\<close>, \<open>Text\<close>, \<open>Address\<close>, \<open>Format\<close>, \<open>Parse_Addr\<close>: integers in network byte order, UTF-8
    strings, tables, what the sources use of \<open>str\<close>, \<open>Path\<close>, \<open>format!\<close> and \<open>std::net\<close>.
  \<^item> \<open>Link\<close> and \<open>Codec\<close>: the interfaces, as locales, of a lossy link and of a datagram codec, with
    the lemmas their clients share. \<open>Protocol\<close> interprets the codec (\<open>wire\<close>), \<open>Fault\<close> the link
    (\<open>injector\<close>); the transfers are proved against the interfaces.
  \<^item> \<open>Protocol\<close> (\<open>protocol.rs\<close>): \<open>message\<close>, \<open>encode\<close>, \<open>decode\<close> and every rejection.
  \<^item> \<open>Fault\<close> (\<open>fault.rs\<close>): \<open>rng\<close>, \<open>fault_injector\<close>, \<open>fault_send\<close>, \<open>fault_drain\<close>, the deadline.
    \<open>Accounting\<close> counts the datagrams in the link as multisets.
  \<^item> \<open>Timers\<close>, \<open>Files\<close>, \<open>Sender\<close>, \<open>Receiver\<close>, \<open>Registry\<close> (\<open>transfer.rs\<close>): the adaptive timers; file
    names, playlists and inventories over a \<open>file_system\<close>; the two ends of a transfer; the table
    of transfers with its limit of 32. \<open>reg_step\<close> is one operation on the registry.
  \<^item> \<open>Exchange\<close>, \<open>Delivery\<close>: a sender and a receiver over an adversarial network
    (\<open>exchange_step\<close>), and over a clean one. \<open>Relay\<close>: a registry with the directory it both
    downloads into and serves, and the names its transfers were asked for under (\<open>relay_step\<close>),
    so that integrity passes from peer to peer.
  \<^item> \<open>Node\<close>, \<open>Stats\<close>, \<open>Ticking\<close>, \<open>Dispatch\<close> (\<open>node.rs\<close>): the record \<open>node\<close> and the operations on its
    tables; the three statistics documents; \<open>tick\<close> with pings and retention; \<open>handle\<close>.
    \<open>node_step\<close> is one datagram or tick.
  \<^item> \<open>Http\<close> (\<open>http.rs\<close>): a connection from the chunks read to the bytes written.
  \<^item> \<open>Scheduler\<close>, \<open>Mainloop\<close> (\<open>peer.rs\<close>, \<open>server.rs\<close>): the download queue, the choice of a peer, the
    four download slots; the rounds of both loops. \<open>peer_step\<close> is a round, or a change of the
    disk by another process.
  \<^item> \<open>Logger\<close> (\<open>log.rs\<close>), \<open>Upnp\<close> (\<open>upnp.rs\<close>), \<open>Messages\<close> (the printed forms of \<open>protocol.rs\<close> and
    \<open>fault.rs\<close>), \<open>Program\<close> (\<open>main.rs\<close> and the start of both loops and of the HTTP thread): the
    log line and its time stamp; discovery and SOAP calls; error texts; the command line and
    the set-up of a node.

  \<^bold>\<open>How the code is modelled.\<close> A struct is a record, an enum a datatype, a fixed-width integer a
  word; a counter that would need centuries to pass its width wraps as in a release build.
  Time is a natural number of nanoseconds, and a handler that reads the clock several times
  gets one reading. A \<open>HashMap\<close> is an association list with distinct keys whose order is left
  open, a \<open>HashSet\<close> a set. What the operating system answers is an argument: which datagrams a
  socket accepts, which files exist and which writes fail (\<open>file_system\<close>), ages of files,
  memory size and clock readings (\<open>host\<close>), received datagrams (\<open>round_input\<close>), the network UPnP
  talks to (\<open>lan\<close>, \<open>igd\<close>). Floating-point arithmetic is the parameter \<open>float_ops\<close>, the Unicode
  case tables are \<open>lan_lowercase\<close>. The result \<open>None\<close> of an operation that has it is a panic,
  \<open>Inl\<close> an error of a \<open>Result\<close>.

  \<^bold>\<open>What is proved.\<close>
  \<^item> Codec: round trips in both directions, an exact grammar of what is accepted, well-typed
    results whatever arrives.
  \<^item> Transfers: packets and completed files are genuine over any loss, delay, repetition and
    reordering; a transfer over a clean link completes; both ends give up after bounded silence;
    neither end panics or sends outside the file; the registry keeps its limits; a peer that
    relays stores and sends only published contents under segment names, given that the packets
    reaching its downloads belong to them, which the code does not check; the fault injector
    neither loses nor invents a datagram unnoticed.
  \<^item> Node: an invariant of every reachable state, and that no datagram and no tick panics; the
    seed budget and when it is exceeded; what a peer list may reveal; when inventories expire; what pruning deletes.
  \<^item> Peer: the queue after a manifest, the soundness of the chosen peer, the bounds on downloads,
    the safety of the whole loop, with the exact errors that end it, and its polling; what it
    asked a router for before it announces a port mapping.
  \<^item> HTTP: the exact playlist for players, and confinement to the served directory.
  \<^item> Rest: the calendar, the command line, the resolution of control URLs.
  \<^item> Defects of the code that modelling showed are theorems too: stalled senders, parked
    receivers, names queued twice, an idle master that never wakes, files cut at 91,749,000 bytes, lower-cased URLs.

  \<^bold>\<open>Fuel and bounds.\<close> \<open>trim_start_fuel\<close>, \<open>trim_end_fuel\<close>, \<open>split_ws\<close> and \<open>lossy_fuel\<close> take the
  length of their text, of which every step removes at least a byte. The search for a transfer
  id takes a list of clock readings; among 34 different candidates one is free, as at most 32
  are in use and zero is excluded. All other loops recurse on their data.

  \<^bold>\<open>Not modelled:\<close> the interleaving of threads and the poisoning of the mutex around the published
  statistics, the system calls behind the arguments above, the log lines of the other components, the texts of I/O
  errors, and the scripts and documents beside the code.
\<close>

end
